(* ===== verification/Prelude.thy ===== *)
theory Prelude
  imports Main "HOL-Library.AList"
begin

section \<open>Prelude: dictionaries, results, shared automation\<close>

text \<open>
  What every component of the development shares.

  \<^item> A Python \<open>dict\<close> keeps its keys in insertion order and that order is visible
    (\<open>Registry.list_all\<close>, \<open>StateStore.list_sessions\<close>, the TOML writer), so a
    dictionary is an association list: \<open>dict_set\<close> replaces the value in place when the
    key is present and appends otherwise, \<open>dict_del\<close> removes it, \<open>map_of\<close> looks it up.
  \<^item> The collections \<open>dict_simps\<close> (rewriting of dictionary operations) and
    \<open>inv_intros\<close> (one rule per operation that keeps an invariant).
\<close>

named_theorems dict_simps "rewriting of dictionary operations"
named_theorems inv_intros "an operation keeps the invariant of its component"

type_synonym ('k, 'v) dict = "('k \<times> 'v) list"

definition dict_set :: "'k \<Rightarrow> 'v \<Rightarrow> ('k, 'v) dict \<Rightarrow> ('k, 'v) dict" where
  "dict_set k v d = AList.update k v d"

definition dict_del :: "'k \<Rightarrow> ('k, 'v) dict \<Rightarrow> ('k, 'v) dict" where
  "dict_del k d = filter (\<lambda>p. fst p \<noteq> k) d"

definition dict_has :: "'k \<Rightarrow> ('k, 'v) dict \<Rightarrow> bool" where
  "dict_has k d \<longleftrightarrow> k \<in> set (map fst d)"

definition dict_values :: "('k, 'v) dict \<Rightarrow> 'v list" where
  "dict_values d = map snd d"

definition dict_ok :: "('k, 'v) dict \<Rightarrow> bool" where
  "dict_ok d \<longleftrightarrow> distinct (map fst d)"

text \<open>\<open>{**a, **b}\<close>: the entries of \<open>a\<close>, then those of \<open>b\<close>, later ones winning.\<close>

definition dict_merge :: "('k, 'v) dict \<Rightarrow> ('k, 'v) dict \<Rightarrow> ('k, 'v) dict" where
  "dict_merge a b = fold (\<lambda>p. dict_set (fst p) (snd p)) b a"

subsection \<open>Laws of the dictionary operations\<close>

lemma map_of_dict_set [simp, dict_simps]: "map_of (dict_set k v d) = (map_of d)(k \<mapsto> v)"
  by (simp add: dict_set_def update_conv')

lemma map_of_dict_del [simp, dict_simps]: "map_of (dict_del k d) = (map_of d)(k := None)"
  by (induction d) (auto simp: dict_del_def fun_eq_iff)

lemma dict_has_iff [simp, dict_simps]: "dict_has k d \<longleftrightarrow> map_of d k \<noteq> None"
  by (simp add: dict_has_def map_of_eq_None_iff)

lemma dict_ok_Nil [simp]: "dict_ok []"
  by (simp add: dict_ok_def)

lemma dict_ok_set [simp, inv_intros]: "dict_ok d \<Longrightarrow> dict_ok (dict_set k v d)"
  by (simp add: dict_ok_def dict_set_def distinct_update)

lemma dict_ok_del [simp, inv_intros]: "dict_ok d \<Longrightarrow> dict_ok (dict_del k d)"
  by (induction d) (auto simp: dict_ok_def dict_del_def)

lemma dict_set_fresh: "map_of d k = None \<Longrightarrow> dict_set k v d = d @ [(k, v)]"
  by (induction d) (auto simp: dict_set_def split: if_splits)

lemma dict_set_set [simp, dict_simps]: "dict_set k v (dict_set k w d) = dict_set k v d"
  by (induction d) (auto simp: dict_set_def)

lemma dict_del_fresh: "map_of d k = None \<Longrightarrow> dict_del k d = d"
  by (induction d) (auto simp: dict_del_def split: if_splits)

lemma dict_del_append: "dict_del k (d @ e) = dict_del k d @ dict_del k e"
  by (simp add: dict_del_def)

text \<open>Removing the key that was just added gives back the dictionary, in its order.\<close>

lemma dict_del_set_fresh [simp, dict_simps]:
  "map_of d k = None \<Longrightarrow> dict_del k (dict_set k v d) = d"
  by (simp add: dict_set_fresh dict_del_append dict_del_fresh) (simp add: dict_del_def)

lemma fst_dict_set: "fst ` set (dict_set k v d) = insert k (fst ` set d)"
  by (induction d) (auto simp: dict_set_def)

lemma set_dict_set: "dict_ok d \<Longrightarrow> set (dict_set k v d) = insert (k, v) {p \<in> set d. fst p \<noteq> k}"
  by (induction d) (force simp: dict_set_def dict_ok_def)+

lemma set_dict_set_subset: "set (dict_set k v d) \<subseteq> insert (k, v) (set d)"
  by (induction d) (auto simp: dict_set_def)

lemma set_dict_del [simp]: "set (dict_del k d) = {p \<in> set d. fst p \<noteq> k}"
  by (auto simp: dict_del_def)

lemma dict_get_in: "map_of d k = Some v \<Longrightarrow> (k, v) \<in> set d"
  by (rule map_of_SomeD)

lemma dict_in_get: "dict_ok d \<Longrightarrow> (k, v) \<in> set d \<Longrightarrow> map_of d k = Some v"
  by (simp add: dict_ok_def)

lemma dict_del_notin: "k \<notin> fst ` set d \<Longrightarrow> dict_del k d = d"
  by (induction d) (auto simp: dict_del_def)

lemma fold_dict_del: "fold dict_del ks d = filter (\<lambda>p. fst p \<notin> set ks) d"
  by (induction ks arbitrary: d) (auto simp: dict_del_def intro!: filter_cong)

subsection \<open>Finite chains of a partial successor function\<close>

text \<open>
  Jump hosts form chains \<open>a, f a, f (f a), \<dots>\<close> of a partial function on names. \<open>chain_ends f a n\<close>
  holds when the chain from \<open>a\<close> stops after at most \<open>n\<close> links.
\<close>

fun chain_ends :: "('a \<Rightarrow> 'a option) \<Rightarrow> 'a \<Rightarrow> nat \<Rightarrow> bool" where
  "chain_ends f a 0 \<longleftrightarrow> f a = None"
| "chain_ends f a (Suc n) \<longleftrightarrow> (case f a of None \<Rightarrow> True | Some b \<Rightarrow> chain_ends f b n)"

text \<open>The node after \<open>n\<close> links, if the chain is that long.\<close>

fun chain_at :: "('a \<Rightarrow> 'a option) \<Rightarrow> 'a \<Rightarrow> nat \<Rightarrow> 'a option" where
  "chain_at f a 0 = Some a"
| "chain_at f a (Suc n) = (case f a of None \<Rightarrow> None | Some b \<Rightarrow> chain_at f b n)"

lemma chain_ends_mono: "chain_ends f a n \<Longrightarrow> n \<le> m \<Longrightarrow> chain_ends f a m"
proof (induction n arbitrary: a m)
  case 0
  then show ?case by (cases m) auto
next
  case (Suc n)
  then show ?case by (cases m) (auto split: option.splits)
qed

lemma chain_ends_iff: "chain_ends f a n \<longleftrightarrow> chain_at f a (Suc n) = None"
  by (induction n arbitrary: a) (auto split: option.splits)

lemma chain_at_add: "chain_at f a (n + m) = Option.bind (chain_at f a n) (\<lambda>b. chain_at f b m)"
  by (induction n arbitrary: a) (auto split: option.splits)

lemma chain_at_one: "chain_at f b (Suc 0) = f b"
  by (simp split: option.splits)

lemma chain_at_Suc_last: "chain_at f a (Suc n) = Option.bind (chain_at f a n) f"
  using chain_at_add [of f a n "Suc 0"] by (simp add: chain_at_one del: chain_at.simps)

lemma chain_at_mono_None: "chain_at f a n = None \<Longrightarrow> n \<le> m \<Longrightarrow> chain_at f a m = None"
  by (induction n arbitrary: a m) (auto split: option.splits simp: Suc_le_eq elim!: less_natE)

subsection \<open>Generic list facts\<close>

lemma take_bytes_split: "take n xs @ drop n xs = xs"
  by simp

lemma distinct_map_fst_inj: "distinct (map fst d) \<Longrightarrow> p \<in> set d \<Longrightarrow> q \<in> set d \<Longrightarrow> fst p = fst q \<Longrightarrow> p = q"
  by (auto simp: distinct_map inj_on_def)

end
