(* ===== verification/Py_Strings.thy ===== *)
theory Py_Strings
  imports Prelude "HOL-Library.Sublist"
begin

section \<open>The Python string operations the program uses\<close>

text \<open>
  A Python \<open>str\<close> is a \<open>string\<close> whose characters stand for the code points 0 to 255 (Latin-1);
  other code points are outside the model. The operations are those of \<open>str\<close> and \<open>int\<close> that
  the program calls: \<open>strip\<close>, \<open>split\<close>, \<open>splitlines\<close>, \<open>partition\<close>, \<open>rpartition\<close>, \<open>in\<close>,
  \<open>startswith\<close>, \<open>replace\<close>, \<open>join\<close>, \<open>lower\<close>, \<open>isdigit\<close>, \<open>isalpha\<close>, \<open>int(s)\<close>, \<open>f"{n}"\<close>.
\<close>

subsection \<open>Character classes\<close>

abbreviation code :: "char \<Rightarrow> nat" where
  "code c \<equiv> of_char c"

definition is_space :: "char \<Rightarrow> bool" where
  "is_space c \<longleftrightarrow> 9 \<le> code c \<and> code c \<le> 13 \<or> 28 \<le> code c \<and> code c \<le> 32
     \<or> code c = 0x85 \<or> code c = 0xA0"

definition is_dec :: "char \<Rightarrow> bool" where
  "is_dec c \<longleftrightarrow> 48 \<le> code c \<and> code c \<le> 57"

text \<open>\<open>str.isdigit\<close> also accepts the superscripts two, three and one; \<open>int\<close> does not.\<close>

definition is_digit_char :: "char \<Rightarrow> bool" where
  "is_digit_char c \<longleftrightarrow> is_dec c \<or> code c = 0xB2 \<or> code c = 0xB3 \<or> code c = 0xB9"

definition is_ascii_alpha :: "char \<Rightarrow> bool" where
  "is_ascii_alpha c \<longleftrightarrow> 65 \<le> code c \<and> code c \<le> 90 \<or> 97 \<le> code c \<and> code c \<le> 122"

definition is_ascii_alnum :: "char \<Rightarrow> bool" where
  "is_ascii_alnum c \<longleftrightarrow> is_ascii_alpha c \<or> is_dec c"

definition is_alpha :: "char \<Rightarrow> bool" where
  "is_alpha c \<longleftrightarrow> is_ascii_alpha c \<or> code c = 0xAA \<or> code c = 0xB5 \<or> code c = 0xBA
     \<or> 0xC0 \<le> code c \<and> code c \<noteq> 0xD7 \<and> code c \<noteq> 0xF7"

text \<open>\<open>\w\<close> of a regular expression over \<open>str\<close>: letters, numeric characters and the underscore.\<close>

definition is_word_char :: "char \<Rightarrow> bool" where
  "is_word_char c \<longleftrightarrow> is_alpha c \<or> is_digit_char c \<or> 0xBC \<le> code c \<and> code c \<le> 0xBE \<or> code c = 95"

definition lower_char :: "char \<Rightarrow> char" where
  "lower_char c = (if 65 \<le> code c \<and> code c \<le> 90 \<or> 0xC0 \<le> code c \<and> code c \<le> 0xDE \<and> code c \<noteq> 0xD7
     then char_of (code c + 32) else c)"

definition lower :: "string \<Rightarrow> string" where
  "lower s = map lower_char s"

definition str_isdigit :: "string \<Rightarrow> bool" where
  "str_isdigit s \<longleftrightarrow> s \<noteq> [] \<and> list_all is_digit_char s"

subsection \<open>Stripping, splitting, joining\<close>

definition lstrip :: "string \<Rightarrow> string" where
  "lstrip s = dropWhile is_space s"

definition rstrip :: "string \<Rightarrow> string" where
  "rstrip s = rev (dropWhile is_space (rev s))"

definition strip :: "string \<Rightarrow> string" where
  "strip s = rstrip (lstrip s)"

definition strip_char :: "char \<Rightarrow> string \<Rightarrow> string" where
  "strip_char c s = rev (dropWhile (\<lambda>x. x = c) (rev (dropWhile (\<lambda>x. x = c) s)))"

fun words_aux :: "string \<Rightarrow> string \<Rightarrow> string list" where
  "words_aux cur [] = (if cur = [] then [] else [rev cur])"
| "words_aux cur (c # cs) =
     (if is_space c then (if cur = [] then words_aux [] cs else rev cur # words_aux [] cs)
      else words_aux (c # cur) cs)"

definition split_ws :: "string \<Rightarrow> string list" where
  "split_ws s = words_aux [] s"

fun split_aux :: "char \<Rightarrow> string \<Rightarrow> string \<Rightarrow> string list" where
  "split_aux d cur [] = [rev cur]"
| "split_aux d cur (c # cs) =
     (if c = d then rev cur # split_aux d [] cs else split_aux d (c # cur) cs)"

definition split_on :: "char \<Rightarrow> string \<Rightarrow> string list" where
  "split_on d s = split_aux d [] s"

definition is_linebreak :: "char \<Rightarrow> bool" where
  "is_linebreak c \<longleftrightarrow> 10 \<le> code c \<and> code c \<le> 13 \<or> 28 \<le> code c \<and> code c \<le> 30 \<or> code c = 0x85"

text \<open>Lines ended by the characters of \<open>brk\<close>; a carriage return takes a following line feed.\<close>

fun lines_aux :: "(char \<Rightarrow> bool) \<Rightarrow> string \<Rightarrow> string \<Rightarrow> string list" where
  "lines_aux brk cur [] = (if cur = [] then [] else [rev cur])"
| "lines_aux brk cur (c # cs) =
     (if brk c then
        rev cur # lines_aux brk [] (if code c = 13 \<and> cs \<noteq> [] \<and> code (hd cs) = 10 then tl cs else cs)
      else lines_aux brk (c # cur) cs)"

definition splitlines :: "string \<Rightarrow> string list" where
  "splitlines s = lines_aux is_linebreak [] s"

text \<open>Iterating a file opened in text mode: universal newlines, no other line break.\<close>

definition file_lines :: "string \<Rightarrow> string list" where
  "file_lines s = lines_aux (\<lambda>c. code c = 10 \<or> code c = 13) [] s"

fun join :: "string \<Rightarrow> string list \<Rightarrow> string" where
  "join sep [] = []"
| "join sep [x] = x"
| "join sep (x # xs) = x @ sep @ join sep xs"

subsection \<open>Searching\<close>

definition startswith :: "string \<Rightarrow> string \<Rightarrow> bool" where
  "startswith s p \<longleftrightarrow> take (length p) s = p"

fun contains :: "string \<Rightarrow> string \<Rightarrow> bool" where
  "contains sub [] \<longleftrightarrow> sub = []"
| "contains sub (c # cs) \<longleftrightarrow> startswith (c # cs) sub \<or> contains sub cs"

definition partition_at :: "char \<Rightarrow> string \<Rightarrow> string \<times> bool \<times> string" where
  "partition_at d s = (takeWhile (\<lambda>c. c \<noteq> d) s, d \<in> set s, tl (dropWhile (\<lambda>c. c \<noteq> d) s))"

text \<open>\<open>s.rpartition(d)\<close>: split at the last \<open>d\<close>; without one, everything is the third part.\<close>

definition rpartition_at :: "char \<Rightarrow> string \<Rightarrow> string \<times> bool \<times> string" where
  "rpartition_at d s =
     (if d \<in> set s then
        (rev (tl (dropWhile (\<lambda>c. c \<noteq> d) (rev s))), True, rev (takeWhile (\<lambda>c. c \<noteq> d) (rev s)))
      else ([], False, s))"

subsection \<open>Integers and text\<close>

definition digit_char :: "nat \<Rightarrow> char" where
  "digit_char n = char_of (48 + n)"

definition dec_val :: "char \<Rightarrow> nat" where
  "dec_val c = code c - 48"

fun show_nat :: "nat \<Rightarrow> string" where
  "show_nat n = (if n < 10 then [digit_char n] else show_nat (n div 10) @ [digit_char (n mod 10)])"

declare show_nat.simps [simp del]

definition show_int :: "int \<Rightarrow> string" where
  "show_int i = (if i < 0 then CHR ''-'' # show_nat (nat (- i)) else show_nat (nat i))"

text \<open>\<open>int(s)\<close>: surrounding whitespace, a sign, decimal digits with single underscores between
  them. \<open>None\<close> is the \<open>ValueError\<close>.\<close>

fun py_digits :: "nat \<Rightarrow> string \<Rightarrow> nat option" where
  "py_digits acc [] = Some acc"
| "py_digits acc (c # cs) =
     (if is_dec c then py_digits (10 * acc + dec_val c) cs
      else if c = CHR ''_'' then
        (case cs of
           [] \<Rightarrow> None
         | d # ds \<Rightarrow> if is_dec d then py_digits (10 * acc + dec_val d) ds else None)
      else None)"

definition py_nat :: "string \<Rightarrow> nat option" where
  "py_nat s = (case s of [] \<Rightarrow> None | c # cs \<Rightarrow> if is_dec c then py_digits (dec_val c) cs else None)"

definition py_int :: "string \<Rightarrow> int option" where
  "py_int s =
     (case strip s of
        [] \<Rightarrow> None
      | c # cs \<Rightarrow>
          if c = CHR ''-'' then map_option (\<lambda>n. - int n) (py_nat cs)
          else if c = CHR ''+'' then map_option int (py_nat cs)
          else map_option int (py_nat (c # cs)))"

text \<open>\<open>len(s.encode())\<close>: UTF-8 needs two bytes from code point 128 on.\<close>

definition utf8_len :: "string \<Rightarrow> nat" where
  "utf8_len s = sum_list (map (\<lambda>c. if code c < 128 then 1 else 2) s)"

subsection \<open>Facts\<close>

lemma strip_no_space:
  assumes "s \<noteq> []" and "\<not> is_space (hd s)" and "\<not> is_space (last s)"
  shows "strip s = s"
proof -
  have "lstrip s = s" using assms(1,2) by (cases s) (auto simp: lstrip_def)
  moreover have "dropWhile is_space (rev s) = rev s"
    using assms(1,3) by (cases s rule: rev_cases) auto
  ultimately show ?thesis by (simp add: strip_def rstrip_def)
qed

lemma strip_Nil [simp]: "strip [] = []"
  by (simp add: strip_def lstrip_def rstrip_def)

lemma startswith_iff [simp]: "startswith s p \<longleftrightarrow> prefix p s"
  by (metis append_eq_conv_conj prefix_def startswith_def)

lemma contains_iff: "contains sub s \<longleftrightarrow> sublist sub s"
proof (induction s)
  case Nil
  then show ?case by simp
next
  case (Cons c cs)
  then show ?case by (simp add: sublist_Cons_right)
qed

lemma contains_append_left: "contains a s \<Longrightarrow> contains a (t @ s)"
  by (auto simp: contains_iff sublist_def) (metis append_assoc)

lemma contains_appendI: "contains a s \<Longrightarrow> contains a (t @ s @ u)"
  by (auto simp: contains_iff sublist_def) (metis append_assoc)

lemma contains_self_mid [simp]: "contains a (t @ a @ u)"
  by (auto simp: contains_iff sublist_def)

lemma contains_self [simp]: "contains a a"
  by (auto simp: contains_iff)

lemma partition_absent: "d \<notin> set s \<Longrightarrow> partition_at d s = (s, False, [])"
  by (induction s) (auto simp: partition_at_def)

lemma partition_present: "d \<notin> set s \<Longrightarrow> partition_at d (s @ d # t) = (s, True, t)"
  by (induction s) (auto simp: partition_at_def)

lemma rpartition_absent: "d \<notin> set s \<Longrightarrow> rpartition_at d s = ([], False, s)"
  by (simp add: rpartition_at_def)

lemma rpartition_present:
  assumes "d \<notin> set t"
  shows "rpartition_at d (s @ d # t) = (s, True, t)"
proof -
  have "takeWhile (\<lambda>c. c \<noteq> d) (rev t @ d # rev s) = rev t"
    and "dropWhile (\<lambda>c. c \<noteq> d) (rev t @ d # rev s) = d # rev s"
    using assms by (auto simp: takeWhile_append dropWhile_append)
  then show ?thesis by (simp add: rpartition_at_def)
qed

lemma code_digit_char: "n < 10 \<Longrightarrow> code (digit_char n) = 48 + n"
  by (simp add: digit_char_def)

lemma is_dec_digit_char [simp]: "n < 10 \<Longrightarrow> is_dec (digit_char n)"
  by (simp add: is_dec_def code_digit_char)

lemma dec_val_digit_char [simp]: "n < 10 \<Longrightarrow> dec_val (digit_char n) = n"
  by (simp add: dec_val_def code_digit_char)

lemma is_dec_not_space: "is_dec c \<Longrightarrow> \<not> is_space c"
  by (auto simp: is_dec_def is_space_def)

lemma show_nat_dec: "list_all is_dec (show_nat n)"
  by (induction n rule: show_nat.induct) (subst show_nat.simps, simp)

lemma show_nat_ne: "show_nat n \<noteq> []"
  by (subst show_nat.simps) simp

lemma py_digits_append:
  "list_all is_dec xs \<Longrightarrow> py_digits a (xs @ ys) = py_digits (foldl (\<lambda>k c. 10 * k + dec_val c) a xs) ys"
  by (induction xs arbitrary: a) auto

lemma foldl_show_nat: "foldl (\<lambda>k c. 10 * k + dec_val c) 0 (show_nat n) = n"
  by (induction n rule: show_nat.induct) (subst show_nat.simps, simp)

lemma py_nat_show_nat [simp]: "py_nat (show_nat n) = Some n"
proof -
  obtain c cs where s: "show_nat n = c # cs" using show_nat_ne by (cases "show_nat n") auto
  then have d: "is_dec c" "list_all is_dec cs" using show_nat_dec [of n] by auto
  have "py_digits (dec_val c) cs = Some (foldl (\<lambda>k c. 10 * k + dec_val c) (dec_val c) cs)"
    using py_digits_append [OF d(2), of "dec_val c" "[]"] by simp
  also have "foldl (\<lambda>k c. 10 * k + dec_val c) (dec_val c) cs = n"
    using foldl_show_nat [of n] s by simp
  finally show ?thesis by (simp add: py_nat_def s d)
qed

lemma strip_show_nat: "strip (show_nat n) = show_nat n"
proof (rule strip_no_space [OF show_nat_ne])
  have "hd (show_nat n) \<in> set (show_nat n)" "last (show_nat n) \<in> set (show_nat n)"
    using show_nat_ne by auto
  then show "\<not> is_space (hd (show_nat n))" "\<not> is_space (last (show_nat n))"
    using show_nat_dec [of n] is_dec_not_space by (auto simp: list_all_iff)
qed

text \<open>Printing an integer and reading it back gives the integer.\<close>

lemma py_int_show_int [simp]: "py_int (show_int i) = Some i"
proof (cases "i < 0")
  case True
  let ?n = "show_nat (nat (- i))"
  have "last ?n \<in> set ?n" using show_nat_ne by auto
  then have "\<not> is_space (last ?n)"
    using show_nat_dec is_dec_not_space by (fastforce simp: list_all_iff)
  then have "strip (CHR ''-'' # ?n) = CHR ''-'' # ?n"
    by (intro strip_no_space) (auto simp: show_nat_ne is_space_def)
  with True show ?thesis by (simp add: py_int_def show_int_def)
next
  case False
  obtain c cs where s: "show_nat (nat i) = c # cs" using show_nat_ne by (cases "show_nat (nat i)") auto
  then have "is_dec c" using show_nat_dec [of "nat i"] by auto
  then have "c \<noteq> CHR ''-''" "c \<noteq> CHR ''+''" by (auto simp: is_dec_def)
  with False s strip_show_nat [of "nat i"] py_nat_show_nat [of "nat i"] show ?thesis
    by (simp add: py_int_def show_int_def)
qed

lemma show_nat_inj [simp]: "show_nat m = show_nat n \<longleftrightarrow> m = n"
  by (metis option.inject py_nat_show_nat)

lemma show_nat_notin: "\<not> is_dec c \<Longrightarrow> c \<notin> set (show_nat n)"
  using show_nat_dec [of n] by (auto simp: list_all_iff)

end
