(* ===== verification/Models.thy ===== *)
theory Models
  imports Complex_Main Py_Strings
begin

section \<open>Data model (\<open>models.py\<close>, \<open>exceptions.py\<close>)\<close>

text \<open>
  The enums, the Pydantic records and the exception hierarchy. A \<open>datetime\<close> is an \<open>int\<close>
  (a count of seconds); the timestamp \<open>ts\<close> of an audit event is left out because no code reads it.
  Replies of the tools and the \<open>detail\<close> of an audit event are JSON dictionaries; the free-text
  \<open>message\<close> entry of a reply is left out.
\<close>

subsection \<open>Enums\<close>

datatype auth_type = AT_agent | AT_key | AT_password | AT_cert | AT_sk
  | AT_keyboard_interactive | AT_gssapi

datatype host_key_policy = HK_tofu | HK_strict | HK_accept_new

datatype connection_status = CS_connected | CS_disconnected | CS_connecting

datatype process_status = PS_running | PS_exited | PS_killed | PS_unknown

datatype proxy_type = PT_local | PT_socks5

text \<open>\<open>.value\<close> of an enum member, and the enum's constructor from a string.\<close>

fun auth_value :: "auth_type \<Rightarrow> string" where
  "auth_value AT_agent = ''agent''"
| "auth_value AT_key = ''key''"
| "auth_value AT_password = ''password''"
| "auth_value AT_cert = ''cert''"
| "auth_value AT_sk = ''sk''"
| "auth_value AT_keyboard_interactive = ''keyboard_interactive''"
| "auth_value AT_gssapi = ''gssapi''"

definition AuthType :: "string \<Rightarrow> auth_type option" where
  "AuthType s = find (\<lambda>a. auth_value a = s)
     [AT_agent, AT_key, AT_password, AT_cert, AT_sk, AT_keyboard_interactive, AT_gssapi]"

fun policy_value :: "host_key_policy \<Rightarrow> string" where
  "policy_value HK_tofu = ''tofu''"
| "policy_value HK_strict = ''strict''"
| "policy_value HK_accept_new = ''accept_new''"

definition HostKeyPolicy :: "string \<Rightarrow> host_key_policy option" where
  "HostKeyPolicy s = find (\<lambda>p. policy_value p = s) [HK_tofu, HK_strict, HK_accept_new]"

fun conn_status_value :: "connection_status \<Rightarrow> string" where
  "conn_status_value CS_connected = ''connected''"
| "conn_status_value CS_disconnected = ''disconnected''"
| "conn_status_value CS_connecting = ''connecting''"

fun process_status_value :: "process_status \<Rightarrow> string" where
  "process_status_value PS_running = ''running''"
| "process_status_value PS_exited = ''exited''"
| "process_status_value PS_killed = ''killed''"
| "process_status_value PS_unknown = ''unknown''"

fun proxy_type_value :: "proxy_type \<Rightarrow> string" where
  "proxy_type_value PT_local = ''local''"
| "proxy_type_value PT_socks5 = ''socks5''"

definition ProxyType :: "string \<Rightarrow> proxy_type option" where
  "ProxyType s = find (\<lambda>p. proxy_type_value p = s) [PT_local, PT_socks5]"

lemma AuthType_value [simp]: "AuthType (auth_value a) = Some a"
  by (cases a) (simp_all add: AuthType_def)

lemma HostKeyPolicy_value [simp]: "HostKeyPolicy (policy_value p) = Some p"
  by (cases p) (simp_all add: HostKeyPolicy_def)

lemma ProxyType_value [simp]: "ProxyType (proxy_type_value p) = Some p"
  by (cases p) (simp_all add: ProxyType_def)

lemma ProxyType_SomeD: "ProxyType s = Some p \<Longrightarrow> proxy_type_value p = s"
  by (auto simp: ProxyType_def split: if_splits)

subsection \<open>JSON values\<close>

datatype json = JNull | JBool bool | JInt int | JFloat real | JStr string
  | JArr "json list" | JObj "(string \<times> json) list"

type_synonym json_obj = "(string \<times> json) list"
type_synonym reply = "(string \<times> json) list"

definition JOptStr :: "string option \<Rightarrow> json" where
  "JOptStr x = (case x of None \<Rightarrow> JNull | Some s \<Rightarrow> JStr s)"

definition JOptInt :: "int option \<Rightarrow> json" where
  "JOptInt x = (case x of None \<Rightarrow> JNull | Some i \<Rightarrow> JInt i)"

abbreviation JStrs :: "string list \<Rightarrow> json" where
  "JStrs xs \<equiv> JArr (map JStr xs)"

text \<open>The structured error reply \<open>{"error": code, \<dots>}\<close>.\<close>

definition err_reply :: "string \<Rightarrow> json_obj \<Rightarrow> reply" where
  "err_reply c fields = (''error'', JStr c) # fields"

definition is_error :: "reply \<Rightarrow> bool" where
  "is_error r \<longleftrightarrow> dict_has ''error'' r"

definition error_code :: "reply \<Rightarrow> string option" where
  "error_code r = (case map_of r ''error'' of Some (JStr c) \<Rightarrow> Some c | _ \<Rightarrow> None)"

lemma is_error_err_reply [simp]: "is_error (err_reply c f)"
  by (simp add: is_error_def err_reply_def)

lemma error_code_err_reply [simp]: "error_code (err_reply c f) = Some c"
  by (simp add: error_code_def err_reply_def)

subsection \<open>Exceptions\<close>

text \<open>
  The classes of \<open>exceptions.py\<close>, then the built-in and asyncssh exceptions the code's
  \<open>except\<close> clauses tell apart. \<open>PyTimeoutError\<close> is a subclass of \<open>OSError\<close>.
\<close>

datatype py_exn =
    McpSshError
  | ServerNotFound
  | ServerAlreadyExists
  | SshConnectionError
  | AuthError
  | HostKeyError
  | SessionNotFound
  | SessionCapExceeded
  | ProcessNotFound
  | ProxyNotFound
  | TmuxNotAvailable
  | RemoteCommandError
  | PyOSError
  | PyTimeoutError
  | PyValueError
  | PyIndexError
  | PyAttributeError
  | PyNotImplementedError
  | PyRecursionError
  | AsyncsshDisconnectError
  | AsyncsshChannelOpenError int
  | AsyncsshSFTPError
  | AsyncsshError
  | PyException

fun is_McpSshError :: "py_exn \<Rightarrow> bool" where
  "is_McpSshError e \<longleftrightarrow> e \<in> {McpSshError, ServerNotFound, ServerAlreadyExists, SshConnectionError,
     AuthError, HostKeyError, SessionNotFound, SessionCapExceeded, ProcessNotFound, ProxyNotFound,
     TmuxNotAvailable, RemoteCommandError}"

fun is_OSError :: "py_exn \<Rightarrow> bool" where
  "is_OSError e \<longleftrightarrow> e \<in> {PyOSError, PyTimeoutError}"

fun is_asyncssh_Error :: "py_exn \<Rightarrow> bool" where
  "is_asyncssh_Error e \<longleftrightarrow> e \<in> {AsyncsshDisconnectError, AsyncsshSFTPError, AsyncsshError}
     \<or> (case e of AsyncsshChannelOpenError _ \<Rightarrow> True | _ \<Rightarrow> False)"

type_synonym 'a result = "py_exn + 'a"

text \<open>Sequencing of operations that change a state and may raise: an exception skips the rest.\<close>

fun bindR :: "'s \<times> 'a result \<Rightarrow> ('a \<Rightarrow> 's \<Rightarrow> 's \<times> 'b result) \<Rightarrow> 's \<times> 'b result" where
  "bindR (s, Inl e) k = (s, Inl e)"
| "bindR (s, Inr x) k = k x s"

lemma bindR_split:
  "P (bindR p k) \<longleftrightarrow> (\<forall>s e. p = (s, Inl e) \<longrightarrow> P (s, Inl e)) \<and> (\<forall>s x. p = (s, Inr x) \<longrightarrow> P (k x s))"
  by (cases p; cases "snd p") auto

lemma bindR_InrE:
  assumes "bindR p k = (s', Inr y)"
  obtains s x where "p = (s, Inr x)" "k x s = (s', Inr y)"
  using assms by (cases p; cases "snd p") auto

text \<open>An invariant that both parts keep is kept by the sequence.\<close>

lemma bindR_keeps [inv_intros]:
  assumes "Q (fst p)" and "\<And>s x. p = (s, Inr x) \<Longrightarrow> Q s \<Longrightarrow> Q (fst (k x s))"
  shows "Q (fst (bindR p k))"
  using assms by (cases p; cases "snd p") auto

lemma bindR_pair: "bindR (s, r) k = (case r of Inl e \<Rightarrow> (s, Inl e) | Inr x \<Rightarrow> k x s)"
  by (cases r) simp_all

lemma bindR_same:
  assumes "f (fst p) = a" and "\<And>s x. p = (s, Inr x) \<Longrightarrow> f s = a \<Longrightarrow> f (fst (k x s)) = a"
  shows "f (fst (bindR p k)) = a"
  using assms by (cases p; cases "snd p") auto

subsection \<open>Records\<close>

record server_config =
  sc_name :: string
  sc_host :: string
  sc_port :: int
  sc_user :: string
  sc_auth_type :: auth_type
  sc_key_path :: "string option"
  sc_cert_path :: "string option"
  sc_password_env :: "string option"
  sc_jump_host :: "string option"
  sc_host_key_policy :: "host_key_policy option"
  sc_default_cwd :: "string option"
  sc_default_env :: "(string, string) dict"
  sc_max_sessions :: "int option"
  sc_keepalive_interval :: "int option"
  sc_note :: "string option"

text \<open>\<open>ServerConfig(name=\<dots>, host=\<dots>, user=\<dots>, auth_type=\<dots>)\<close> with the class's defaults.\<close>

definition ServerConfig :: "string \<Rightarrow> string \<Rightarrow> string \<Rightarrow> auth_type \<Rightarrow> server_config" where
  "ServerConfig name host user auth =
     \<lparr>sc_name = name, sc_host = host, sc_port = 22, sc_user = user, sc_auth_type = auth,
      sc_key_path = None, sc_cert_path = None, sc_password_env = None, sc_jump_host = None,
      sc_host_key_policy = None, sc_default_cwd = None, sc_default_env = [],
      sc_max_sessions = None, sc_keepalive_interval = None, sc_note = None\<rparr>"

record global_settings =
  gs_known_hosts_file :: string
  gs_default_host_key_policy :: host_key_policy
  gs_audit_log :: string
  gs_state_file :: string
  gs_max_sessions :: int
  gs_keepalive_interval :: int
  gs_keepalive_count_max :: int
  gs_connect_timeout :: int
  gs_default_encoding :: string

definition GlobalSettings :: global_settings where
  "GlobalSettings =
     \<lparr>gs_known_hosts_file = ''~/.local/share/mcp-ssh/known_hosts'',
      gs_default_host_key_policy = HK_tofu,
      gs_audit_log = ''~/.local/share/mcp-ssh/audit.jsonl'',
      gs_state_file = ''~/.local/share/mcp-ssh/state.json'',
      gs_max_sessions = 10, gs_keepalive_interval = 30, gs_keepalive_count_max = 5,
      gs_connect_timeout = 15, gs_default_encoding = ''utf-8''\<rparr>"

record process_record =
  pr_id :: string
  pr_server :: string
  pr_command :: string
  pr_remote_pid :: int
  pr_log_file :: string
  pr_exit_file :: string
  pr_started_at :: int
  pr_last_checked :: "int option"
  pr_status :: process_status
  pr_exit_code :: "int option"

record session_record =
  sr_id :: string
  sr_server :: string
  sr_command :: "string option"
  sr_use_tmux :: bool
  sr_tmux_window :: "string option"
  sr_started_at :: int
  sr_last_checked :: "int option"
  sr_status :: process_status

record proxy_record =
  px_id :: string
  px_server :: string
  px_type :: proxy_type
  px_local_host :: string
  px_local_port :: int
  px_remote_host :: "string option"
  px_remote_port :: "int option"
  px_started_at :: int
  px_status :: string

record process_output =
  po_output :: string
  po_running :: bool
  po_exit_code :: "int option"
  po_remote_pid :: int
  po_server :: string

record pty_output =
  pt_output :: string
  pt_alive :: bool

record audit_event =
  ae_tool :: string
  ae_server :: "string option"
  ae_command :: "string option"
  ae_process_id :: "string option"
  ae_session_id :: "string option"
  ae_proxy_id :: "string option"
  ae_outcome :: string
  ae_detail :: json_obj

definition AuditEvent :: "string \<Rightarrow> string \<Rightarrow> json_obj \<Rightarrow> audit_event" where
  "AuditEvent tool outcome detail =
     \<lparr>ae_tool = tool, ae_server = None, ae_command = None, ae_process_id = None,
      ae_session_id = None, ae_proxy_id = None, ae_outcome = outcome, ae_detail = detail\<rparr>"

record app_config =
  ac_settings :: global_settings
  ac_servers :: "(string, server_config) dict"

definition AppConfig :: app_config where
  "AppConfig = \<lparr>ac_settings = GlobalSettings, ac_servers = []\<rparr>"

lemma ServerConfig_sel [simp]:
  "sc_name (ServerConfig n h u a) = n" "sc_host (ServerConfig n h u a) = h"
  "sc_port (ServerConfig n h u a) = 22" "sc_user (ServerConfig n h u a) = u"
  "sc_auth_type (ServerConfig n h u a) = a" "sc_jump_host (ServerConfig n h u a) = None"
  "sc_note (ServerConfig n h u a) = None" "sc_key_path (ServerConfig n h u a) = None"
  "sc_host_key_policy (ServerConfig n h u a) = None"
  by (simp_all add: ServerConfig_def)

end
