(* ===== verification/Atomic_File.thy ===== *)
theory Atomic_File
  imports Models
begin

section \<open>Atomic file replacement (\<open>Registry._write_config\<close>, \<open>StateStore._persist\<close>)\<close>

text \<open>
  Both persistent stores write the whole text to a sibling file with the suffix \<open>.tmp\<close> and then
  call \<open>os.replace\<close>. The file system is a partial map from paths to contents. The environment
  decides where the sequence \<open>mkdir\<close>, \<open>write_text\<close>, \<open>os.replace\<close> stops; a failed
  \<open>write_text\<close> may leave any text in the temporary file.
\<close>

type_synonym fs = "string \<rightharpoonup> string"

datatype write_fate = W_ok | W_mkdir_fails | W_tmp_fails string | W_replace_fails

text \<open>\<open>Path.with_suffix(".tmp")\<close> on the last component of the path.\<close>

definition path_suffix_start :: "string \<Rightarrow> nat option" where
  "path_suffix_start nm =
     (let (stem, found, ext) = rpartition_at (CHR ''.'') nm
      in if found \<and> stem \<noteq> [] \<and> ext \<noteq> [] then Some (length stem) else None)"

definition with_suffix_tmp :: "string \<Rightarrow> string" where
  "with_suffix_tmp p =
     (let (dir, found, nm) = rpartition_at (CHR ''/'') p;
          base = (case path_suffix_start nm of None \<Rightarrow> nm | Some i \<Rightarrow> take i nm)
      in (if found then dir @ ''/'' else []) @ base @ ''.tmp'')"

fun atomic_write :: "write_fate \<Rightarrow> string \<Rightarrow> string \<Rightarrow> fs \<Rightarrow> fs \<times> bool" where
  "atomic_write W_ok path text fs =
     (((fs(with_suffix_tmp path \<mapsto> text))(with_suffix_tmp path := None))(path \<mapsto> text), True)"
| "atomic_write W_mkdir_fails path text fs = (fs, False)"
| "atomic_write (W_tmp_fails part) path text fs = (fs(with_suffix_tmp path \<mapsto> part), False)"
| "atomic_write W_replace_fails path text fs = (fs(with_suffix_tmp path \<mapsto> text), False)"

lemma rpartition_join:
  "rpartition_at d s = (a, f, b) \<Longrightarrow> s = (if f then a @ d # b else b)"
proof -
  assume h: "rpartition_at d s = (a, f, b)"
  show ?thesis
  proof (cases "d \<in> set s")
    case True
    obtain xs ys where s: "s = xs @ d # ys" "d \<notin> set ys"
      using split_list_last [OF True] by blast
    from h rpartition_present [OF s(2), of xs] s(1) show ?thesis by simp
  next
    case False
    with h show ?thesis by (simp add: rpartition_at_def)
  qed
qed

text \<open>The temporary file is another file, unless the path itself ends in \<open>.tmp\<close>.\<close>

lemma with_suffix_tmp_neq:
  assumes "\<not> suffix ''.tmp'' p"
  shows "with_suffix_tmp p \<noteq> p"
  using assms by (auto simp: with_suffix_tmp_def suffix_def Let_def split: prod.splits)

text \<open>The target holds its old content or the whole new one, and the new one iff the call succeeds.\<close>

lemma atomic_write_target:
  assumes "\<not> suffix ''.tmp'' p" and "atomic_write w p text fs = (fs', ok)"
  shows "fs' p = (if ok then Some text else fs p)"
  using assms(2) with_suffix_tmp_neq [OF assms(1)]
  by (cases w) auto

lemma atomic_write_other:
  assumes "atomic_write w p text fs = (fs', ok)" and "q \<noteq> p" and "q \<noteq> with_suffix_tmp p"
  shows "fs' q = fs q"
  using assms by (cases w) auto

lemma atomic_write_ok: "snd (atomic_write w p text fs) \<longleftrightarrow> w = W_ok"
  by (cases w) auto

end
