(* ===== verification/Config.thy ===== *)
theory Config
  imports Models
begin

section \<open>Configuration (\<open>config.py\<close>)\<close>

text \<open>
  Loading, validating and printing \<open>servers.toml\<close>. The TOML parser and the Pydantic validation
  are parameters (\<open>toml_read\<close> is what reading the file gave, \<open>validate\<close> what
  \<open>AppConfig.model_validate\<close> makes of it), as is \<open>expand\<close>, which stands for \<open>_expand_path\<close>:
  it depends on the process environment and the user database.
\<close>

subsection \<open>Path expansion\<close>

definition expand_paths_in_server :: "(string \<Rightarrow> string) \<Rightarrow> server_config \<Rightarrow> server_config" where
  "expand_paths_in_server expand server =
     server\<lparr>sc_key_path := map_option expand (sc_key_path server),
            sc_cert_path := map_option expand (sc_cert_path server),
            sc_default_cwd := map_option expand (sc_default_cwd server)\<rparr>"

definition expand_paths_in_settings :: "(string \<Rightarrow> string) \<Rightarrow> global_settings \<Rightarrow> global_settings" where
  "expand_paths_in_settings expand settings =
     settings\<lparr>gs_known_hosts_file := expand (gs_known_hosts_file settings),
              gs_audit_log := expand (gs_audit_log settings),
              gs_state_file := expand (gs_state_file settings)\<rparr>"

subsection \<open>Circular jump hosts\<close>

text \<open>The loop of \<open>_has_cycle\<close>: \<open>visited\<close> grows by a server name in every round that goes on.\<close>

function has_cycle :: "(string, server_config) dict \<Rightarrow> string list \<Rightarrow> string \<Rightarrow> bool" where
  "has_cycle servers visited current =
     (if current \<in> set visited then True
      else
        (case map_of servers current of
           None \<Rightarrow> False
         | Some cfg \<Rightarrow>
             (case sc_jump_host cfg of
                None \<Rightarrow> False
              | Some nxt \<Rightarrow> has_cycle servers (current # visited) nxt)))"
  by pat_completeness auto
termination
proof (relation "measure (\<lambda>(servers, visited, current). card (fst ` set servers - set visited))",
    goal_cases)
  case (2 servers visited current cfg nxt)
  have "current \<in> fst ` set servers - set visited"
    using 2 by (force dest: map_of_SomeD)
  then have "fst ` set servers - set (current # visited) \<subset> fst ` set servers - set visited"
    by auto
  then show ?case by (simp add: psubset_card_mono)
qed simp

declare has_cycle.simps [simp del]

definition detect_circular_jumps :: "(string, server_config) dict \<Rightarrow> unit result" where
  "detect_circular_jumps servers =
     (if list_ex (\<lambda>p. has_cycle servers [] (fst p)) servers then Inl McpSshError else Inr ())"

text \<open>The jump-host function of a table of servers, followed by the chains of the prelude.\<close>

definition jump_of :: "(string, server_config) dict \<Rightarrow> string \<Rightarrow> string option" where
  "jump_of servers n = Option.bind (map_of servers n) sc_jump_host"

lemma jump_of_simps:
  "map_of servers n = None \<Longrightarrow> jump_of servers n = None"
  "map_of servers n = Some cfg \<Longrightarrow> jump_of servers n = sc_jump_host cfg"
  by (simp_all add: jump_of_def)

subsection \<open>Loading\<close>

datatype 'raw toml_read = TR_oserror | TR_decode_error | TR_unicode_error | TR_ok 'raw

definition load_config ::
    "('raw \<Rightarrow> app_config option) \<Rightarrow> (string \<Rightarrow> string) \<Rightarrow> 'raw toml_read \<Rightarrow> app_config result" where
  "load_config validate expand raw =
     (case raw of
        TR_oserror \<Rightarrow> Inl McpSshError
      | TR_decode_error \<Rightarrow> Inl McpSshError
      | TR_unicode_error \<Rightarrow> Inl PyValueError
      | TR_ok r \<Rightarrow>
          (case validate r of
             None \<Rightarrow> Inl McpSshError
           | Some cfg0 \<Rightarrow>
               let cfg = cfg0\<lparr>ac_settings := expand_paths_in_settings expand (ac_settings cfg0),
                              ac_servers := map (\<lambda>(n, s). (n, expand_paths_in_server expand s))
                                              (ac_servers cfg0)\<rparr>
               in (case detect_circular_jumps (ac_servers cfg) of
                     Inl e \<Rightarrow> Inl e
                   | Inr _ \<Rightarrow> Inr cfg)))"

definition resolve_config_path ::
    "(string \<rightharpoonup> string) \<Rightarrow> string \<Rightarrow> string \<Rightarrow> string option \<Rightarrow> string" where
  "resolve_config_path environ home env_var cli_arg =
     (case environ env_var of
        Some (c # cs) \<Rightarrow> c # cs
      | _ \<Rightarrow>
          (case cli_arg of
             Some p \<Rightarrow> p
           | None \<Rightarrow>
               (case environ ''XDG_CONFIG_HOME'' of
                  Some (c # cs) \<Rightarrow> (c # cs) @ ''/mcp-ssh/servers.toml''
                | _ \<Rightarrow> home @ ''/.config/mcp-ssh/servers.toml'')))"

subsection \<open>Printing\<close>

definition dq :: char where
  "dq = CHR 0x22"

definition nl :: char where
  "nl = CHR 0x0A"

definition toml_str :: "string \<Rightarrow> string \<Rightarrow> string" where
  "toml_str k v = k @ '' = '' @ [dq] @ v @ [dq]"

definition toml_int :: "string \<Rightarrow> int \<Rightarrow> string" where
  "toml_int k v = k @ '' = '' @ show_int v"

definition toml_opt :: "('a \<Rightarrow> string) \<Rightarrow> 'a option \<Rightarrow> string list" where
  "toml_opt f v = (case v of None \<Rightarrow> [] | Some x \<Rightarrow> [f x])"

definition settings_lines :: "global_settings \<Rightarrow> string list" where
  "settings_lines s =
     [''[settings]'',
      toml_str ''known_hosts_file'' (gs_known_hosts_file s),
      toml_str ''default_host_key_policy'' (policy_value (gs_default_host_key_policy s)),
      toml_str ''audit_log'' (gs_audit_log s),
      toml_str ''state_file'' (gs_state_file s),
      toml_int ''max_sessions'' (gs_max_sessions s),
      toml_int ''keepalive_interval'' (gs_keepalive_interval s),
      toml_int ''keepalive_count_max'' (gs_keepalive_count_max s),
      toml_int ''connect_timeout'' (gs_connect_timeout s),
      toml_str ''default_encoding'' (gs_default_encoding s),
      []]"

definition server_lines :: "string \<Rightarrow> server_config \<Rightarrow> string list" where
  "server_lines name srv =
     [''[servers.'' @ name @ '']'',
      toml_str ''name'' (sc_name srv),
      toml_str ''host'' (sc_host srv),
      toml_int ''port'' (sc_port srv),
      toml_str ''user'' (sc_user srv),
      toml_str ''auth_type'' (auth_value (sc_auth_type srv))]
     @ toml_opt (toml_str ''key_path'') (sc_key_path srv)
     @ toml_opt (toml_str ''cert_path'') (sc_cert_path srv)
     @ toml_opt (toml_str ''password_env'') (sc_password_env srv)
     @ toml_opt (toml_str ''jump_host'') (sc_jump_host srv)
     @ toml_opt (\<lambda>p. toml_str ''host_key_policy'' (policy_value p)) (sc_host_key_policy srv)
     @ toml_opt (toml_str ''default_cwd'') (sc_default_cwd srv)
     @ (if sc_default_env srv = [] then []
        else [''default_env = { ''
                @ join '', '' (map (\<lambda>(k, v). toml_str k v) (sc_default_env srv)) @ '' }''])
     @ toml_opt (toml_int ''max_sessions'') (sc_max_sessions srv)
     @ toml_opt (toml_int ''keepalive_interval'') (sc_keepalive_interval srv)
     @ toml_opt (toml_str ''note'') (sc_note srv)
     @ [[]]"

definition app_config_to_toml :: "app_config \<Rightarrow> string" where
  "app_config_to_toml cfg =
     join [nl] (settings_lines (ac_settings cfg)
       @ concat (map (\<lambda>(n, s). server_lines n s) (ac_servers cfg)))"

subsection \<open>The cycle check is exact\<close>

lemma periodic_never_ends:
  assumes "chain_at f a (Suc k) = Some a"
  shows "chain_at f a n \<noteq> None"
proof -
  have per: "chain_at f a (m * Suc k) = Some a" for m
  proof (induction m)
    case (Suc m)
    have "chain_at f a (Suc m * Suc k) = chain_at f a (m * Suc k + Suc k)"
      by (simp add: algebra_simps)
    also have "\<dots> = Some a" using Suc assms by (simp only: chain_at_add bind.bind_lunit)
    finally show ?case .
  qed simp
  have "n \<le> n * Suc k" by simp
  with per [of n] chain_at_mono_None [of f a n "n * Suc k"] show ?thesis by auto
qed

lemma has_cycle_False_ends:
  "\<not> has_cycle servers visited cur
     \<Longrightarrow> chain_ends (jump_of servers) cur (card (fst ` set servers - set visited))"
proof (induction servers visited cur rule: has_cycle.induct)
  case (1 servers visited cur)
  let ?k = "card (fst ` set servers - set visited)"
  have nv: "cur \<notin> set visited" using "1.prems" by (subst (asm) has_cycle.simps) auto
  show ?case
  proof (cases "jump_of servers cur")
    case None
    then have "chain_ends (jump_of servers) cur 0" by simp
    then show ?thesis by (rule chain_ends_mono) simp
  next
    case (Some nxt)
    then obtain cfg where cfg: "map_of servers cur = Some cfg" "sc_jump_host cfg = Some nxt"
      by (auto simp: jump_of_def bind_eq_Some_conv)
    let ?j = "card (fst ` set servers - set (cur # visited))"
    have "\<not> has_cycle servers (cur # visited) nxt"
      using "1.prems" nv cfg by (subst (asm) has_cycle.simps) auto
    from "1.IH" [OF nv cfg this] have ends: "chain_ends (jump_of servers) nxt ?j" .
    have "cur \<in> fst ` set servers - set visited" using cfg(1) nv by (force dest: map_of_SomeD)
    then have "?j < ?k" by (intro psubset_card_mono) auto
    then have "chain_ends (jump_of servers) cur (Suc ?j)" using ends Some by simp
    then show ?thesis by (rule chain_ends_mono) (use \<open>?j < ?k\<close> in simp)
  qed
qed

lemma has_cycle_True_never_ends:
  assumes "has_cycle servers visited cur"
    and "\<forall>v \<in> set visited. \<exists>k. chain_at (jump_of servers) v (Suc k) = Some cur"
  shows "chain_at (jump_of servers) cur n \<noteq> None"
  using assms
proof (induction servers visited cur arbitrary: n rule: has_cycle.induct)
  case (1 servers visited cur)
  let ?f = "jump_of servers"
  show ?case
  proof (cases "cur \<in> set visited")
    case True
    with "1.prems"(2) obtain k where "chain_at ?f cur (Suc k) = Some cur" by blast
    then show ?thesis by (rule periodic_never_ends)
  next
    case False
    with "1.prems"(1) obtain cfg nxt where
      cfg: "map_of servers cur = Some cfg" "sc_jump_host cfg = Some nxt"
      and rec: "has_cycle servers (cur # visited) nxt"
      by (subst (asm) has_cycle.simps) (auto split: option.splits)
    from cfg have step: "?f cur = Some nxt" by (simp add: jump_of_def)
    have "\<exists>k. chain_at ?f v (Suc k) = Some nxt" if "v \<in> set (cur # visited)" for v
    proof (cases "v = cur")
      case True
      with step show ?thesis by (intro exI [of _ 0]) simp
    next
      case False
      with that "1.prems"(2) obtain k where "chain_at ?f v (Suc k) = Some cur" by auto
      with step have "chain_at ?f v (Suc (Suc k)) = Some nxt"
        by (subst chain_at_Suc_last) simp
      then show ?thesis by blast
    qed
    then have "chain_at ?f nxt m \<noteq> None" for m
      using "1.IH" [OF False cfg rec] by blast
    with step show ?thesis by (cases n) auto
  qed
qed

text \<open>\<open>_has_cycle(start)\<close> is \<open>False\<close> exactly when following jump hosts from \<open>start\<close> stops.\<close>

lemma has_cycle_iff:
  "\<not> has_cycle servers [] start \<longleftrightarrow> (\<exists>n. chain_ends (jump_of servers) start n)"
proof
  show "\<exists>n. chain_ends (jump_of servers) start n" if "\<not> has_cycle servers [] start"
    using has_cycle_False_ends [OF that] by blast
next
  assume "\<exists>n. chain_ends (jump_of servers) start n"
  then obtain n where "chain_at (jump_of servers) start (Suc n) = None"
    unfolding chain_ends_iff by blast
  then show "\<not> has_cycle servers [] start"
    using has_cycle_True_never_ends [of servers "[]" start "Suc n"] by auto
qed

lemma detect_circular_jumps_ok:
  "detect_circular_jumps servers = Inr () \<longleftrightarrow>
     (\<forall>n \<in> fst ` set servers. chain_ends (jump_of servers) n (length servers))"
proof -
  have "chain_ends (jump_of servers) n (length servers)" if "\<not> has_cycle servers [] n" for n
  proof -
    have "card (fst ` set servers) \<le> length servers"
      by (metis card_length image_set length_map)
    with has_cycle_False_ends [OF that] show ?thesis by (auto intro: chain_ends_mono)
  qed
  then have "chain_ends (jump_of servers) n (length servers) \<longleftrightarrow> \<not> has_cycle servers [] n" for n
    using has_cycle_iff by blast
  then show ?thesis
    by (auto simp: detect_circular_jumps_def list_ex_iff)
qed

lemma load_config_ok_iff:
  "load_config validate expand raw = Inr cfg \<longleftrightarrow>
     (\<exists>r cfg0. raw = TR_ok r \<and> validate r = Some cfg0 \<and>
        cfg = cfg0\<lparr>ac_settings := expand_paths_in_settings expand (ac_settings cfg0),
                   ac_servers := map (\<lambda>(n, s). (n, expand_paths_in_server expand s)) (ac_servers cfg0)\<rparr>
        \<and> detect_circular_jumps (ac_servers cfg) = Inr ())"
  by (auto simp: load_config_def Let_def split: toml_read.splits option.splits sum.splits)

subsection \<open>Properties\<close>

text \<open>C5: \<open>_detect_circular_jumps\<close> is exact: it raises exactly when following \<open>jump_host\<close> from
  some server never stops, whether that server is on the cycle or only leads to it, and unknown
  jump hosts are no error.\<close>

theorem detect_circular_jumps_exact:
  "detect_circular_jumps servers =
     (if \<exists>n. \<forall>k. chain_at (jump_of servers) n k \<noteq> None then Inl McpSshError else Inr ())"
proof -
  have out: "chain_at (jump_of servers) n (Suc 0) = None" if "n \<notin> fst ` set servers" for n
    using that by (simp add: jump_of_def map_of_eq_None_iff [symmetric])
  have "list_ex (\<lambda>p. has_cycle servers [] (fst p)) servers
      \<longleftrightarrow> (\<exists>n. \<forall>k. chain_at (jump_of servers) n k \<noteq> None)" (is "?L \<longleftrightarrow> ?R")
  proof
    assume ?L
    then obtain n where "has_cycle servers [] n" by (auto simp: list_ex_iff)
    then have "\<forall>k. chain_at (jump_of servers) n k \<noteq> None"
      using has_cycle_True_never_ends [of servers "[]" n] by simp
    then show ?R by blast
  next
    assume ?R
    then obtain n where n: "\<forall>k. chain_at (jump_of servers) n k \<noteq> None" by blast
    then have mem: "n \<in> fst ` set servers" using out by metis
    have "\<not> (\<exists>m. chain_ends (jump_of servers) n m)"
      using n unfolding chain_ends_iff by blast
    then have "has_cycle servers [] n" using has_cycle_iff by blast
    with mem show ?L by (auto simp: list_ex_iff)
  qed
  then show ?thesis by (simp add: detect_circular_jumps_def)
qed

text \<open>C6: In every configuration \<open>load_config\<close> returns, following jump hosts from any name stops
  after at most as many links as there are servers; the paths are the expanded ones.\<close>

theorem load_config_acyclic:
  assumes "load_config validate expand raw = Inr cfg"
  shows "chain_ends (jump_of (ac_servers cfg)) n (length (ac_servers cfg))
    \<and> (\<exists>cfg0 :: app_config. ac_servers cfg = map (\<lambda>(n, s). (n, expand_paths_in_server expand s)) (ac_servers cfg0)
        \<and> ac_settings cfg = expand_paths_in_settings expand (ac_settings cfg0))"
proof -
  from assms obtain cfg0 where
    cfg: "cfg = cfg0\<lparr>ac_settings := expand_paths_in_settings expand (ac_settings cfg0),
        ac_servers := map (\<lambda>(n, s). (n, expand_paths_in_server expand s)) (ac_servers cfg0)\<rparr>"
    and d: "detect_circular_jumps (ac_servers cfg) = Inr ()"
    unfolding load_config_ok_iff by blast
  have c: "ac_servers cfg = map (\<lambda>(n, s). (n, expand_paths_in_server expand s)) (ac_servers cfg0)
      \<and> ac_settings cfg = expand_paths_in_settings expand (ac_settings cfg0)"
    unfolding cfg by simp
  have "chain_ends (jump_of (ac_servers cfg)) n (length (ac_servers cfg))"
  proof (cases "n \<in> fst ` set (ac_servers cfg)")
    case True
    with d show ?thesis by (simp only: detect_circular_jumps_ok)
  next
    case False
    then have "chain_ends (jump_of (ac_servers cfg)) n 0"
      by (simp add: jump_of_def map_of_eq_None_iff [symmetric])
    then show ?thesis by (rule chain_ends_mono) simp
  qed
  with c show ?thesis by blast
qed

definition example_config :: app_config where
  "example_config = \<lparr>ac_settings = GlobalSettings, ac_servers =
     [(''a'', (ServerConfig ''a'' ''h1'' ''root'' AT_key)\<lparr>sc_jump_host := Some ''b''\<rparr>),
      (''b'', ServerConfig ''b'' ''h2'' ''root'' AT_agent)]\<rparr>"

lemma load_config_acyclic_witness:
  "chain_ends (jump_of (ac_servers example_config)) ''a'' 2"
proof -
  have "load_config Some (\<lambda>p. p) (TR_ok example_config) = Inr example_config" by code_simp
  moreover have "length (ac_servers example_config) = 2" by (simp add: example_config_def)
  ultimately show ?thesis using load_config_acyclic [of Some "\<lambda>p. p" _ example_config "''a''"] by metis
qed

subsection \<open>The writer does not escape\<close>

lemma join_Cons: "join sep (x # xs) = x @ (if xs = [] then [] else sep @ join sep xs)"
  by (cases xs) simp_all

lemma join_glued: "join sep (xs @ (a @ sep @ b) # ys) = join sep (xs @ a # b # ys)"
  by (induction xs) (auto simp: join_Cons)

text \<open>A value with a quote and a line break runs into the next line: whatever \<open>k\<close> and \<open>c\<close> are, a server with
  a key and a certificate is written in the same way as one without a certificate whose key path holds both. No
  parser can tell the two apart, so that the text does not round-trip.\<close>

theorem toml_text_ambiguous:
  "app_config_to_toml (cfg\<lparr>ac_servers := pre @ (n, srv\<lparr>sc_key_path := Some (k @ [dq, nl] @ ''cert_path = '' @ [dq] @ c),
       sc_cert_path := None\<rparr>) # post\<rparr>)
     = app_config_to_toml (cfg\<lparr>ac_servers := pre @ (n, srv\<lparr>sc_key_path := Some k, sc_cert_path := Some c\<rparr>) # post\<rparr>)"
proof -
  have t: "toml_str ''key_path'' (k @ [dq, nl] @ ''cert_path = '' @ [dq] @ c)
      = toml_str ''key_path'' k @ [nl] @ toml_str ''cert_path'' c"
    by (simp add: toml_str_def)
  let ?one = "srv\<lparr>sc_key_path := Some (k @ [dq, nl] @ ''cert_path = '' @ [dq] @ c), sc_cert_path := None\<rparr>"
  let ?two = "srv\<lparr>sc_key_path := Some k, sc_cert_path := Some c\<rparr>"
  obtain head tail where "server_lines n ?two = head @ toml_str ''key_path'' k # toml_str ''cert_path'' c # tail"
    and "server_lines n ?one = head @ (toml_str ''key_path'' k @ [nl] @ toml_str ''cert_path'' c) # tail"
  proof
    let ?head = "take 6 (server_lines n ?two)" and ?tail = "drop 8 (server_lines n ?two)"
    show "server_lines n ?two = ?head @ toml_str ''key_path'' k # toml_str ''cert_path'' c # ?tail"
      "server_lines n ?one = ?head @ (toml_str ''key_path'' k @ [nl] @ toml_str ''cert_path'' c) # ?tail"
      unfolding server_lines_def by (simp_all add: toml_opt_def t [simplified])
  qed
  then show ?thesis
    using join_glued [of "[nl]" "settings_lines (ac_settings cfg) @ concat (map (\<lambda>(n, s). server_lines n s) pre) @ head"]
    by (simp add: app_config_to_toml_def)
qed

end
