(* ===== verification/Registry.thy ===== *)
theory Registry
  imports Atomic_File Config
begin

section \<open>Server registry (\<open>registry.py\<close>)\<close>

text \<open>
  \<open>Registry\<close> holds the loaded \<open>AppConfig\<close>, the in-memory (\<open>ephemeral\<close>) servers and the
  configuration file. The file system is part of the state; \<open>fate\<close> says how the environment
  lets the \<open>n\<close>-th write attempt end. The two pairs \<open>add\<close>/\<open>remove\<close> and
  \<open>add_ephemeral\<close>/\<open>remove_ephemeral\<close> keep one contract, the locale \<open>server_table\<close>, which
  clients that work on either (the jump chains) rely on.
\<close>

record registry =
  rg_config :: app_config
  rg_ephemeral :: "(string, server_config) dict"
  rg_path :: string
  rg_fs :: fs
  rg_writes :: nat

abbreviation rg_servers :: "registry \<Rightarrow> (string, server_config) dict" where
  "rg_servers r \<equiv> ac_servers (rg_config r)"

definition Registry_init :: "string \<Rightarrow> fs \<Rightarrow> app_config result \<Rightarrow> registry result" where
  "Registry_init path fs loaded =
     (case loaded of
        Inl e \<Rightarrow> Inl e
      | Inr cfg \<Rightarrow> Inr \<lparr>rg_config = cfg, rg_ephemeral = [], rg_path = path, rg_fs = fs, rg_writes = 0\<rparr>)"

subsection \<open>Operations\<close>

definition reg_get :: "registry \<Rightarrow> string \<Rightarrow> server_config result" where
  "reg_get r name =
     (case map_of (rg_ephemeral r) name of
        Some cfg \<Rightarrow> Inr cfg
      | None \<Rightarrow>
          (case map_of (rg_servers r) name of
             Some cfg \<Rightarrow> Inr cfg
           | None \<Rightarrow> Inl ServerNotFound))"

definition reg_list_all :: "registry \<Rightarrow> server_config list" where
  "reg_list_all r = dict_values (rg_servers r) @ dict_values (rg_ephemeral r)"

definition write_config ::
    "(nat \<Rightarrow> write_fate) \<Rightarrow> app_config \<Rightarrow> registry \<Rightarrow> registry \<times> unit result" where
  "write_config fate cfg r =
     (let (fs', ok) = atomic_write (fate (rg_writes r)) (rg_path r) (app_config_to_toml cfg) (rg_fs r);
          r' = r\<lparr>rg_fs := fs', rg_writes := Suc (rg_writes r)\<rparr>
      in (r', if ok then Inr () else Inl McpSshError))"

definition reg_add ::
    "(nat \<Rightarrow> write_fate) \<Rightarrow> server_config \<Rightarrow> registry \<Rightarrow> registry \<times> unit result" where
  "reg_add fate config r =
     (if dict_has (sc_name config) (rg_servers r) \<or> dict_has (sc_name config) (rg_ephemeral r)
      then (r, Inl ServerAlreadyExists)
      else
        let new_servers = dict_set (sc_name config) config (rg_servers r);
            new_cfg = (rg_config r)\<lparr>ac_servers := new_servers\<rparr>
        in (case write_config fate new_cfg r of
              (r', Inl e) \<Rightarrow> (r', Inl e)
            | (r', Inr _) \<Rightarrow> (r'\<lparr>rg_config := new_cfg\<rparr>, Inr ())))"

definition reg_remove ::
    "(nat \<Rightarrow> write_fate) \<Rightarrow> string \<Rightarrow> registry \<Rightarrow> registry \<times> unit result" where
  "reg_remove fate name r =
     (if \<not> dict_has name (rg_servers r) then (r, Inl ServerNotFound)
      else
        let new_servers = dict_del name (rg_servers r);
            new_cfg = (rg_config r)\<lparr>ac_servers := new_servers\<rparr>
        in (case write_config fate new_cfg r of
              (r', Inl e) \<Rightarrow> (r', Inl e)
            | (r', Inr _) \<Rightarrow> (r'\<lparr>rg_config := new_cfg\<rparr>, Inr ())))"

definition reg_get_config :: "registry \<Rightarrow> app_config" where
  "reg_get_config r = rg_config r"

definition reg_add_ephemeral :: "server_config \<Rightarrow> registry \<Rightarrow> registry \<times> unit result" where
  "reg_add_ephemeral config r =
     (if dict_has (sc_name config) (rg_servers r) \<or> dict_has (sc_name config) (rg_ephemeral r)
      then (r, Inl ServerAlreadyExists)
      else (r\<lparr>rg_ephemeral := dict_set (sc_name config) config (rg_ephemeral r)\<rparr>, Inr ()))"

definition reg_remove_ephemeral :: "string \<Rightarrow> registry \<Rightarrow> registry \<times> unit result" where
  "reg_remove_ephemeral name r =
     (if \<not> dict_has name (rg_ephemeral r) then (r, Inl ServerNotFound)
      else (r\<lparr>rg_ephemeral := dict_del name (rg_ephemeral r)\<rparr>, Inr ()))"

definition reg_list_ephemeral :: "registry \<Rightarrow> server_config list" where
  "reg_list_ephemeral r = dict_values (rg_ephemeral r)"

text \<open>
  One round of \<open>watch\<close>: the file changed and was loaded with this outcome. A \<open>McpSshError\<close>
  keeps the old configuration and goes on; any other exception ends the generator.
\<close>

definition reg_watch_round :: "app_config result \<Rightarrow> registry \<Rightarrow> registry \<times> bool result" where
  "reg_watch_round loaded r =
     (case loaded of
        Inr new_cfg \<Rightarrow> (r\<lparr>rg_config := new_cfg\<rparr>, Inr True)
      | Inl e \<Rightarrow> if is_McpSshError e then (r, Inr False) else (r, Inl e))"

subsection \<open>Invariant: every entry is filed under its own name\<close>

definition named_dict :: "(string, server_config) dict \<Rightarrow> bool" where
  "named_dict d \<longleftrightarrow> dict_ok d \<and> list_all (\<lambda>(k, c). sc_name c = k) d"

definition registry_wf :: "registry \<Rightarrow> bool" where
  "registry_wf r \<longleftrightarrow> named_dict (rg_servers r) \<and> named_dict (rg_ephemeral r)"

lemma named_dict_Nil [simp]: "named_dict []"
  by (simp add: named_dict_def)

lemma named_dict_set [simp, inv_intros]:
  "named_dict d \<Longrightarrow> sc_name c = k \<Longrightarrow> named_dict (dict_set k c d)"
  using set_dict_set_subset [of k c d] by (fastforce simp: named_dict_def list_all_iff)

lemma named_dict_del [simp, inv_intros]: "named_dict d \<Longrightarrow> named_dict (dict_del k d)"
  by (auto simp: named_dict_def list_all_iff)

lemma named_dict_keys: "named_dict d \<Longrightarrow> map fst d = map sc_name (dict_values d)"
  by (auto simp: named_dict_def list_all_iff dict_values_def)

lemma named_dict_get: "named_dict d \<Longrightarrow> map_of d k = Some c \<Longrightarrow> sc_name c = k"
  by (auto simp: named_dict_def list_all_iff dest!: map_of_SomeD)

lemma write_config_cases:
  assumes "write_config fate cfg r = (r', res)"
  shows "rg_config r' = rg_config r" "rg_ephemeral r' = rg_ephemeral r" "rg_path r' = rg_path r"
    "rg_writes r' = Suc (rg_writes r)"
    "res = (if fate (rg_writes r) = W_ok then Inr () else Inl McpSshError)"
    "atomic_write (fate (rg_writes r)) (rg_path r) (app_config_to_toml cfg) (rg_fs r)
       = (rg_fs r', fate (rg_writes r) = W_ok)"
    "fate (rg_writes r) = W_ok \<Longrightarrow> rg_fs r' (rg_path r) = Some (app_config_to_toml cfg)"
  using assms atomic_write_ok [of "fate (rg_writes r)" "rg_path r" "app_config_to_toml cfg" "rg_fs r"]
  by (auto simp: write_config_def Let_def split: prod.splits)

text \<open>What each operation does to the two tables, on every branch.\<close>

lemma reg_add_cases:
  assumes "reg_add fate c r = (r', res)"
  obtains
    (exists) "map_of (rg_servers r) (sc_name c) \<noteq> None \<or> map_of (rg_ephemeral r) (sc_name c) \<noteq> None"
      "res = Inl ServerAlreadyExists" "r' = r"
  | (write_fails) "map_of (rg_servers r) (sc_name c) = None" "map_of (rg_ephemeral r) (sc_name c) = None"
      "fate (rg_writes r) \<noteq> W_ok" "res = Inl McpSshError"
      "rg_config r' = rg_config r" "rg_ephemeral r' = rg_ephemeral r" "rg_writes r' = Suc (rg_writes r)"
  | (added) "map_of (rg_servers r) (sc_name c) = None" "map_of (rg_ephemeral r) (sc_name c) = None"
      "fate (rg_writes r) = W_ok" "res = Inr ()"
      "rg_servers r' = dict_set (sc_name c) c (rg_servers r)" "rg_ephemeral r' = rg_ephemeral r"
      "rg_writes r' = Suc (rg_writes r)" "rg_path r' = rg_path r"
      "rg_fs r' (rg_path r') = Some (app_config_to_toml (rg_config r'))"
proof (cases "dict_has (sc_name c) (rg_servers r) \<or> dict_has (sc_name c) (rg_ephemeral r)")
  case True
  then have "r' = r" "res = Inl ServerAlreadyExists" using assms by (simp_all add: reg_add_def)
  with True show ?thesis by (intro exists) simp_all
next
  case False
  let ?cfg = "(rg_config r)\<lparr>ac_servers := dict_set (sc_name c) c (rg_servers r)\<rparr>"
  obtain r1 w where w: "write_config fate ?cfg r = (r1, w)" by (rule prod.exhaust)
  note wc = write_config_cases [OF w]
  have red: "reg_add fate c r = (case w of Inl e \<Rightarrow> (r1, Inl e) | Inr _ \<Rightarrow> (r1\<lparr>rg_config := ?cfg\<rparr>, Inr ()))"
    using False w by (simp add: reg_add_def)
  from False have fresh: "map_of (rg_servers r) (sc_name c) = None" "map_of (rg_ephemeral r) (sc_name c) = None"
    by auto
  show ?thesis
  proof (cases "fate (rg_writes r) = W_ok")
    case True
    with red wc(5) assms have "r' = r1\<lparr>rg_config := ?cfg\<rparr>" "res = Inr ()" by auto
    then show ?thesis using added [OF fresh True] wc(2-4) wc(7) [OF True] by simp
  next
    case bad: False
    with red wc(5) assms have "r' = r1" "res = Inl McpSshError" by auto
    then show ?thesis using write_fails [OF fresh bad] wc(1-4) by simp
  qed
qed

lemma reg_remove_cases:
  assumes "reg_remove fate n r = (r', res)"
  obtains
    (missing) "map_of (rg_servers r) n = None" "res = Inl ServerNotFound" "r' = r"
  | (write_fails) "map_of (rg_servers r) n \<noteq> None" "fate (rg_writes r) \<noteq> W_ok"
      "res = Inl McpSshError"
      "rg_config r' = rg_config r" "rg_ephemeral r' = rg_ephemeral r" "rg_writes r' = Suc (rg_writes r)"
  | (removed) "map_of (rg_servers r) n \<noteq> None" "fate (rg_writes r) = W_ok" "res = Inr ()"
      "rg_servers r' = dict_del n (rg_servers r)" "rg_ephemeral r' = rg_ephemeral r"
      "rg_writes r' = Suc (rg_writes r)" "rg_path r' = rg_path r"
      "rg_fs r' (rg_path r') = Some (app_config_to_toml (rg_config r'))"
proof (cases "dict_has n (rg_servers r)")
  case False
  then have "r' = r" "res = Inl ServerNotFound" using assms by (simp_all add: reg_remove_def)
  with False show ?thesis by (intro missing) simp_all
next
  case True
  let ?cfg = "(rg_config r)\<lparr>ac_servers := dict_del n (rg_servers r)\<rparr>"
  obtain r1 w where w: "write_config fate ?cfg r = (r1, w)" by (rule prod.exhaust)
  note wc = write_config_cases [OF w]
  have red: "reg_remove fate n r = (case w of Inl e \<Rightarrow> (r1, Inl e) | Inr _ \<Rightarrow> (r1\<lparr>rg_config := ?cfg\<rparr>, Inr ()))"
    using True w by (simp add: reg_remove_def)
  from True have present: "map_of (rg_servers r) n \<noteq> None" by auto
  show ?thesis
  proof (cases "fate (rg_writes r) = W_ok")
    case good: True
    with red wc(5) assms have "r' = r1\<lparr>rg_config := ?cfg\<rparr>" "res = Inr ()" by auto
    then show ?thesis using removed [OF present good] wc(2-4) wc(7) [OF good] by simp
  next
    case bad: False
    with red wc(5) assms have "r' = r1" "res = Inl McpSshError" by auto
    then show ?thesis using write_fails [OF present bad] wc(1-4) by simp
  qed
qed

subsection \<open>The contract of an add/remove pair\<close>

text \<open>
  \<open>own\<close> is the table the pair writes, \<open>other\<close> the one it only reads, \<open>steady\<close> says that from
  here on the environment lets every write succeed. The laws are what \<open>_build_chain\<close>,
  \<open>teardown_jump\<close> and the discovery engine rely on when they pick the pair by \<open>persist\<close>.
\<close>

locale server_table =
  fixes add :: "server_config \<Rightarrow> 'r \<Rightarrow> 'r \<times> unit result"
    and remove :: "string \<Rightarrow> 'r \<Rightarrow> 'r \<times> unit result"
    and own :: "'r \<Rightarrow> (string, server_config) dict"
    and other :: "'r \<Rightarrow> (string, server_config) dict"
    and steady :: "'r \<Rightarrow> bool"
  assumes add_ok: "add c r = (r', Inr u) \<Longrightarrow> map_of (own r) (sc_name c) = None
      \<and> map_of (other r) (sc_name c) = None
      \<and> own r' = dict_set (sc_name c) c (own r) \<and> other r' = other r"
    and add_fail: "add c r = (r', Inl e) \<Longrightarrow> is_McpSshError e \<and> own r' = own r \<and> other r' = other r"
    and add_works: "steady r \<Longrightarrow> map_of (own r) (sc_name c) = None
      \<Longrightarrow> map_of (other r) (sc_name c) = None \<Longrightarrow> snd (add c r) = Inr ()"
    and add_steady: "steady r \<Longrightarrow> steady (fst (add c r))"
    and remove_ok: "remove n r = (r', Inr u) \<Longrightarrow> map_of (own r) n \<noteq> None
      \<and> own r' = dict_del n (own r) \<and> other r' = other r"
    and remove_fail: "remove n r = (r', Inl e) \<Longrightarrow> is_McpSshError e \<and> own r' = own r \<and> other r' = other r"
    and remove_works: "steady r \<Longrightarrow> map_of (own r) n \<noteq> None \<Longrightarrow> snd (remove n r) = Inr ()"
    and remove_steady: "steady r \<Longrightarrow> steady (fst (remove n r))"
begin

text \<open>Registering a fresh server and removing it again leaves the table as it was.\<close>

lemma add_remove_inverse:
  assumes "add c r = (r1, Inr u)" and "steady r1"
  shows "own (fst (remove (sc_name c) r1)) = own r" and "snd (remove (sc_name c) r1) = Inr ()"
proof -
  obtain r2 res where rm: "remove (sc_name c) r1 = (r2, res)" by force
  have "map_of (own r1) (sc_name c) \<noteq> None" using add_ok [OF assms(1)] by simp
  then show "snd (remove (sc_name c) r1) = Inr ()" by (rule remove_works [OF assms(2)])
  then show "own (fst (remove (sc_name c) r1)) = own r"
    using rm remove_ok [of "sc_name c" r1 r2 "()"] add_ok [OF assms(1)] by simp
qed

end

definition writes_ok_from :: "(nat \<Rightarrow> write_fate) \<Rightarrow> registry \<Rightarrow> bool" where
  "writes_ok_from fate r \<longleftrightarrow> (\<forall>i \<ge> rg_writes r. fate i = W_ok)"

lemma writes_ok_from_later:
  "writes_ok_from fate r \<Longrightarrow> rg_writes r \<le> rg_writes r' \<Longrightarrow> writes_ok_from fate r'"
  by (auto simp: writes_ok_from_def)

interpretation file_table:
  server_table "reg_add fate" "reg_remove fate" rg_servers rg_ephemeral "writes_ok_from fate"
  for fate
proof unfold_locales
  fix c r r' u e n
  show "reg_add fate c r = (r', Inr u) \<Longrightarrow> map_of (rg_servers r) (sc_name c) = None
      \<and> map_of (rg_ephemeral r) (sc_name c) = None
      \<and> rg_servers r' = dict_set (sc_name c) c (rg_servers r) \<and> rg_ephemeral r' = rg_ephemeral r"
    by (erule reg_add_cases) auto
  show "reg_add fate c r = (r', Inl e) \<Longrightarrow> is_McpSshError e \<and> rg_servers r' = rg_servers r
      \<and> rg_ephemeral r' = rg_ephemeral r"
    by (erule reg_add_cases) auto
  show "writes_ok_from fate r \<Longrightarrow> map_of (rg_servers r) (sc_name c) = None
      \<Longrightarrow> map_of (rg_ephemeral r) (sc_name c) = None \<Longrightarrow> snd (reg_add fate c r) = Inr ()"
    by (rule reg_add_cases [of fate c r "fst (reg_add fate c r)" "snd (reg_add fate c r)"])
      (auto simp: writes_ok_from_def)
  show "writes_ok_from fate r \<Longrightarrow> writes_ok_from fate (fst (reg_add fate c r))"
    by (rule reg_add_cases [of fate c r "fst (reg_add fate c r)" "snd (reg_add fate c r)"])
      (auto intro: writes_ok_from_later)
  show "reg_remove fate n r = (r', Inr u) \<Longrightarrow> map_of (rg_servers r) n \<noteq> None
      \<and> rg_servers r' = dict_del n (rg_servers r) \<and> rg_ephemeral r' = rg_ephemeral r"
    by (erule reg_remove_cases) auto
  show "reg_remove fate n r = (r', Inl e) \<Longrightarrow> is_McpSshError e \<and> rg_servers r' = rg_servers r
      \<and> rg_ephemeral r' = rg_ephemeral r"
    by (erule reg_remove_cases) auto
  show "writes_ok_from fate r \<Longrightarrow> map_of (rg_servers r) n \<noteq> None
      \<Longrightarrow> snd (reg_remove fate n r) = Inr ()"
    by (rule reg_remove_cases [of fate n r "fst (reg_remove fate n r)" "snd (reg_remove fate n r)"])
      (auto simp: writes_ok_from_def)
  show "writes_ok_from fate r \<Longrightarrow> writes_ok_from fate (fst (reg_remove fate n r))"
    by (rule reg_remove_cases [of fate n r "fst (reg_remove fate n r)" "snd (reg_remove fate n r)"])
      (auto intro: writes_ok_from_later)
qed

interpretation mem_table:
  server_table reg_add_ephemeral reg_remove_ephemeral rg_ephemeral rg_servers "\<lambda>_. True"
  by unfold_locales
    (auto simp: reg_add_ephemeral_def reg_remove_ephemeral_def split: if_splits)

subsection \<open>Lookup after an update\<close>

lemma reg_get_cong:
  "rg_servers r = rg_servers r' \<Longrightarrow> rg_ephemeral r = rg_ephemeral r' \<Longrightarrow> reg_get r = reg_get r'"
  unfolding reg_get_def by (rule ext) (simp split: option.split)

lemma reg_get_Inr_iff:
  "reg_get r n = Inr c \<longleftrightarrow> map_of (rg_ephemeral r) n = Some c
     \<or> map_of (rg_ephemeral r) n = None \<and> map_of (rg_servers r) n = Some c"
  by (auto simp: reg_get_def split: option.splits)

lemma reg_get_Inl_iff:
  "reg_get r n = Inl e \<longleftrightarrow> e = ServerNotFound \<and> map_of (rg_ephemeral r) n = None
     \<and> map_of (rg_servers r) n = None"
  by (auto simp: reg_get_def split: option.splits)

lemma reg_get_None_iff:
  "(\<forall>c. reg_get r n \<noteq> Inr c) \<longleftrightarrow> map_of (rg_ephemeral r) n = None \<and> map_of (rg_servers r) n = None"
  by (auto simp: reg_get_def split: option.splits)

lemma registry_wf_ops [inv_intros]:
  assumes "registry_wf r"
  shows "registry_wf (fst (reg_add fate c r))"
    and "registry_wf (fst (reg_remove fate n r))"
    and "registry_wf (fst (reg_add_ephemeral c r))"
    and "registry_wf (fst (reg_remove_ephemeral n r))"
proof -
  show "registry_wf (fst (reg_add fate c r))"
    by (rule reg_add_cases [of fate c r "fst (reg_add fate c r)" "snd (reg_add fate c r)"])
      (use assms in \<open>auto simp: registry_wf_def\<close>)
  show "registry_wf (fst (reg_remove fate n r))"
    by (rule reg_remove_cases [of fate n r "fst (reg_remove fate n r)" "snd (reg_remove fate n r)"])
      (use assms in \<open>auto simp: registry_wf_def\<close>)
qed (use assms in \<open>auto simp: registry_wf_def reg_add_ephemeral_def reg_remove_ephemeral_def\<close>)

lemma registry_wf_watch [inv_intros]:
  "registry_wf r \<Longrightarrow> (\<And>cfg. loaded = Inr cfg \<Longrightarrow> named_dict (ac_servers cfg))
     \<Longrightarrow> registry_wf (fst (reg_watch_round loaded r))"
  by (auto simp: registry_wf_def reg_watch_round_def split: sum.splits)

lemma reg_get_name: "registry_wf r \<Longrightarrow> reg_get r n = Inr c \<Longrightarrow> sc_name c = n"
  by (auto simp: registry_wf_def reg_get_Inr_iff dest: named_dict_get)

subsection \<open>Properties\<close>

text \<open>Any sequence of registrations and removals, under any fate of the writes.\<close>

datatype reg_op = Op_add server_config | Op_remove string
  | Op_add_ephemeral server_config | Op_remove_ephemeral string

fun reg_apply :: "(nat \<Rightarrow> write_fate) \<Rightarrow> reg_op \<Rightarrow> registry \<Rightarrow> registry" where
  "reg_apply fate (Op_add c) r = fst (reg_add fate c r)"
| "reg_apply fate (Op_remove n) r = fst (reg_remove fate n r)"
| "reg_apply fate (Op_add_ephemeral c) r = fst (reg_add_ephemeral c r)"
| "reg_apply fate (Op_remove_ephemeral n) r = fst (reg_remove_ephemeral n r)"

text \<open>
  The invariant of the registry: entries are filed under their names, no name is in both tables,
  and the file on disk is the text of the configuration in memory.
\<close>

definition registry_in_sync :: "registry \<Rightarrow> bool" where
  "registry_in_sync r \<longleftrightarrow> registry_wf r
     \<and> (\<forall>n \<in> set (map fst (rg_ephemeral r)). \<not> dict_has n (rg_servers r))
     \<and> rg_fs r (rg_path r) = Some (app_config_to_toml (rg_config r))"

lemma names_disjoint_iff:
  "(\<forall>n \<in> set (map fst e). \<not> dict_has n s) \<longleftrightarrow> (\<forall>n. map_of e n = None \<or> map_of s n = None)"
  by (auto simp: map_of_eq_None_iff image_iff) (metis fst_conv)+

lemma write_config_file:
  assumes "\<not> suffix ''.tmp'' (rg_path r)" and "write_config fate cfg r = (r', v)"
  shows "rg_path r' = rg_path r \<and> rg_fs r' (rg_path r)
      = (if v = Inr () then Some (app_config_to_toml cfg) else rg_fs r (rg_path r))
    \<and> rg_config r' = rg_config r \<and> rg_ephemeral r' = rg_ephemeral r"
  using write_config_cases [OF assms(2)]
    atomic_write_target [OF assms(1) write_config_cases(6) [OF assms(2)]] by simp

lemma reg_add_file:
  assumes "\<not> suffix ''.tmp'' (rg_path r)" and "reg_add fate c r = (r', res)"
  shows "rg_path r' = rg_path r
    \<and> rg_fs r' (rg_path r) = (if res = Inr () then Some (app_config_to_toml (rg_config r')) else rg_fs r (rg_path r))
    \<and> (res \<noteq> Inr () \<longrightarrow> rg_config r' = rg_config r \<and> rg_ephemeral r' = rg_ephemeral r)"
  using assms(2)
  by (auto simp: reg_add_def Let_def split: if_splits prod.splits sum.splits
      dest!: write_config_file [OF assms(1)])

lemma reg_remove_file:
  assumes "\<not> suffix ''.tmp'' (rg_path r)" and "reg_remove fate n r = (r', res)"
  shows "rg_path r' = rg_path r
    \<and> rg_fs r' (rg_path r) = (if res = Inr () then Some (app_config_to_toml (rg_config r')) else rg_fs r (rg_path r))
    \<and> (res \<noteq> Inr () \<longrightarrow> rg_config r' = rg_config r \<and> rg_ephemeral r' = rg_ephemeral r)"
  using assms(2)
  by (auto simp: reg_remove_def Let_def split: if_splits prod.splits sum.splits
      dest!: write_config_file [OF assms(1)])

lemma reg_apply_in_sync:
  assumes "registry_in_sync r" and "\<not> suffix ''.tmp'' (rg_path r)"
  shows "registry_in_sync (reg_apply fate op r) \<and> rg_path (reg_apply fate op r) = rg_path r"
proof -
  have wf: "registry_wf r" and dis: "\<forall>n. map_of (rg_ephemeral r) n = None \<or> map_of (rg_servers r) n = None"
    and on_disk: "rg_fs r (rg_path r) = Some (app_config_to_toml (rg_config r))"
    using assms(1) unfolding registry_in_sync_def names_disjoint_iff by auto
  have sync: "registry_in_sync r' \<and> rg_path r' = rg_path r"
    if "registry_wf r'" "\<forall>n. map_of (rg_ephemeral r') n = None \<or> map_of (rg_servers r') n = None"
      "rg_path r' = rg_path r" "rg_fs r' (rg_path r) = Some (app_config_to_toml (rg_config r'))" for r'
    using that unfolding registry_in_sync_def names_disjoint_iff by simp
  show ?thesis
  proof (cases op)
    case (Op_add c)
    obtain r' res where ad: "reg_add fate c r = (r', res)" by (rule prod.exhaust)
    have "\<forall>n. map_of (rg_ephemeral r') n = None \<or> map_of (rg_servers r') n = None"
      by (rule reg_add_cases [OF ad]) (use dis in auto)
    with sync [of r'] registry_wf_ops(1) [OF wf, of fate c] reg_add_file [OF assms(2) ad] on_disk Op_add ad
    show ?thesis by (simp split: if_splits)
  next
    case (Op_remove n)
    obtain r' res where rm: "reg_remove fate n r = (r', res)" by (rule prod.exhaust)
    have "\<forall>m. map_of (rg_ephemeral r') m = None \<or> map_of (rg_servers r') m = None"
      by (rule reg_remove_cases [OF rm]) (use dis in auto)
    with sync [of r'] registry_wf_ops(2) [OF wf, of fate n] reg_remove_file [OF assms(2) rm] on_disk Op_remove rm
    show ?thesis by (simp split: if_splits)
  next
    case (Op_add_ephemeral c)
    have "\<forall>n. map_of (rg_ephemeral (fst (reg_add_ephemeral c r))) n = None
        \<or> map_of (rg_servers (fst (reg_add_ephemeral c r))) n = None"
      using dis by (auto simp: reg_add_ephemeral_def)
    then show ?thesis unfolding Op_add_ephemeral reg_apply.simps
      by (intro sync registry_wf_ops wf) (use on_disk in \<open>auto simp: reg_add_ephemeral_def\<close>)
  next
    case (Op_remove_ephemeral n)
    have "\<forall>m. map_of (rg_ephemeral (fst (reg_remove_ephemeral n r))) m = None
        \<or> map_of (rg_servers (fst (reg_remove_ephemeral n r))) m = None"
      using dis by (auto simp: reg_remove_ephemeral_def)
    then show ?thesis unfolding Op_remove_ephemeral reg_apply.simps
      by (intro sync registry_wf_ops wf) (use on_disk in \<open>auto simp: reg_remove_ephemeral_def\<close>)
  qed
qed

text \<open>Whatever registrations and removals are made and wherever the writes fail, the registry
  stays in sync: the file on disk is the text of the configuration in memory (a failed write changes
  neither), every server is filed under its own name and no name is both file-backed and ephemeral.\<close>

theorem registry_stays_in_sync:
  assumes "registry_in_sync r" and "\<not> suffix ''.tmp'' (rg_path r)"
  shows "registry_in_sync (fold (reg_apply fate) ops r)"
proof -
  have "registry_in_sync (fold (reg_apply fate) ops r) \<and> rg_path (fold (reg_apply fate) ops r) = rg_path r"
    using assms by (induction ops arbitrary: r) (use reg_apply_in_sync in \<open>fastforce+\<close>)
  then show ?thesis ..
qed

definition synced_registry :: registry where
  "synced_registry =
     \<lparr>rg_config = example_config, rg_ephemeral = [], rg_path = ''/c/servers.toml'',
      rg_fs = [''/c/servers.toml'' \<mapsto> app_config_to_toml example_config], rg_writes = 0\<rparr>"

lemma synced_registry_ok: "registry_in_sync synced_registry" "\<not> suffix ''.tmp'' (rg_path synced_registry)"
  by code_simp+

lemma registry_stays_in_sync_witness:
  "registry_in_sync (fold (reg_apply (\<lambda>i. if i = 1 then W_tmp_fails ''xx'' else W_ok))
     [Op_add (ServerConfig ''c'' ''h3'' ''root'' AT_agent), Op_remove ''a'', Op_remove ''b''] synced_registry)"
  by (rule registry_stays_in_sync [OF synced_registry_ok])

text \<open>A registration that succeeds adds exactly this server to what \<open>get\<close> finds, at the end of
  \<open>list_all\<close>'s file-backed part, and needs the name to be unknown before; one that fails leaves every
  lookup as it was, and says \<open>ServerAlreadyExists\<close> exactly when the name was taken.\<close>

theorem reg_add_functional:
  assumes "reg_add fate c r = (r', res)"
  shows "(case res of
      Inr _ \<Rightarrow> reg_get r (sc_name c) = Inl ServerNotFound
        \<and> (\<forall>n. reg_get r' n = (if n = sc_name c then Inr c else reg_get r n))
        \<and> reg_list_all r' = dict_values (rg_servers r) @ [c] @ reg_list_ephemeral r
    | Inl e \<Rightarrow> reg_get r' = reg_get r
        \<and> (e = ServerAlreadyExists \<longleftrightarrow> reg_get r (sc_name c) \<noteq> Inl ServerNotFound))"
  using assms
proof (cases rule: reg_add_cases)
  case exists
  then show ?thesis by (auto simp: reg_get_Inl_iff)
next
  case write_fails
  then show ?thesis by (simp add: reg_get_Inl_iff reg_get_cong [of r' r])
next
  case added
  then show ?thesis
    by (auto simp: reg_get_def reg_list_all_def reg_list_ephemeral_def dict_values_def dict_set_fresh
        split: option.split)
qed

lemma reg_add_functional_witness:
  "snd (reg_add (\<lambda>_. W_ok) (ServerConfig ''c'' ''h3'' ''root'' AT_agent) synced_registry) = Inr ()
   \<and> reg_get (fst (reg_add (\<lambda>_. W_ok) (ServerConfig ''c'' ''h3'' ''root'' AT_agent) synced_registry)) ''c''
       = Inr (ServerConfig ''c'' ''h3'' ''root'' AT_agent)"
proof -
  have ok: "snd (reg_add (\<lambda>_. W_ok) (ServerConfig ''c'' ''h3'' ''root'' AT_agent) synced_registry) = Inr ()"
    by code_simp
  from reg_add_functional [OF surjective_pairing, of "\<lambda>_. W_ok"
      "ServerConfig ''c'' ''h3'' ''root'' AT_agent" synced_registry]
  show ?thesis unfolding ok by simp
qed

text \<open>Nothing in \<open>Registry.add\<close> looks at jump hosts: a fresh server that jumps through itself is
  registered, after which the configuration written to disk is one that \<open>load_config\<close> refuses.\<close>

theorem self_jump_registered:
  assumes "reg_get r (sc_name c) = Inl ServerNotFound" and "sc_jump_host c = Some (sc_name c)"
    and "fate (rg_writes r) = W_ok"
  shows "\<exists>r'. reg_add fate c r = (r', Inr ())
    \<and> rg_fs r' (rg_path r') = Some (app_config_to_toml (rg_config r'))
    \<and> detect_circular_jumps (rg_servers r') = Inl McpSshError"
proof -
  obtain r' res where ad: "reg_add fate c r = (r', res)" by (rule prod.exhaust)
  show ?thesis
    using ad
  proof (cases rule: reg_add_cases)
    case added
    then have "jump_of (rg_servers r') (sc_name c) = Some (sc_name c)"
      using assms(2) by (simp add: jump_of_def)
    then have "chain_at (jump_of (rg_servers r')) (sc_name c) (Suc 0) = Some (sc_name c)" by simp
    then have "\<not> chain_ends (jump_of (rg_servers r')) (sc_name c) n" for n
      unfolding chain_ends_iff by (rule periodic_never_ends)
    moreover have "sc_name c \<in> fst ` set (rg_servers r')" using added(5) by (simp add: fst_dict_set)
    ultimately have "detect_circular_jumps (rg_servers r') \<noteq> Inr ()"
      by (simp only: detect_circular_jumps_ok) blast
    then show ?thesis using ad added by (auto simp: detect_circular_jumps_def split: if_splits)
  qed (use assms in \<open>auto simp: reg_get_Inl_iff\<close>)
qed

lemma self_jump_registered_witness:
  "\<exists>r'. reg_add (\<lambda>_. W_ok) ((ServerConfig ''c'' ''h3'' ''root'' AT_agent)\<lparr>sc_jump_host := Some ''c''\<rparr>)
      synced_registry = (r', Inr ()) \<and> detect_circular_jumps (rg_servers r') = Inl McpSshError"
  using self_jump_registered [of synced_registry
      "(ServerConfig ''c'' ''h3'' ''root'' AT_agent)\<lparr>sc_jump_host := Some ''c''\<rparr>" "\<lambda>_. W_ok"]
  by (simp add: synced_registry_def reg_get_def example_config_def) blast

end
