(* ===== verification/Host_Keys.thy ===== *)
theory Host_Keys
  imports Models
begin

section \<open>The known-hosts file (\<open>pool.py\<close>)\<close>

text \<open>
  The text-level functions of the connection pool: the scan that decides whether a host is known,
  the line appended after a first connection, and the choice of the \<open>known_hosts\<close> argument by
  policy. The file is a text, \<open>None\<close> when it cannot be opened. The exported key of the server
  (\<open>export_public_key("openssh")\<close> of asyncssh, already stripped) is a parameter.
\<close>

text \<open>Reading a file in text mode: every line end becomes a line feed.\<close>

fun universal_newlines :: "string \<Rightarrow> string" where
  "universal_newlines [] = []"
| "universal_newlines (c # cs) =
     (if code c = 13 then
        char_of (10 :: nat) # universal_newlines (if cs \<noteq> [] \<and> code (hd cs) = 10 then tl cs else cs)
      else c # universal_newlines cs)"

subsection \<open>Scanning\<close>

text \<open>\<open>parts[1] if parts[0].startswith("@") else parts[0]\<close>; a lone marker raises \<open>IndexError\<close>.\<close>

definition host_token :: "string list \<Rightarrow> string result" where
  "host_token parts =
     (case parts of
        [] \<Rightarrow> Inl PyIndexError
      | p # rest \<Rightarrow>
          if startswith p ''@'' then (case rest of [] \<Rightarrow> Inl PyIndexError | t # _ \<Rightarrow> Inr t)
          else Inr p)"

definition token_matches :: "string \<Rightarrow> string \<Rightarrow> bool" where
  "token_matches host tok \<longleftrightarrow> tok = host \<or> startswith tok (host @ '','')"

fun host_in_lines :: "string \<Rightarrow> string list \<Rightarrow> bool result" where
  "host_in_lines host [] = Inr False"
| "host_in_lines host (l # ls) =
     (let line = strip l in
      if line = [] \<or> startswith line ''#'' then host_in_lines host ls
      else
        (case host_token (split_ws line) of
           Inl e \<Rightarrow> Inl e
         | Inr tok \<Rightarrow> if token_matches host tok then Inr True else host_in_lines host ls))"

definition is_host_known :: "string option \<Rightarrow> string \<Rightarrow> bool result" where
  "is_host_known text host =
     (case text of None \<Rightarrow> Inr False | Some s \<Rightarrow> host_in_lines host (file_lines s))"

subsection \<open>Appending\<close>

definition append_host_key :: "string option \<Rightarrow> string \<Rightarrow> string option \<Rightarrow> string option" where
  "append_host_key text host key =
     (case key of
        None \<Rightarrow> text
      | Some key_line \<Rightarrow>
          let host_entry = host @ '' '' @ key_line @ [char_of (10 :: nat)]
          in (case text of
                None \<Rightarrow> Some host_entry
              | Some existing \<Rightarrow>
                  if contains key_line (universal_newlines existing) then Some existing
                  else Some (existing @ host_entry)))"

subsection \<open>The \<open>known_hosts\<close> argument\<close>

datatype known_hosts_arg = KH_any | KH_file string

definition effective_policy :: "global_settings \<Rightarrow> server_config \<Rightarrow> host_key_policy" where
  "effective_policy settings cfg =
     (case sc_host_key_policy cfg of None \<Rightarrow> gs_default_host_key_policy settings | Some p \<Rightarrow> p)"

definition make_known_hosts_arg ::
    "(string \<Rightarrow> string) \<Rightarrow> global_settings \<Rightarrow> string option \<Rightarrow> server_config \<Rightarrow> known_hosts_arg result" where
  "make_known_hosts_arg expanduser settings text cfg =
     (case effective_policy settings cfg of
        HK_strict \<Rightarrow> Inr (KH_file (expanduser (gs_known_hosts_file settings)))
      | HK_tofu \<Rightarrow>
          (case is_host_known text (sc_host cfg) of
             Inl e \<Rightarrow> Inl e
           | Inr True \<Rightarrow> Inr (KH_file (expanduser (gs_known_hosts_file settings)))
           | Inr False \<Rightarrow> Inr KH_any)
      | HK_accept_new \<Rightarrow> Inr KH_any)"

text \<open>
  The callable \<open>_make_tofu_known_hosts\<close> returns, which nothing in the program calls: the trusted keys, the
  trusted certificate authorities and the revoked keys. \<open>read\<close> is \<open>asyncssh.read_known_hosts\<close> and gives the
  function that matches a host, its keys and its authorities in their exported form.
\<close>

definition tofu_known_hosts ::
    "(string \<Rightarrow> (string \<Rightarrow> string \<Rightarrow> int option \<Rightarrow> string list \<times> string list) result) \<Rightarrow> (string \<Rightarrow> string) \<Rightarrow> string
      \<Rightarrow> string \<Rightarrow> string \<Rightarrow> int option \<Rightarrow> (string list \<times> string list \<times> string list) result" where
  "tofu_known_hosts read expanduser known_hosts_path host addr port =
     (case read (expanduser known_hosts_path) of
        Inl e \<Rightarrow> if is_OSError e then Inr ([], [], []) else Inl e
      | Inr match \<Rightarrow>
          (case match host addr port of
             (host_keys, ca_keys) \<Rightarrow>
               if host_keys \<noteq> [] \<or> ca_keys \<noteq> [] then Inr (host_keys @ ca_keys, [], []) else Inr ([], [], [])))"

subsection \<open>Keyboard-interactive responses\<close>

definition kbdint_handler :: "(string \<Rightarrow> string option) \<Rightarrow> (string \<times> bool) list \<Rightarrow> string list" where
  "kbdint_handler environ prompts =
     map (\<lambda>i. case environ (''MCP_SSH_KI_RESPONSE_'' @ show_nat (i + 1)) of None \<Rightarrow> [] | Some v \<Rightarrow> v)
       [0..<length prompts]"

subsection \<open>Lines of an appended text\<close>

definition is_eol :: "char \<Rightarrow> bool" where
  "is_eol c \<longleftrightarrow> code c = 10 \<or> code c = 13"

lemma file_lines_eol: "file_lines s = lines_aux is_eol [] s"
  by (simp add: file_lines_def is_eol_def [abs_def])

lemma is_eol_code [simp]: "code c = 10 \<Longrightarrow> is_eol c" "code c = 13 \<Longrightarrow> is_eol c"
  by (simp_all add: is_eol_def)

lemma lines_aux_no_break:
  "list_all (\<lambda>c. \<not> is_eol c) xs \<Longrightarrow> lines_aux is_eol cur (xs @ [char_of (10 :: nat)]) = [rev cur @ xs]"
  by (induction xs arbitrary: cur) auto

text \<open>A text that ends with a line feed, followed by one more line, has exactly that line more.\<close>

lemma lines_aux_append:
  assumes "xs = [] \<longrightarrow> cur = []" and "xs \<noteq> [] \<longrightarrow> code (last xs) = 10" and "ys \<noteq> []" and "code (hd ys) \<noteq> 10"
  shows "lines_aux is_eol cur (xs @ ys) = lines_aux is_eol cur xs @ lines_aux is_eol [] ys"
  using assms
proof (induction xs arbitrary: cur rule: length_induct)
  case (1 xs)
  show ?case
  proof (cases xs)
    case Nil
    with "1.prems" show ?thesis by simp
  next
    case (Cons c cs)
    have IH: "lines_aux is_eol cur' (zs @ ys) = lines_aux is_eol cur' zs @ lines_aux is_eol [] ys"
      if "length zs < length xs" "zs = [] \<longrightarrow> cur' = []" "zs \<noteq> [] \<longrightarrow> code (last zs) = 10" for zs cur'
      using "1.IH" that "1.prems"(3,4) by blast
    show ?thesis
    proof (cases cs)
      case Nil
      then have "code c = 10" using Cons "1.prems"(2) by simp
      then show ?thesis using Nil Cons by simp
    next
      case cs: (Cons d ds)
      have l: "code (last cs) = 10" using Cons cs "1.prems"(2) by simp
      show ?thesis
      proof (cases "code c = 13 \<and> code d = 10")
        case True
        have "ds \<noteq> [] \<longrightarrow> code (last ds) = 10" using cs l by auto
        then show ?thesis using True Cons cs IH [of ds "[]"] by simp
      next
        case False
        then show ?thesis
          using Cons cs l IH [of cs "[]"] IH [of cs "c # cur"] by auto
      qed
    qed
  qed
qed

subsection \<open>The line written after a first connection is found again\<close>

lemma rstrip_append:
  "rstrip (a @ b) = (if list_all is_space b then rstrip a else a @ rstrip b)"
  by (auto simp: rstrip_def dropWhile_append list_all_iff)

lemma rstrip_Cons_space: "is_space c \<Longrightarrow> rstrip (c # cs) = [] \<or> (\<exists>ds. rstrip (c # cs) = c # ds)"
  using rstrip_append [of "[c]" cs] by (auto simp: rstrip_def)

lemma words_aux_word:
  "list_all (\<lambda>c. \<not> is_space c) w \<Longrightarrow> words_aux cur (w @ xs) = words_aux (rev w @ cur) xs"
  by (induction w arbitrary: cur) auto

lemma first_word_stripped:
  assumes "w \<noteq> []" and "list_all (\<lambda>c. \<not> is_space c) w" and "is_space c"
  shows "\<exists>v rest. strip (w @ c # cs) = w @ v \<and> split_ws (w @ v) = w # rest"
proof -
  have hd: "\<not> is_space (hd w)" and lst: "\<not> is_space (last w)"
    using assms(1,2) by (auto simp: list_all_iff)
  have "lstrip (w @ c # cs) = w @ c # cs"
    using assms(1) hd by (cases w) (auto simp: lstrip_def)
  moreover have "rstrip w = w"
    using assms(1) lst by (cases w rule: rev_cases) (auto simp: rstrip_def)
  ultimately have s: "strip (w @ c # cs) = w @ (if list_all is_space (c # cs) then [] else rstrip (c # cs))"
    by (simp add: strip_def rstrip_append)
  obtain v where v: "strip (w @ c # cs) = w @ v" "v = [] \<or> (\<exists>ds. v = c # ds)"
    using s rstrip_Cons_space [OF assms(3), of cs] by (auto split: if_splits)
  have "split_ws (w @ v) = words_aux (rev w) v"
    by (simp add: split_ws_def words_aux_word [OF assms(2)])
  also have "\<exists>rest. words_aux (rev w) v = w # rest"
    using v(2) assms(1,3) by auto
  finally show ?thesis using v(1) by blast
qed

lemma host_in_lines_append:
  "host_in_lines host (xs @ ys) =
     (case host_in_lines host xs of Inr False \<Rightarrow> host_in_lines host ys | r \<Rightarrow> r)"
  by (induction xs) (auto simp: Let_def split: sum.split)

text \<open>A host name as it may stand in a known-hosts line.\<close>

definition plain_host :: "string \<Rightarrow> bool" where
  "plain_host h \<longleftrightarrow> h \<noteq> [] \<and> list_all (\<lambda>c. \<not> is_space c) h \<and> hd h \<noteq> CHR ''#'' \<and> hd h \<noteq> CHR ''@''"

lemma host_in_lines_own:
  assumes "plain_host h"
  shows "host_in_lines h [h @ '' '' @ key] = Inr True"
proof -
  have h: "h \<noteq> []" "list_all (\<lambda>c. \<not> is_space c) h" "hd h \<noteq> CHR ''#''" "hd h \<noteq> CHR ''@''"
    using assms by (auto simp: plain_host_def)
  have "is_space (CHR '' '')" by code_simp
  from first_word_stripped [OF h(1,2) this, of key] obtain v rest where
    v: "strip (h @ '' '' @ key) = h @ v" "split_ws (h @ v) = h # rest" by auto
  have "\<not> prefix ''#'' (h @ v)" "\<not> prefix ''@'' h" using h by (cases h; auto)+
  with v h(1) show ?thesis by (simp add: host_token_def token_matches_def)
qed


definition example_known :: string where
  "example_known = ''h1 ssh-ed25519 AAAA'' @ [char_of (10 :: nat)]"


text \<open>\<open>_append_host_key\<close> looks for the key and not for the host: a host that presents a key some
  other line already holds is not recorded, and under TOFU it stays unknown, so that every later
  connection accepts any key.\<close>

theorem shared_key_never_recorded:
  assumes "contains key_line (universal_newlines s)" and "is_host_known (Some s) (sc_host cfg) = Inr False"
    and "effective_policy settings cfg = HK_tofu"
  shows "make_known_hosts_arg expanduser settings
      (append_host_key (Some s) (sc_host cfg) (Some key_line)) cfg = Inr KH_any"
  using assms by (simp add: append_host_key_def make_known_hosts_arg_def)

lemma shared_key_never_recorded_witness:
  "make_known_hosts_arg (\<lambda>p. p) GlobalSettings
      (append_host_key (Some example_known) ''h2'' (Some ''ssh-ed25519 AAAA''))
      (ServerConfig ''a'' ''h2'' ''u'' AT_agent) = Inr KH_any"
proof -
  have "contains ''ssh-ed25519 AAAA'' (universal_newlines example_known)"
    "is_host_known (Some example_known) (sc_host (ServerConfig ''a'' ''h2'' ''u'' AT_agent)) = Inr False"
    "effective_policy GlobalSettings (ServerConfig ''a'' ''h2'' ''u'' AT_agent) = HK_tofu"
    by code_simp+
  from shared_key_never_recorded [OF this] show ?thesis by simp
qed

text \<open>A line that holds a marker and nothing else makes the check of every host raise.\<close>

lemma lone_marker_raises: "is_host_known (Some ''@revoked'') host = Inl PyIndexError"
proof -
  have "file_lines ''@revoked'' = [''@revoked'']" "strip ''@revoked'' = ''@revoked''"
    "split_ws ''@revoked'' = [''@revoked'']" "\<not> startswith ''@revoked'' ''#''" "startswith ''@revoked'' ''@''"
    by code_simp+
  then show ?thesis by (simp add: is_host_known_def host_token_def)
qed

end
