(* ===== verification/Pool.thy ===== *)
theory Pool
  imports Registry Host_Keys
begin

section \<open>Connection pool (\<open>pool.py\<close>)\<close>

text \<open>
  \<open>ConnectionPool\<close> with its lazily created slots, its pins and the known-hosts file. What lies
  outside is the record \<open>pool_env\<close>: the live server lookup, the settings, the process environment,
  and \<open>asyncssh.create_connection\<close>, whose \<open>n\<close>-th call ends as \<open>pe_dial\<close> says. A connection is
  named by the number of the call that opened it; \<open>pl_dialled\<close> is the trace of these calls with
  their arguments and \<open>pl_live\<close> lists the connections that are not closed.

  \<open>get_connection\<close> calls itself for the jump host, without a check for cycles. Its fuel is the
  number of nested calls Python's stack admits; running out of it is the \<open>RecursionError\<close> the
  interpreter raises. \<open>await\<close> lets other tasks run; the operations here are those of one task, and
  \<open>pool_step\<close> adds the connection losses that may come between them.
\<close>

subsection \<open>State\<close>

record connect_kwargs =
  ck_port :: int
  ck_username :: string
  ck_known_hosts :: known_hosts_arg
  ck_keepalive_interval :: int
  ck_keepalive_count_max :: int
  ck_connect_timeout :: int
  ck_agent_path :: "string option"
  ck_client_keys :: "string list option"
  ck_client_certs :: "string list option"
  ck_password :: "string option"
  ck_kbdint_handler :: bool
  ck_gss_host :: "string option"
  ck_tunnel :: "nat option"

text \<open>How one call of \<open>create_connection\<close> ends: a connection with its exported host key, or a raise.\<close>

datatype dial_outcome = D_ok "string option" | D_raise py_exn

record pool_env =
  pe_lookup :: "string \<Rightarrow> server_config result"
  pe_settings :: global_settings
  pe_environ :: "string \<Rightarrow> string option"
  pe_expanduser :: "string \<Rightarrow> string"
  pe_dial :: "nat \<Rightarrow> string \<Rightarrow> connect_kwargs \<Rightarrow> dial_outcome"
  pe_append_fails :: "nat \<Rightarrow> bool"

record conn_entry =
  en_connection :: "nat option"
  en_status :: connection_status

record pool =
  pl_entries :: "(string, conn_entry) dict"
  pl_pinned :: "string list"
  pl_known_hosts :: "string option"
  pl_dialled :: "(string \<times> connect_kwargs) list"
  pl_live :: "nat list"

definition ConnectionEntry :: conn_entry where
  "ConnectionEntry = \<lparr>en_connection = None, en_status = CS_disconnected\<rparr>"

definition ConnectionPool :: "string option \<Rightarrow> pool" where
  "ConnectionPool known_hosts =
     \<lparr>pl_entries = [], pl_pinned = [], pl_known_hosts = known_hosts, pl_dialled = [], pl_live = []\<rparr>"

text \<open>\<open>_StaticServerLookup.get\<close>; the registry's own lookup is \<open>reg_get\<close>.\<close>

definition static_lookup :: "(string, server_config) dict \<Rightarrow> string \<Rightarrow> server_config result" where
  "static_lookup servers name =
     (case map_of servers name of None \<Rightarrow> Inl ServerNotFound | Some c \<Rightarrow> Inr c)"

definition pool_entry :: "string \<Rightarrow> pool \<Rightarrow> pool \<times> conn_entry" where
  "pool_entry name p =
     (case map_of (pl_entries p) name of
        Some en \<Rightarrow> (p, en)
      | None \<Rightarrow> (p\<lparr>pl_entries := dict_set name ConnectionEntry (pl_entries p)\<rparr>, ConnectionEntry))"

text \<open>Assignments to the attributes of a slot that exists.\<close>

definition set_status :: "string \<Rightarrow> connection_status \<Rightarrow> pool \<Rightarrow> pool" where
  "set_status name st p =
     (case map_of (pl_entries p) name of
        None \<Rightarrow> p
      | Some en \<Rightarrow> p\<lparr>pl_entries := dict_set name (en\<lparr>en_status := st\<rparr>) (pl_entries p)\<rparr>)"

definition set_connection :: "string \<Rightarrow> nat option \<Rightarrow> pool \<Rightarrow> pool" where
  "set_connection name c p =
     (case map_of (pl_entries p) name of
        None \<Rightarrow> p
      | Some en \<Rightarrow> p\<lparr>pl_entries := dict_set name (en\<lparr>en_connection := c\<rparr>) (pl_entries p)\<rparr>)"

subsection \<open>The keyword arguments of \<open>create_connection\<close>\<close>

definition base_kwargs :: "global_settings \<Rightarrow> known_hosts_arg \<Rightarrow> server_config \<Rightarrow> connect_kwargs" where
  "base_kwargs settings kh cfg =
     \<lparr>ck_port = sc_port cfg, ck_username = sc_user cfg, ck_known_hosts = kh,
      ck_keepalive_interval = (case sc_keepalive_interval cfg of
         None \<Rightarrow> gs_keepalive_interval settings | Some i \<Rightarrow> i),
      ck_keepalive_count_max = gs_keepalive_count_max settings,
      ck_connect_timeout = gs_connect_timeout settings,
      ck_agent_path = None, ck_client_keys = None, ck_client_certs = None, ck_password = None,
      ck_kbdint_handler = False, ck_gss_host = None, ck_tunnel = None\<rparr>"

definition auth_kwargs ::
    "(string \<Rightarrow> string option) \<Rightarrow> server_config \<Rightarrow> connect_kwargs \<Rightarrow> connect_kwargs result" where
  "auth_kwargs environ cfg kw =
     (case sc_auth_type cfg of
        AT_agent \<Rightarrow>
          (case environ ''SSH_AUTH_SOCK'' of
             Some (c # cs) \<Rightarrow> Inr (kw\<lparr>ck_agent_path := Some (c # cs)\<rparr>)
           | _ \<Rightarrow> Inl AuthError)
      | AT_key \<Rightarrow>
          (case sc_key_path cfg of
             None \<Rightarrow> Inl AuthError
           | Some k \<Rightarrow> Inr (kw\<lparr>ck_client_keys := Some [k], ck_agent_path := None\<rparr>))
      | AT_sk \<Rightarrow>
          (case sc_key_path cfg of
             None \<Rightarrow> Inl AuthError
           | Some k \<Rightarrow> Inr (kw\<lparr>ck_client_keys := Some [k], ck_agent_path := None\<rparr>))
      | AT_password \<Rightarrow>
          (case sc_password_env cfg of
             None \<Rightarrow> Inl AuthError
           | Some v \<Rightarrow>
               (case environ v of
                  None \<Rightarrow> Inl AuthError
                | Some pw \<Rightarrow> Inr (kw\<lparr>ck_password := Some pw, ck_agent_path := None\<rparr>)))
      | AT_cert \<Rightarrow>
          (case (sc_key_path cfg, sc_cert_path cfg) of
             (Some k, Some c) \<Rightarrow>
               Inr (kw\<lparr>ck_client_keys := Some [k], ck_client_certs := Some [c], ck_agent_path := None\<rparr>)
           | _ \<Rightarrow> Inl AuthError)
      | AT_keyboard_interactive \<Rightarrow> Inr (kw\<lparr>ck_kbdint_handler := True, ck_agent_path := None\<rparr>)
      | AT_gssapi \<Rightarrow> Inr (kw\<lparr>ck_gss_host := Some (sc_host cfg), ck_agent_path := None\<rparr>))"

definition build_connect_kwargs ::
    "(string \<Rightarrow> pool \<Rightarrow> pool \<times> nat result) \<Rightarrow> pool_env \<Rightarrow> server_config \<Rightarrow> pool
      \<Rightarrow> pool \<times> connect_kwargs result" where
  "build_connect_kwargs get env cfg p =
     (case make_known_hosts_arg (pe_expanduser env) (pe_settings env) (pl_known_hosts p) cfg of
        Inl e \<Rightarrow> (p, Inl e)
      | Inr kh \<Rightarrow>
          (case auth_kwargs (pe_environ env) cfg (base_kwargs (pe_settings env) kh cfg) of
             Inl e \<Rightarrow> (p, Inl e)
           | Inr kw \<Rightarrow>
               (case sc_jump_host cfg of
                  None \<Rightarrow> (p, Inr kw)
                | Some j \<Rightarrow>
                    (case get j p of
                       (p', Inl e) \<Rightarrow> (p', Inl e)
                     | (p', Inr c) \<Rightarrow> (p', Inr (kw\<lparr>ck_tunnel := Some c\<rparr>))))))"

definition create_connection ::
    "pool_env \<Rightarrow> string \<Rightarrow> connect_kwargs \<Rightarrow> pool \<Rightarrow> pool \<times> (nat \<times> string option) result" where
  "create_connection env host kw p =
     (let n = length (pl_dialled p);
          p' = p\<lparr>pl_dialled := pl_dialled p @ [(host, kw)]\<rparr>
      in case pe_dial env n host kw of
           D_raise e \<Rightarrow> (p', Inl e)
         | D_ok key \<Rightarrow> (p'\<lparr>pl_live := n # pl_live p\<rparr>, Inr (n, key)))"

definition pool_connect ::
    "(string \<Rightarrow> pool \<Rightarrow> pool \<times> nat result) \<Rightarrow> pool_env \<Rightarrow> string \<Rightarrow> pool \<Rightarrow> pool \<times> nat result" where
  "pool_connect get env name p =
     (case pe_lookup env name of
        Inl e \<Rightarrow> (p, Inl e)
      | Inr cfg \<Rightarrow>
          (case build_connect_kwargs get env cfg p of
             (p1, Inl e) \<Rightarrow> (p1, Inl e)
           | (p1, Inr kw) \<Rightarrow>
               (case create_connection env (sc_host cfg) kw p1 of
                  (p2, Inl e) \<Rightarrow> (p2, Inl e)
                | (p2, Inr (c, key)) \<Rightarrow>
                    if effective_policy (pe_settings env) cfg \<in> {HK_tofu, HK_accept_new} then
                      (if pe_append_fails env c then (p2, Inl PyOSError)
                       else (p2\<lparr>pl_known_hosts := append_host_key (pl_known_hosts p2) (sc_host cfg) key\<rparr>,
                             Inr c))
                    else (p2, Inr c))))"

subsection \<open>Operations\<close>

text \<open>The \<open>except\<close> clauses of \<open>get_connection\<close>.\<close>

definition connect_failed :: "string \<Rightarrow> py_exn \<Rightarrow> pool \<Rightarrow> pool \<times> nat result" where
  "connect_failed name e p =
     (if e \<in> {AuthError, HostKeyError, ServerNotFound} then (set_status name CS_disconnected p, Inl e)
      else if e = AsyncsshDisconnectError then (set_status name CS_disconnected p, Inl SshConnectionError)
      else if is_OSError e then (set_status name CS_disconnected p, Inl SshConnectionError)
      else (p, Inl e))"

definition reconnect ::
    "(string \<Rightarrow> pool \<Rightarrow> pool \<times> nat result) \<Rightarrow> pool_env \<Rightarrow> string \<Rightarrow> pool \<Rightarrow> pool \<times> nat result" where
  "reconnect get env name p =
     (case pool_connect get env name (set_status name CS_connecting p) of
        (p', Inl e) \<Rightarrow> connect_failed name e p'
      | (p', Inr conn) \<Rightarrow>
          (set_status name CS_connected (set_connection name (Some conn) p'), Inr conn))"

text \<open>The open connection of a slot: connected, and \<open>is_closed()\<close> false.\<close>

definition open_connection :: "pool \<Rightarrow> conn_entry \<Rightarrow> nat option" where
  "open_connection p en =
     (if en_status en = CS_connected then
        (case en_connection en of
           Some c \<Rightarrow> if c \<in> set (pl_live p) then Some c else None
         | None \<Rightarrow> None)
      else None)"

fun get_connection :: "nat \<Rightarrow> pool_env \<Rightarrow> string \<Rightarrow> pool \<Rightarrow> pool \<times> nat result" where
  "get_connection 0 env name p = (p, Inl PyRecursionError)"
| "get_connection (Suc depth) env name p =
     (case pe_lookup env name of
        Inl e \<Rightarrow> (p, Inl e)
      | Inr _ \<Rightarrow>
          let (p1, entry) = pool_entry name p
          in (case open_connection p1 entry of
                Some c \<Rightarrow> (p1, Inr c)
              | None \<Rightarrow> reconnect (\<lambda>j q. get_connection depth env j q) env name p1))"

definition pool_pin :: "string \<Rightarrow> pool \<Rightarrow> pool" where
  "pool_pin name p = p\<lparr>pl_pinned := List.insert name (pl_pinned p)\<rparr>"

definition pool_unpin :: "string \<Rightarrow> pool \<Rightarrow> pool" where
  "pool_unpin name p = p\<lparr>pl_pinned := removeAll name (pl_pinned p)\<rparr>"

definition pool_close :: "string \<Rightarrow> pool \<Rightarrow> pool" where
  "pool_close name p =
     (if name \<in> set (pl_pinned p) then p
      else
        (case map_of (pl_entries p) name of
           None \<Rightarrow> p
         | Some entry \<Rightarrow>
             let p1 = (case en_connection entry of
                         None \<Rightarrow> p
                       | Some c \<Rightarrow> p\<lparr>pl_live := removeAll c (pl_live p)\<rparr>)
             in set_status name CS_disconnected (set_connection name None p1)))"

definition pool_close_all :: "pool \<Rightarrow> pool" where
  "pool_close_all p = fold pool_close (map fst (pl_entries p)) p"

definition pool_get_status :: "pool_env \<Rightarrow> string \<Rightarrow> pool \<Rightarrow> connection_status result" where
  "pool_get_status env name p =
     (case map_of (pl_entries p) name of
        Some entry \<Rightarrow> Inr (en_status entry)
      | None \<Rightarrow> (case pe_lookup env name of Inl e \<Rightarrow> Inl e | Inr _ \<Rightarrow> Inr CS_disconnected))"

definition pool_on_close :: "string \<Rightarrow> pool \<Rightarrow> pool" where
  "pool_on_close name p =
     (if dict_has name (pl_entries p)
      then set_connection name None (set_status name CS_disconnected p) else p)"

text \<open>One step of a pool in use: an operation, a connection that dies, or the callback it causes.\<close>

inductive pool_step :: "nat \<Rightarrow> pool_env \<Rightarrow> pool \<Rightarrow> pool \<Rightarrow> bool" for limit env where
  step_get: "get_connection limit env name p = (p', res) \<Longrightarrow> pool_step limit env p p'"
| step_close: "pool_step limit env p (pool_close name p)"
| step_close_all: "pool_step limit env p (pool_close_all p)"
| step_pin: "pool_step limit env p (pool_pin name p)"
| step_unpin: "pool_step limit env p (pool_unpin name p)"
| step_dies: "pool_step limit env p (p\<lparr>pl_live := removeAll c (pl_live p)\<rparr>)"
| step_on_close: "pool_step limit env p (pool_on_close name p)"

inductive_cases pool_step_elim: "pool_step limit env p p'"

subsection \<open>Slots\<close>

definition slot :: "pool \<Rightarrow> string \<Rightarrow> conn_entry option" where
  "slot p name = map_of (pl_entries p) name"

lemma slot_set_status:
  "slot (set_status name st p) m =
     (if m = name then map_option (\<lambda>en. en\<lparr>en_status := st\<rparr>) (slot p name) else slot p m)"
  by (simp add: slot_def set_status_def split: option.split)

lemma slot_set_connection:
  "slot (set_connection name c p) m =
     (if m = name then map_option (\<lambda>en. en\<lparr>en_connection := c\<rparr>) (slot p name) else slot p m)"
  by (simp add: slot_def set_connection_def split: option.split)

lemma slot_pool_entry:
  "pool_entry name p = (p', en) \<Longrightarrow> slot p' m =
     (if m = name then Some en else slot p m) \<and> (slot p name = Some en \<or> slot p name = None \<and> en = ConnectionEntry)"
  by (auto simp: pool_entry_def slot_def split: option.splits)

lemma slot_other [simp]:
  "slot (p\<lparr>pl_pinned := ps\<rparr>) = slot p" "slot (p\<lparr>pl_known_hosts := kh\<rparr>) = slot p"
  "slot (p\<lparr>pl_dialled := ds\<rparr>) = slot p" "slot (p\<lparr>pl_live := ls\<rparr>) = slot p"
  by (simp_all add: slot_def fun_eq_iff)

lemma set_status_other [simp]:
  "pl_pinned (set_status n s p) = pl_pinned p" "pl_known_hosts (set_status n s p) = pl_known_hosts p"
  "pl_dialled (set_status n s p) = pl_dialled p" "pl_live (set_status n s p) = pl_live p"
  by (simp_all add: set_status_def split: option.split)

lemma set_connection_other [simp]:
  "pl_pinned (set_connection n c p) = pl_pinned p" "pl_known_hosts (set_connection n c p) = pl_known_hosts p"
  "pl_dialled (set_connection n c p) = pl_dialled p" "pl_live (set_connection n c p) = pl_live p"
  by (simp_all add: set_connection_def split: option.split)

lemma pool_entry_other:
  "pool_entry name p = (p', en) \<Longrightarrow> pl_pinned p' = pl_pinned p \<and> pl_known_hosts p' = pl_known_hosts p
     \<and> pl_dialled p' = pl_dialled p \<and> pl_live p' = pl_live p"
  by (auto simp: pool_entry_def split: option.splits)

lemma connect_failed_cases:
  assumes "connect_failed name e p = (p', res)"
  obtains (reset) "p' = set_status name CS_disconnected p" "res = Inl e \<or> res = Inl SshConnectionError"
      "e \<in> {AuthError, HostKeyError, ServerNotFound, AsyncsshDisconnectError} \<or> is_OSError e"
  | (passed) "p' = p" "res = Inl e" "e \<notin> {AuthError, HostKeyError, ServerNotFound, AsyncsshDisconnectError}"
      "\<not> is_OSError e"
  using assms unfolding connect_failed_def by (auto split: if_splits)

subsection \<open>What \<open>get_connection\<close> never does\<close>

text \<open>It forgets no slot, closes no connection, changes no pin, and only adds to the trace.\<close>

definition pool_grows :: "pool \<Rightarrow> pool \<Rightarrow> bool" where
  "pool_grows p p' \<longleftrightarrow> pl_pinned p' = pl_pinned p \<and> prefix (pl_dialled p) (pl_dialled p')
     \<and> set (pl_live p) \<subseteq> set (pl_live p')
     \<and> set (pl_live p') \<subseteq> set (pl_live p) \<union> {length (pl_dialled p)..<length (pl_dialled p')}
     \<and> (\<forall>n. slot p n \<noteq> None \<longrightarrow> slot p' n \<noteq> None)"

lemma pool_grows_refl [simp]: "pool_grows p p"
  by (simp add: pool_grows_def)

lemma pool_grows_trans [trans]:
  assumes "pool_grows p q" and "pool_grows q r"
  shows "pool_grows p r"
proof -
  have len: "length (pl_dialled p) \<le> length (pl_dialled q)" "length (pl_dialled q) \<le> length (pl_dialled r)"
    using assms by (auto simp: pool_grows_def prefix_length_le)
  have "set (pl_live r) \<subseteq> set (pl_live p) \<union> {length (pl_dialled p)..<length (pl_dialled r)}"
  proof
    fix c assume "c \<in> set (pl_live r)"
    then have "c \<in> set (pl_live q) \<or> c \<in> {length (pl_dialled q)..<length (pl_dialled r)}"
      using assms(2) by (auto simp: pool_grows_def)
    moreover have "c \<in> set (pl_live q) \<Longrightarrow> c \<in> set (pl_live p) \<or> c \<in> {length (pl_dialled p)..<length (pl_dialled q)}"
      using assms(1) by (auto simp: pool_grows_def)
    ultimately show "c \<in> set (pl_live p) \<union> {length (pl_dialled p)..<length (pl_dialled r)}"
      using len by auto
  qed
  with assms show ?thesis by (auto simp: pool_grows_def)
qed

lemma pool_grows_set [simp]:
  "pool_grows p (set_status n s p)" "pool_grows p (set_connection n c p)"
  "pool_grows p (p\<lparr>pl_known_hosts := kh\<rparr>)"
  by (simp_all add: pool_grows_def slot_set_status slot_set_connection)

lemma pool_entry_grows: "pool_entry name p = (p', en) \<Longrightarrow> pool_grows p p'"
  using slot_pool_entry [of name p p' en] pool_entry_other [of name p p' en]
  by (auto simp: pool_grows_def)

lemma connect_failed_grows: "connect_failed name e p = (p', res) \<Longrightarrow> pool_grows p p'"
  by (erule connect_failed_cases) simp_all

lemma create_connection_grows:
  assumes "create_connection env host kw p = (p', res)"
  shows "pool_grows p p' \<and> slot p' = slot p \<and> pl_dialled p' = pl_dialled p @ [(host, kw)]
    \<and> (\<forall>c key. res = Inr (c, key) \<longrightarrow> c = length (pl_dialled p) \<and> c \<in> set (pl_live p')
        \<and> pe_dial env c host kw = D_ok key)"
  using assms by (auto simp: create_connection_def Let_def pool_grows_def split: dial_outcome.splits)

lemma build_connect_kwargs_grows:
  assumes "\<And>j q q' r. get j q = (q', r) \<Longrightarrow> pool_grows q q'"
    and "build_connect_kwargs get env cfg p = (p', res)"
  shows "pool_grows p p'"
  using assms by (auto simp: build_connect_kwargs_def split: sum.splits option.splits prod.splits)

text \<open>A successful \<open>_connect\<close> ends with one more call, whose tunnel is what \<open>get\<close> gave for the jump host.\<close>

lemma pool_connect_success:
  assumes "pool_connect get env name p = (p', Inr c)"
  obtains cfg p1 kw p2 kh where "pe_lookup env name = Inr cfg"
    "build_connect_kwargs get env cfg p = (p1, Inr kw)"
    "create_connection env (sc_host cfg) kw p1 = (p2, Inr (c, kh))"
    "slot p' = slot p2" "pl_live p' = pl_live p2" "pl_dialled p' = pl_dialled p2"
    "pl_pinned p' = pl_pinned p2"
    "effective_policy (pe_settings env) cfg \<in> {HK_tofu, HK_accept_new} \<longrightarrow>
       pl_known_hosts p' = append_host_key (pl_known_hosts p2) (sc_host cfg) kh"
  using assms unfolding pool_connect_def
  by (auto split: sum.splits prod.splits if_splits)

lemma pool_connect_grows:
  assumes "\<And>j q q' r. get j q = (q', r) \<Longrightarrow> pool_grows q q'"
    and "pool_connect get env name p = (p', res)"
  shows "pool_grows p p'"
proof (cases "pe_lookup env name")
  case (Inl e)
  with assms(2) show ?thesis by (simp add: pool_connect_def)
next
  case (Inr cfg)
  obtain p1 r1 where b: "build_connect_kwargs get env cfg p = (p1, r1)" by (rule prod.exhaust)
  have g1: "pool_grows p p1" by (rule build_connect_kwargs_grows [OF assms(1) b])
  show ?thesis
  proof (cases r1)
    case (Inl e)
    with assms(2) Inr b g1 show ?thesis by (simp add: pool_connect_def)
  next
    case kw: (Inr kw)
    obtain p2 r2 where c: "create_connection env (sc_host cfg) kw p1 = (p2, r2)" by (rule prod.exhaust)
    have g2: "pool_grows p p2" using pool_grows_trans [OF g1] create_connection_grows [OF c] by blast
    then have "pool_grows p (p2\<lparr>pl_known_hosts := kh\<rparr>)" for kh
      using pool_grows_set(3) pool_grows_trans by blast
    with assms(2) Inr b kw c g2 show ?thesis
      by (auto simp: pool_connect_def split: sum.splits if_splits)
  qed
qed

lemma reconnect_grows:
  assumes "\<And>j q q' r. get j q = (q', r) \<Longrightarrow> pool_grows q q'"
    and "reconnect get env name p = (p', res)"
  shows "pool_grows p p'"
proof -
  obtain p1 r where c: "pool_connect get env name (set_status name CS_connecting p) = (p1, r)"
    by (rule prod.exhaust)
  have g: "pool_grows p p1"
    using pool_grows_trans [OF pool_grows_set(1) pool_connect_grows [OF assms(1) c]] .
  show ?thesis
  proof (cases r)
    case (Inl e)
    then have "connect_failed name e p1 = (p', res)" using assms(2) c by (simp add: reconnect_def)
    from pool_grows_trans [OF g connect_failed_grows [OF this]] show ?thesis .
  next
    case (Inr conn)
    then have "p' = set_status name CS_connected (set_connection name (Some conn) p1)"
      using assms(2) c by (simp add: reconnect_def)
    then show ?thesis using g pool_grows_set pool_grows_trans by metis
  qed
qed

lemma get_connection_grows: "get_connection d env name p = (p', res) \<Longrightarrow> pool_grows p p'"
proof (induction d arbitrary: name p p' res)
  case 0
  then show ?case by simp
next
  case (Suc d)
  obtain p1 en where e: "pool_entry name p = (p1, en)" by (rule prod.exhaust)
  note g = pool_entry_grows [OF e]
  show ?case
  proof (cases "pe_lookup env name")
    case (Inl x)
    with Suc.prems show ?thesis by simp
  next
    case (Inr cfg)
    show ?thesis
    proof (cases "open_connection p1 en")
      case None
      then have "reconnect (\<lambda>j q. get_connection d env j q) env name p1 = (p', res)"
        using Suc.prems Inr e by simp
      from reconnect_grows [OF _ this] Suc.IH have "pool_grows p1 p'" by blast
      with g show ?thesis by (rule pool_grows_trans)
    next
      case (Some c)
      with Suc.prems Inr e g show ?thesis by simp
    qed
  qed
qed

subsection \<open>What a successful \<open>get_connection\<close> gives\<close>

definition holds_open :: "pool \<Rightarrow> string \<Rightarrow> nat \<Rightarrow> bool" where
  "holds_open p name c \<longleftrightarrow>
     slot p name = Some \<lparr>en_connection = Some c, en_status = CS_connected\<rparr> \<and> c \<in> set (pl_live p)"

lemma open_connection_holds:
  "open_connection p en = Some c \<Longrightarrow> slot p name = Some en \<Longrightarrow> holds_open p name c"
  by (auto simp: open_connection_def holds_open_def split: if_splits option.splits)

lemma get_connection_cases:
  assumes "get_connection d env name p = (p', Inr c)"
  obtains (reused) "slot p' = slot p" "pl_live p' = pl_live p" "pl_dialled p' = pl_dialled p"
      "holds_open p' name c"
  | (dialled) k p0 p1 where "d = Suc k" "pool_grows p p0" "slot p0 name \<noteq> None"
      "pool_connect (\<lambda>j q. get_connection k env j q) env name p0 = (p1, Inr c)"
      "p' = set_status name CS_connected (set_connection name (Some c) p1)"
      "slot p1 name \<noteq> None" "pool_grows p0 p1"
proof -
  from assms obtain k cfg where d: "d = Suc k" and l: "pe_lookup env name = Inr cfg"
    by (cases d; cases "pe_lookup env name") auto
  obtain p1 en where e: "pool_entry name p = (p1, en)" by (rule prod.exhaust)
  note sl = slot_pool_entry [OF e]
  show thesis
  proof (cases "open_connection p1 en")
    case (Some c')
    with assms d l e have p: "p' = p1" "c' = c" by simp_all
    with Some have h: "holds_open p' name c" using open_connection_holds sl by auto
    with Some p have "en \<noteq> ConnectionEntry" by (auto simp: open_connection_def ConnectionEntry_def split: if_splits)
    with sl p have "slot p' = slot p" by auto
    with h p pool_entry_other [OF e] show thesis by (intro reused) simp_all
  next
    case None
    let ?p0 = "set_status name CS_connecting p1"
    obtain q r where c: "pool_connect (\<lambda>j q. get_connection k env j q) env name ?p0 = (q, r)"
      by (rule prod.exhaust)
    have rc: "reconnect (\<lambda>j q. get_connection k env j q) env name p1 = (p', Inr c)"
      using assms d l e None by simp
    then have r: "r = Inr c" "p' = set_status name CS_connected (set_connection name (Some c) q)"
      using c by (auto simp: reconnect_def connect_failed_def split: sum.splits if_splits)
    have g: "pool_grows ?p0 q" using pool_connect_grows [OF get_connection_grows c] .
    have s0: "slot ?p0 name \<noteq> None" using sl by (simp add: slot_set_status)
    moreover from this have "slot q name \<noteq> None" using g by (auto simp: pool_grows_def)
    moreover have "pool_grows p ?p0" using pool_entry_grows [OF e] pool_grows_set(1) pool_grows_trans by blast
    ultimately show thesis using dialled d c r g by blast
  qed
qed

lemma get_connection_holds:
  assumes "get_connection d env name p = (p', Inr c)"
  shows "holds_open p' name c"
  using assms
proof (cases rule: get_connection_cases)
  case reused
  then show ?thesis by simp
next
  case (dialled k p0 p1)
  from dialled(4) have "c \<in> set (pl_live p1)"
  proof (cases rule: pool_connect_success)
    case (1 cfg q1 kw q2 kh)
    show ?thesis using create_connection_grows [OF 1(3)] 1(5) by metis
  qed
  with dialled(5,6) show ?thesis by (auto simp: holds_open_def slot_set_status slot_set_connection)
qed

lemma holds_open_reused:
  assumes "holds_open p name c" and "pe_lookup env name = Inr cfg"
  shows "get_connection (Suc d) env name p = (p, Inr c)"
  using assms
  by (simp add: holds_open_def slot_def pool_entry_def open_connection_def)

lemma get_connection_lookup:
  "get_connection d env name p = (p', Inr c) \<Longrightarrow> \<exists>cfg. pe_lookup env name = Inr cfg"
  by (cases d; cases "pe_lookup env name") auto

text \<open>C8: When \<open>get_connection\<close> returns, the server's slot is connected to the very connection it
  returns, that connection is not closed, and asking again, with any stack, returns it without a
  dial or any other change of the pool.\<close>

theorem get_connection_reused:
  assumes "get_connection d env name p = (p', Inr c)"
  shows "holds_open p' name c \<and> pool_get_status env name p' = Inr CS_connected
    \<and> get_connection (Suc d') env name p' = (p', Inr c)"
proof -
  have h: "holds_open p' name c" by (rule get_connection_holds [OF assms])
  obtain cfg where "pe_lookup env name = Inr cfg" using get_connection_lookup [OF assms] by blast
  from holds_open_reused [OF h this] h show ?thesis
    by (simp add: pool_get_status_def holds_open_def slot_def)
qed

text \<open>C9: A connection newly dialled for a server that has a jump host goes through the connection the
  pool holds for that jump host, to the configured host and port.\<close>

theorem get_connection_tunnelled:
  assumes "get_connection d env name p = (p', Inr c)" and "pl_dialled p' \<noteq> pl_dialled p"
    and "pe_lookup env name = Inr cfg" and "sc_jump_host cfg = Some j" and "j \<noteq> name"
  shows "\<exists>kw t. pl_dialled p' ! c = (sc_host cfg, kw) \<and> Suc c = length (pl_dialled p')
    \<and> ck_port kw = sc_port cfg \<and> ck_tunnel kw = Some t \<and> holds_open p' j t"
  using assms(1)
proof (cases rule: get_connection_cases)
  case reused
  with assms(2) show ?thesis by simp
next
  case (dialled k p0 p1)
  from dialled(4) show ?thesis
  proof (cases rule: pool_connect_success)
    case (1 cfg' q1 kw q2 kh)
    have cfg: "cfg' = cfg" using 1(1) assms(3) by simp
    from 1(2) assms(4) obtain t kw0 kha where get: "get_connection k env j p0 = (q1, Inr t)"
      and kw: "kw = kw0\<lparr>ck_tunnel := Some t\<rparr>"
      and au: "auth_kwargs (pe_environ env) cfg (base_kwargs (pe_settings env) kha cfg) = Inr kw0"
      unfolding build_connect_kwargs_def cfg by (auto split: sum.splits prod.splits)
    have port: "ck_port kw0 = sc_port cfg"
      using au by (auto simp: auth_kwargs_def base_kwargs_def
          split: auth_type.splits option.splits list.splits)
    note cr = create_connection_grows [OF 1(3)]
    have "holds_open q1 j t" by (rule get_connection_holds [OF get])
    moreover have "slot p' j = slot q1 j" using assms(5) dialled(5) 1(4) cr
      by (simp add: slot_set_status slot_set_connection)
    moreover have "set (pl_live q1) \<subseteq> set (pl_live p')"
      using cr dialled(5) 1(5) by (auto simp: pool_grows_def)
    ultimately have "holds_open p' j t" by (auto simp: holds_open_def)
    moreover have "pl_dialled p' = pl_dialled q1 @ [(sc_host cfg, kw)]" "c = length (pl_dialled q1)"
      using cr dialled(5) 1(6) cfg by auto
    ultimately show ?thesis using kw port by auto
  qed
qed

definition example_env :: pool_env where
  "example_env =
     \<lparr>pe_lookup = static_lookup (ac_servers example_config), pe_settings = GlobalSettings,
      pe_environ = (\<lambda>v. if v = ''SSH_AUTH_SOCK'' then Some ''/tmp/agent'' else None),
      pe_expanduser = (\<lambda>s. s), pe_dial = (\<lambda>n h kw. D_ok (Some ''ssh-rsa KEY'')),
      pe_append_fails = (\<lambda>n. False)\<rparr>"

definition key_env :: pool_env where
  "key_env = example_env\<lparr>pe_lookup := static_lookup
     [(''a'', (ServerConfig ''a'' ''h1'' ''root'' AT_gssapi)\<lparr>sc_jump_host := Some ''b''\<rparr>),
      (''b'', ServerConfig ''b'' ''h2'' ''root'' AT_agent)]\<rparr>"

abbreviation example_get :: "pool \<times> nat result" where
  "example_get \<equiv> get_connection 5 key_env ''a'' (ConnectionPool None)"

lemma example_get_ok: "snd example_get = Inr 1" "length (pl_dialled (fst example_get)) = 2"
  by code_simp+

lemma get_connection_reused_witness:
  "holds_open (fst example_get) ''a'' 1
   \<and> get_connection 3 key_env ''a'' (fst example_get) = (fst example_get, Inr 1)"
proof -
  have "example_get = (fst example_get, Inr 1)" using example_get_ok(1) by (metis prod.collapse)
  from get_connection_reused [OF this, of 2] show ?thesis by (simp add: numeral_3_eq_3 del: get_connection.simps)
qed

lemma get_connection_tunnelled_witness:
  "\<exists>kw t. pl_dialled (fst example_get) ! 1 = (''h1'', kw) \<and> ck_tunnel kw = Some t
     \<and> holds_open (fst example_get) ''b'' t"
proof -
  let ?cfg = "(ServerConfig ''a'' ''h1'' ''root'' AT_gssapi)\<lparr>sc_jump_host := Some ''b''\<rparr>"
  have e: "example_get = (fst example_get, Inr 1)" using example_get_ok(1) by (metis prod.collapse)
  have "pl_dialled (fst example_get) \<noteq> pl_dialled (ConnectionPool None)"
    using example_get_ok(2) by (auto simp: ConnectionPool_def)
  from get_connection_tunnelled [OF e this, of ?cfg "''b''"] show ?thesis
    by (auto simp: key_env_def static_lookup_def)
qed

subsection \<open>Jump chains and the stack\<close>

definition env_jump :: "pool_env \<Rightarrow> string \<Rightarrow> string option" where
  "env_jump env n = (case pe_lookup env n of Inl _ \<Rightarrow> None | Inr cfg \<Rightarrow> sc_jump_host cfg)"

lemma known_hosts_arg_error:
  "make_known_hosts_arg ex s text cfg = Inl e \<Longrightarrow> e = PyIndexError"
proof -
  have "host_in_lines h ls = Inl e \<Longrightarrow> e = PyIndexError" for h ls
    by (induction ls) (auto simp: Let_def host_token_def split: if_splits sum.splits list.splits)
  then show "make_known_hosts_arg ex s text cfg = Inl e \<Longrightarrow> e = PyIndexError"
    by (auto simp: make_known_hosts_arg_def is_host_known_def
        split: host_key_policy.splits option.splits sum.splits bool.splits)
qed

lemma auth_kwargs_error: "auth_kwargs environ cfg kw = Inl e \<Longrightarrow> e = AuthError"
  by (auto simp: auth_kwargs_def split: auth_type.splits option.splits list.splits prod.splits)

lemma build_connect_kwargs_error:
  assumes "build_connect_kwargs get env cfg p = (p', Inl e)"
  shows "e = PyIndexError \<or> e = AuthError \<or> (\<exists>j. sc_jump_host cfg = Some j \<and> get j p = (p', Inl e))"
proof (cases "make_known_hosts_arg (pe_expanduser env) (pe_settings env) (pl_known_hosts p) cfg")
  case (Inl x)
  with known_hosts_arg_error [OF Inl] assms show ?thesis by (simp add: build_connect_kwargs_def)
next
  case kh: (Inr kh)
  show ?thesis
  proof (cases "auth_kwargs (pe_environ env) cfg (base_kwargs (pe_settings env) kh cfg)")
    case (Inl x)
    with auth_kwargs_error [OF Inl] assms kh show ?thesis by (simp add: build_connect_kwargs_def)
  next
    case (Inr kw)
    with assms kh show ?thesis
      by (auto simp: build_connect_kwargs_def split: option.splits prod.splits sum.splits)
  qed
qed

lemma pool_connect_error:
  assumes "pool_connect get env name p = (p', Inl e)"
  shows "pe_lookup env name = Inl e \<or> e = PyIndexError \<or> e = AuthError \<or> e = PyOSError
    \<or> (\<exists>n h kw. pe_dial env n h kw = D_raise e)
    \<or> (\<exists>j p1. env_jump env name = Some j \<and> get j p = (p1, Inl e))"
proof (cases "pe_lookup env name")
  case (Inl x)
  with assms show ?thesis by (simp add: pool_connect_def)
next
  case (Inr cfg)
  obtain p1 r where b: "build_connect_kwargs get env cfg p = (p1, r)" by (rule prod.exhaust)
  show ?thesis
  proof (cases r)
    case (Inl x)
    with assms Inr b build_connect_kwargs_error [of get env cfg p p1 x] show ?thesis
      by (auto simp: pool_connect_def env_jump_def)
  next
    case kw: (Inr kw)
    obtain p2 r2 where c: "create_connection env (sc_host cfg) kw p1 = (p2, r2)" by (rule prod.exhaust)
    have "r2 = Inl x \<Longrightarrow> \<exists>n h kw. pe_dial env n h kw = D_raise x" for x
      using c by (auto simp: create_connection_def Let_def split: dial_outcome.splits)
    with assms Inr b kw c show ?thesis
      by (auto simp: pool_connect_def split: sum.splits if_splits)
  qed
qed

lemma reconnect_error:
  assumes "reconnect get env name p = (p', Inl e)" and "e \<noteq> SshConnectionError"
  shows "\<exists>q p1. pool_connect get env name q = (p1, Inl e)"
proof -
  obtain p1 r where c: "pool_connect get env name (set_status name CS_connecting p) = (p1, r)"
    by (rule prod.exhaust)
  with assms show ?thesis
    by (auto simp: reconnect_def connect_failed_def split: sum.splits if_splits)
qed

text \<open>C12: The jump chain of the server stops after \<open>n\<close> hosts: then a stack that admits \<open>n + 1\<close> nested
  calls is enough, \<open>get_connection\<close> never ends in a \<open>RecursionError\<close> (given that neither the
  lookup nor asyncssh raises one).\<close>

theorem get_connection_bounded:
  assumes "chain_ends (env_jump env) name n" and "n < d"
    and "\<And>m h kw. pe_dial env m h kw \<noteq> D_raise PyRecursionError"
    and "\<And>m. pe_lookup env m \<noteq> Inl PyRecursionError"
  shows "snd (get_connection d env name p) \<noteq> Inl PyRecursionError"
  using assms(1,2)
proof (induction d arbitrary: name n p)
  case 0
  then show ?case by simp
next
  case (Suc d)
  have IH: "snd (get_connection d env j q) \<noteq> Inl PyRecursionError" if "env_jump env name = Some j" for j q
  proof -
    from Suc.prems that obtain m where "n = Suc m" "chain_ends (env_jump env) j m" by (cases n) auto
    with Suc.IH Suc.prems(2) show ?thesis by simp
  qed
  have "snd (reconnect (\<lambda>j q. get_connection d env j q) env name q) \<noteq> Inl PyRecursionError" for q
  proof
    assume "snd (reconnect (\<lambda>j q. get_connection d env j q) env name q) = Inl PyRecursionError"
    then obtain q' where "reconnect (\<lambda>j q. get_connection d env j q) env name q = (q', Inl PyRecursionError)"
      by (metis prod.collapse)
    from reconnect_error [OF this] obtain q1 p1 where
      "pool_connect (\<lambda>j q. get_connection d env j q) env name q1 = (p1, Inl PyRecursionError)" by auto
    from pool_connect_error [OF this] assms(3,4) IH show False by (auto dest: arg_cong [of _ _ snd])
  qed
  then show ?case using assms(4) by (auto split: sum.split option.split prod.split)
qed

lemma get_connection_bounded_witness:
  "snd (get_connection 2 key_env ''a'' (ConnectionPool None)) \<noteq> Inl PyRecursionError"
proof (rule get_connection_bounded)
  show "chain_ends (env_jump key_env) ''a'' 1" by code_simp
  show "pe_dial key_env m h kw \<noteq> D_raise PyRecursionError" for m h kw
    by (simp add: key_env_def example_env_def)
  show "pe_lookup key_env m \<noteq> Inl PyRecursionError" for m
    by (simp add: key_env_def example_env_def static_lookup_def split: option.split)
qed simp

text \<open>The other half: on a chain that never stops, with no slot connected, any stack is used up.\<close>

definition env_ready :: "pool_env \<Rightarrow> string option \<Rightarrow> bool" where
  "env_ready env text \<longleftrightarrow> (\<forall>n cfg. pe_lookup env n = Inr cfg \<longrightarrow>
     (\<exists>kh. make_known_hosts_arg (pe_expanduser env) (pe_settings env) text cfg = Inr kh
       \<and> (\<exists>kw. auth_kwargs (pe_environ env) cfg (base_kwargs (pe_settings env) kh cfg) = Inr kw)))"

definition all_idle :: "pool \<Rightarrow> bool" where
  "all_idle p \<longleftrightarrow> (\<forall>n en. slot p n = Some en \<longrightarrow> en_status en \<noteq> CS_connected)"

definition keeps_connecting :: "pool \<Rightarrow> pool \<Rightarrow> bool" where
  "keeps_connecting p p' \<longleftrightarrow> all_idle p' \<and> pl_known_hosts p' = pl_known_hosts p
     \<and> pl_dialled p' = pl_dialled p
     \<and> (\<forall>n en. slot p n = Some en \<longrightarrow> en_status en = CS_connecting \<longrightarrow> slot p' n = Some en)"

lemma keeps_connecting_trans:
  "keeps_connecting p q \<Longrightarrow> keeps_connecting q r \<Longrightarrow> keeps_connecting p r"
  by (simp add: keeps_connecting_def)

lemma connecting_start:
  assumes "pool_entry name p = (p1, en)" and "all_idle p"
  shows "keeps_connecting p (set_status name CS_connecting p1)"
    and "open_connection p1 en = None"
    and "\<exists>en'. slot (set_status name CS_connecting p1) name = Some en' \<and> en_status en' = CS_connecting"
proof -
  have s: "slot p1 m = (if m = name then Some en else slot p m)" for m
    using slot_pool_entry [OF assms(1)] by simp
  have idle: "en_status en \<noteq> CS_connected"
    using slot_pool_entry [OF assms(1), of name] assms(2) by (auto simp: all_idle_def ConnectionEntry_def)
  then show "open_connection p1 en = None" by (simp add: open_connection_def)
  have old: "slot p name = None \<or> slot p name = Some en" using slot_pool_entry [OF assms(1)] by auto
  have "all_idle (set_status name CS_connecting p1)"
    using assms(2) s by (auto simp: all_idle_def slot_set_status)
  moreover have "slot (set_status name CS_connecting p1) n = Some e"
    if "slot p n = Some e" "en_status e = CS_connecting" for n e
    using that s old by (auto simp: slot_set_status)
  ultimately show "keeps_connecting p (set_status name CS_connecting p1)"
    using pool_entry_other [OF assms(1)] by (simp add: keeps_connecting_def)
  show "\<exists>en'. slot (set_status name CS_connecting p1) name = Some en' \<and> en_status en' = CS_connecting"
    using s by (simp add: slot_set_status)
qed

lemma get_connection_overflow:
  assumes "\<And>k. chain_at (env_jump env) name k \<noteq> None" and "env_ready env (pl_known_hosts p)"
    and "all_idle p"
  shows "\<exists>p'. get_connection d env name p = (p', Inl PyRecursionError) \<and> keeps_connecting p p'
    \<and> (0 < d \<longrightarrow> (\<exists>en. slot p' name = Some en \<and> en_status en = CS_connecting))"
  using assms
proof (induction d arbitrary: name p)
  case 0
  then show ?case by (simp add: keeps_connecting_def)
next
  case (Suc d)
  have "chain_at (env_jump env) name (Suc 0) \<noteq> None" using Suc.prems(1) .
  then obtain cfg j where l: "pe_lookup env name = Inr cfg" and j: "sc_jump_host cfg = Some j"
    and ej: "env_jump env name = Some j"
    by (auto simp: env_jump_def split: option.splits sum.splits)
  have chain: "chain_at (env_jump env) j k \<noteq> None" for k
    using Suc.prems(1) [of "Suc k"] ej by simp
  obtain p1 en where e: "pool_entry name p = (p1, en)" by (rule prod.exhaust)
  let ?p2 = "set_status name CS_connecting p1"
  note st = connecting_start [OF e Suc.prems(3)]
  have kh2: "pl_known_hosts ?p2 = pl_known_hosts p" and idle2: "all_idle ?p2"
    using st(1) by (simp_all add: keeps_connecting_def)
  from Suc.IH [of j ?p2] chain Suc.prems(2) kh2 idle2 obtain p3 where
    g: "get_connection d env j ?p2 = (p3, Inl PyRecursionError)" and k: "keeps_connecting ?p2 p3"
    by auto
  obtain kh kw where kw: "make_known_hosts_arg (pe_expanduser env) (pe_settings env) (pl_known_hosts ?p2) cfg = Inr kh"
      "auth_kwargs (pe_environ env) cfg (base_kwargs (pe_settings env) kh cfg) = Inr kw"
    using Suc.prems(2) l kh2 unfolding env_ready_def by metis
  have "pool_connect (\<lambda>j q. get_connection d env j q) env name ?p2 = (p3, Inl PyRecursionError)"
    using l j kw g by (simp add: pool_connect_def build_connect_kwargs_def)
  then have "get_connection (Suc d) env name p = (p3, Inl PyRecursionError)"
    using l e st(2) by (simp add: reconnect_def connect_failed_def)
  moreover have "keeps_connecting p p3" using st(1) k by (rule keeps_connecting_trans)
  moreover have "\<exists>en. slot p3 name = Some en \<and> en_status en = CS_connecting"
    using st(3) k by (auto simp: keeps_connecting_def)
  ultimately show ?case by blast
qed

text \<open>On a cyclic jump chain (which \<open>Registry.add\<close> accepts) with no slot connected, no stack is
  large enough: \<open>get_connection\<close> ends in a \<open>RecursionError\<close> without dialling, and the server's
  status is left at \<open>connecting\<close>.\<close>

theorem cyclic_jump_overflows:
  assumes "\<forall>k. chain_at (env_jump env) name k \<noteq> None" and "env_ready env (pl_known_hosts p)"
    and "all_idle p" and "0 < d"
  shows "\<exists>p'. get_connection d env name p = (p', Inl PyRecursionError) \<and> pl_dialled p' = pl_dialled p
    \<and> pool_get_status env name p' = Inr CS_connecting"
proof -
  have "chain_at (env_jump env) name k \<noteq> None" for k using assms(1) by blast
  from get_connection_overflow [OF this assms(2,3), of d] assms(4) show ?thesis
    by (auto simp: keeps_connecting_def pool_get_status_def slot_def)
qed

definition self_env :: pool_env where
  "self_env = example_env\<lparr>pe_lookup := static_lookup
     [(''s'', (ServerConfig ''s'' ''h'' ''root'' AT_agent)\<lparr>sc_jump_host := Some ''s''\<rparr>)]\<rparr>"

lemma cyclic_jump_overflows_witness:
  "\<exists>p'. get_connection 1000 self_env ''s'' (ConnectionPool None) = (p', Inl PyRecursionError)
     \<and> pool_get_status self_env ''s'' p' = Inr CS_connecting"
proof -
  have "env_jump self_env ''s'' = Some ''s''" by code_simp
  then have chain: "\<forall>k. chain_at (env_jump self_env) ''s'' k \<noteq> None"
    using periodic_never_ends [of "env_jump self_env" "''s''" 0] by simp
  have "env_ready self_env (pl_known_hosts (ConnectionPool None))"
    by (auto simp: env_ready_def self_env_def example_env_def static_lookup_def ConnectionPool_def
        make_known_hosts_arg_def is_host_known_def effective_policy_def ServerConfig_def
        GlobalSettings_def auth_kwargs_def)
  moreover have "all_idle (ConnectionPool None)" by (simp add: all_idle_def ConnectionPool_def slot_def)
  ultimately show ?thesis using cyclic_jump_overflows [OF chain, of "ConnectionPool None" 1000] by auto
qed

text \<open>The error of a jump host is not among those \<open>get_connection\<close> resets the status for: when the
  jump host cannot be reached, the caller gets the \<open>ConnectionError\<close>, but the server behind it is
  reported as \<open>connecting\<close> from then on.\<close>

theorem unreachable_jump_host_sticks:
  assumes "pe_lookup env name = Inr cfg" and "sc_jump_host cfg = Some j" and "j \<noteq> name"
    and "pe_lookup env j = Inr jcfg" and "sc_jump_host jcfg = None"
    and "env_ready env (pl_known_hosts p)" and "all_idle p"
    and "\<And>n h kw. pe_dial env n h kw = D_raise PyOSError"
  shows "\<exists>p'. get_connection (Suc (Suc d)) env name p = (p', Inl SshConnectionError)
    \<and> pool_get_status env name p' = Inr CS_connecting"
proof -
  obtain p1 en where e: "pool_entry name p = (p1, en)" by (rule prod.exhaust)
  let ?p2 = "set_status name CS_connecting p1"
  note st = connecting_start [OF e assms(7)]
  have k2: "pl_known_hosts ?p2 = pl_known_hosts p" "all_idle ?p2"
    using st(1) by (simp_all add: keeps_connecting_def)
  obtain p3 en3 where e3: "pool_entry j ?p2 = (p3, en3)" by (rule prod.exhaust)
  let ?p4 = "set_status j CS_connecting p3"
  note st3 = connecting_start [OF e3 k2(2)]
  have k4: "pl_known_hosts ?p4 = pl_known_hosts p" using st3(1) k2(1) by (simp add: keeps_connecting_def)
  have kw: "\<exists>kh kw. make_known_hosts_arg (pe_expanduser env) (pe_settings env) (pl_known_hosts p) c = Inr kh
      \<and> auth_kwargs (pe_environ env) c (base_kwargs (pe_settings env) kh c) = Inr kw"
    if "pe_lookup env n = Inr c" for n c
    using assms(6) that unfolding env_ready_def by blast
  obtain kh kwj where kwj: "make_known_hosts_arg (pe_expanduser env) (pe_settings env) (pl_known_hosts p) jcfg = Inr kh"
      "auth_kwargs (pe_environ env) jcfg (base_kwargs (pe_settings env) kh jcfg) = Inr kwj"
    using kw [OF assms(4)] by blast
  obtain kh' kwn where kwn: "make_known_hosts_arg (pe_expanduser env) (pe_settings env) (pl_known_hosts p) cfg = Inr kh'"
      "auth_kwargs (pe_environ env) cfg (base_kwargs (pe_settings env) kh' cfg) = Inr kwn"
    using kw [OF assms(1)] by blast
  let ?p5 = "?p4\<lparr>pl_dialled := pl_dialled ?p4 @ [(sc_host jcfg, kwj)]\<rparr>"
  have "pool_connect (\<lambda>i q. get_connection d env i q) env j ?p4 = (?p5, Inl PyOSError)"
    using assms(4,5,8) kwj k4 by (simp add: pool_connect_def build_connect_kwargs_def create_connection_def)
  then have gj: "get_connection (Suc d) env j ?p2 = (set_status j CS_disconnected ?p5, Inl SshConnectionError)"
    using assms(4) e3 st3(2) by (simp add: reconnect_def connect_failed_def)
  have "pool_connect (\<lambda>i q. get_connection (Suc d) env i q) env name ?p2
      = (set_status j CS_disconnected ?p5, Inl SshConnectionError)"
    using assms(1,2) kwn k2(1) gj by (simp add: pool_connect_def build_connect_kwargs_def del: get_connection.simps)
  then have "get_connection (Suc (Suc d)) env name p
      = (set_status j CS_disconnected ?p5, Inl SshConnectionError)"
    using assms(1) e st(2)
    by (simp add: get_connection.simps(2) [of "Suc d"] reconnect_def connect_failed_def del: get_connection.simps)
  moreover obtain en' where "slot ?p2 name = Some en'" "en_status en' = CS_connecting" using st(3) by blast
  then have conn: "slot ?p4 name = Some en'" "en_status en' = CS_connecting"
    using st3(1) unfolding keeps_connecting_def by blast+
  then have "slot (set_status j CS_disconnected ?p5) name = Some en'" "en_status en' = CS_connecting"
    using conn assms(3) by (simp_all add: slot_set_status)
  ultimately show ?thesis by (auto simp: pool_get_status_def slot_def)
qed

definition down_env :: pool_env where
  "down_env = key_env\<lparr>pe_dial := (\<lambda>n h kw. D_raise PyOSError)\<rparr>"

lemma unreachable_jump_host_sticks_witness:
  "\<exists>p'. get_connection 9 down_env ''a'' (ConnectionPool None) = (p', Inl SshConnectionError)
     \<and> pool_get_status down_env ''a'' p' = Inr CS_connecting"
proof -
  let ?a = "(ServerConfig ''a'' ''h1'' ''root'' AT_gssapi)\<lparr>sc_jump_host := Some ''b''\<rparr>"
  let ?b = "ServerConfig ''b'' ''h2'' ''root'' AT_agent"
  have l: "pe_lookup down_env ''a'' = Inr ?a" "pe_lookup down_env ''b'' = Inr ?b"
    by (simp_all add: down_env_def key_env_def static_lookup_def)
  have "env_ready down_env (pl_known_hosts (ConnectionPool None))"
    by (auto simp: env_ready_def down_env_def key_env_def example_env_def static_lookup_def
        ConnectionPool_def make_known_hosts_arg_def is_host_known_def effective_policy_def
        ServerConfig_def GlobalSettings_def auth_kwargs_def)
  moreover have "all_idle (ConnectionPool None)" by (simp add: all_idle_def ConnectionPool_def slot_def)
  moreover have "pe_dial down_env n h kw = D_raise PyOSError" for n h kw by (simp add: down_env_def)
  ultimately show ?thesis
    using unreachable_jump_host_sticks [OF l(1) _ _ l(2), of "ConnectionPool None" 7]
    by (simp add: numeral_eq_Suc del: get_connection.simps)
qed

subsection \<open>The invariant of the pool\<close>

text \<open>
  A connected slot holds a connection, connections were dialled, and no two slots share one, so
  that closing one server cannot cut another.
\<close>

definition pool_ok :: "pool \<Rightarrow> bool" where
  "pool_ok p \<longleftrightarrow> dict_ok (pl_entries p) \<and> (\<forall>c \<in> set (pl_live p). c < length (pl_dialled p))
     \<and> (\<forall>n en. slot p n = Some en \<longrightarrow>
          (en_status en = CS_connected \<longrightarrow> en_connection en \<noteq> None)
          \<and> (\<forall>c. en_connection en = Some c \<longrightarrow> c < length (pl_dialled p)))
     \<and> (\<forall>n m en en' c. slot p n = Some en \<longrightarrow> slot p m = Some en' \<longrightarrow> en_connection en = Some c
          \<longrightarrow> en_connection en' = Some c \<longrightarrow> n = m)"

text \<open>An update of one slot, or of nothing, that is safe for the invariant.\<close>

lemma pool_ok_update:
  assumes "pool_ok p" and "dict_ok (pl_entries p')"
    and "\<And>m. m \<noteq> name \<Longrightarrow> slot p' m = slot p m"
    and "\<And>en. slot p' name = Some en \<Longrightarrow>
      (en_status en = CS_connected \<longrightarrow> en_connection en \<noteq> None)
      \<and> (\<forall>c. en_connection en = Some c \<longrightarrow> c < length (pl_dialled p')
          \<and> ((\<exists>en0. slot p name = Some en0 \<and> en_connection en0 = Some c)
             \<or> (\<forall>m en0. m \<noteq> name \<longrightarrow> slot p m = Some en0 \<longrightarrow> en_connection en0 \<noteq> Some c)))"
    and "length (pl_dialled p) \<le> length (pl_dialled p')"
    and "\<forall>c \<in> set (pl_live p'). c < length (pl_dialled p')"
  shows "pool_ok p'"
  unfolding pool_ok_def
proof (intro conjI allI impI)
  show "dict_ok (pl_entries p')" by (rule assms(2))
  show "\<forall>c \<in> set (pl_live p'). c < length (pl_dialled p')" by (rule assms(6))
next
  fix n en assume s: "slot p' n = Some en"
  show "en_status en = CS_connected \<Longrightarrow> en_connection en \<noteq> None"
    using s assms(1,3,4) unfolding pool_ok_def by (cases "n = name") auto
  fix c assume "en_connection en = Some c"
  with s show "c < length (pl_dialled p')"
    using assms(1,3,4,5) unfolding pool_ok_def by (cases "n = name") (auto, fastforce)
next
  fix n m en en' c
  assume s: "slot p' n = Some en" "slot p' m = Some en'" "en_connection en = Some c" "en_connection en' = Some c"
  have uniq: "slot p i = Some x \<Longrightarrow> slot p j = Some y \<Longrightarrow> en_connection x = Some c
      \<Longrightarrow> en_connection y = Some c \<Longrightarrow> i = j" for i j x y
    using assms(1) unfolding pool_ok_def by blast
  have mixed: "\<not> (slot p' name = Some x \<and> i \<noteq> name \<and> slot p' i = Some y \<and> en_connection x = Some c
      \<and> en_connection y = Some c)" for i x y
    using assms(3) [of i] assms(4) [of x] uniq [of name _ i y] by auto
  show "n = m"
    using s uniq mixed assms(3) by (cases "n = name"; cases "m = name") metis+
qed

lemma dict_ok_slots [simp]:
  "dict_ok (pl_entries p) \<Longrightarrow> dict_ok (pl_entries (set_status n s p))"
  "dict_ok (pl_entries p) \<Longrightarrow> dict_ok (pl_entries (set_connection n c p))"
  by (simp_all add: set_status_def set_connection_def split: option.split)

lemma pool_ok_parts:
  "pool_ok p \<Longrightarrow> dict_ok (pl_entries p)"
  "pool_ok p \<Longrightarrow> c \<in> set (pl_live p) \<Longrightarrow> c < length (pl_dialled p)"
  "pool_ok p \<Longrightarrow> slot p n = Some en \<Longrightarrow> en_connection en = Some c \<Longrightarrow> c < length (pl_dialled p)"
  "pool_ok p \<Longrightarrow> slot p n = Some en \<Longrightarrow> en_status en = CS_connected \<Longrightarrow> en_connection en \<noteq> None"
  "pool_ok p \<Longrightarrow> slot p n = Some en \<Longrightarrow> slot p m = Some en' \<Longrightarrow> en_connection en = Some c
     \<Longrightarrow> en_connection en' = Some c \<Longrightarrow> n = m"
  unfolding pool_ok_def by blast+

lemma pool_ok_set_status [inv_intros]:
  assumes "pool_ok p" and "s \<noteq> CS_connected"
  shows "pool_ok (set_status name s p)"
  by (rule pool_ok_update [OF assms(1), where name = name])
    (use assms pool_ok_parts [OF assms(1)] in \<open>auto simp: slot_set_status\<close>)

lemma pool_ok_disconnect [inv_intros]:
  assumes "pool_ok p" and "s \<noteq> CS_connected"
  shows "pool_ok (set_status name s (set_connection name None p))"
  by (rule pool_ok_update [OF assms(1), where name = name])
    (use assms pool_ok_parts [OF assms(1)] in \<open>auto simp: slot_set_status slot_set_connection\<close>)

lemma set_slot_commute:
  "set_connection n c (set_status n s p) = set_status n s (set_connection n c p)"
proof (cases "map_of (pl_entries p) n")
  case None
  then show ?thesis by (simp add: set_connection_def set_status_def)
next
  case (Some en)
  then show ?thesis by (cases en) (simp add: set_connection_def set_status_def)
qed

lemma pool_ok_on_close [inv_intros]: "pool_ok p \<Longrightarrow> pool_ok (pool_on_close name p)"
  using pool_ok_disconnect [of p CS_disconnected name]
  by (simp add: pool_on_close_def set_slot_commute)

lemma pool_ok_entry:
  assumes "pool_ok p" and "pool_entry name p = (p', en)"
  shows "pool_ok p'"
proof (rule pool_ok_update [OF assms(1), where name = name])
  show "dict_ok (pl_entries p')"
    using assms pool_ok_parts(1) by (auto simp: pool_entry_def split: option.splits)
  have old: "slot p name = Some en \<or> slot p name = None \<and> en = ConnectionEntry"
    using slot_pool_entry [OF assms(2), of name] by simp
  show "(en_status e = CS_connected \<longrightarrow> en_connection e \<noteq> None) \<and>
      (\<forall>c. en_connection e = Some c \<longrightarrow> c < length (pl_dialled p')
        \<and> ((\<exists>en0. slot p name = Some en0 \<and> en_connection en0 = Some c)
          \<or> (\<forall>m en0. m \<noteq> name \<longrightarrow> slot p m = Some en0 \<longrightarrow> en_connection en0 \<noteq> Some c)))"
    if "slot p' name = Some e" for e
    using that old slot_pool_entry [OF assms(2), of name] pool_entry_other [OF assms(2)]
      pool_ok_parts(3,4) [OF assms(1)] by (auto simp: ConnectionEntry_def)
qed (use slot_pool_entry [OF assms(2)] pool_entry_other [OF assms(2)] pool_ok_parts(1,2) [OF assms(1)]
    in auto)

lemma pool_ok_trace:
  assumes "pool_ok p" and "pl_entries p' = pl_entries p"
    and "length (pl_dialled p) \<le> length (pl_dialled p')"
    and "\<forall>c \<in> set (pl_live p'). c < length (pl_dialled p')"
  shows "pool_ok p'"
proof (rule pool_ok_update [OF assms(1), where name = undefined])
  have s: "slot p' = slot p" using assms(2) by (simp add: slot_def fun_eq_iff)
  then show "slot p' m = slot p m" for m by simp
  show "(en_status en = CS_connected \<longrightarrow> en_connection en \<noteq> None) \<and>
      (\<forall>c. en_connection en = Some c \<longrightarrow> c < length (pl_dialled p')
        \<and> ((\<exists>en0. slot p undefined = Some en0 \<and> en_connection en0 = Some c)
          \<or> (\<forall>m en0. m \<noteq> undefined \<longrightarrow> slot p m = Some en0 \<longrightarrow> en_connection en0 \<noteq> Some c)))"
    if "slot p' undefined = Some en" for en
    using that s assms(3) pool_ok_parts(3,4) [OF assms(1)] by fastforce
qed (use assms pool_ok_parts(1) in auto)

lemma pool_ok_connect:
  assumes "\<And>j q q' r. get j q = (q', r) \<Longrightarrow> pool_ok q \<Longrightarrow> pool_ok q'"
    and "pool_connect get env name p = (p', res)" and "pool_ok p"
  shows "pool_ok p'
    \<and> (\<forall>c. res = Inr c \<longrightarrow> c < length (pl_dialled p')
        \<and> (\<forall>m en. slot p' m = Some en \<longrightarrow> en_connection en \<noteq> Some c))"
proof (cases "pe_lookup env name")
  case (Inl e)
  with assms(2,3) show ?thesis by (auto simp: pool_connect_def)
next
  case (Inr cfg)
  obtain p1 r1 where b: "build_connect_kwargs get env cfg p = (p1, r1)" by (rule prod.exhaust)
  have ok1: "pool_ok p1"
    using b assms(1) [of _ p] assms(3)
    by (auto simp: build_connect_kwargs_def split: sum.splits option.splits prod.splits)
  show ?thesis
  proof (cases r1)
    case (Inl e)
    with assms(2) Inr b ok1 show ?thesis by (auto simp: pool_connect_def)
  next
    case kw: (Inr kw)
    obtain p2 r2 where c: "create_connection env (sc_host cfg) kw p1 = (p2, r2)" by (rule prod.exhaust)
    have live: "\<forall>c \<in> set (pl_live p2). c < length (pl_dialled p2)" and ent: "pl_entries p2 = pl_entries p1"
      using c pool_ok_parts(2) [OF ok1]
      by (auto simp: create_connection_def Let_def less_Suc_eq split: dial_outcome.splits)
    note cr = create_connection_grows [OF c]
    have ok2: "pool_ok p2" by (rule pool_ok_trace [OF ok1 ent _ live]) (use cr in simp)
    then have ok3: "pool_ok (p2\<lparr>pl_known_hosts := kh\<rparr>)" for kh
      by (rule pool_ok_trace) (use live in simp_all)
    have fresh: "x < length (pl_dialled p2) \<and> (\<forall>m en. slot p2 m = Some en \<longrightarrow> en_connection en \<noteq> Some x)"
      if "r2 = Inr (x, key)" for x key
      using that cr pool_ok_parts(3) [OF ok1] by (metis length_append_singleton less_irrefl lessI)
    show ?thesis
      using assms(2) Inr b kw c ok2 ok3 fresh
      by (cases r2) (auto simp: pool_connect_def split: if_splits prod.splits)
  qed
qed

lemma pool_ok_get [inv_intros]:
  "get_connection d env name p = (p', res) \<Longrightarrow> pool_ok p \<Longrightarrow> pool_ok p'"
proof (induction d arbitrary: name p p' res)
  case 0
  then show ?case by simp
next
  case (Suc d)
  obtain p1 en where e: "pool_entry name p = (p1, en)" by (rule prod.exhaust)
  have ok1: "pool_ok p1" by (rule pool_ok_entry [OF Suc.prems(2) e])
  let ?p2 = "set_status name CS_connecting p1"
  have ok2: "pool_ok ?p2" by (rule pool_ok_set_status [OF ok1]) simp
  obtain p3 r where c: "pool_connect (\<lambda>j q. get_connection d env j q) env name ?p2 = (p3, r)"
    by (rule prod.exhaust)
  have ok3: "pool_ok p3"
    and new: "\<And>c. r = Inr c \<Longrightarrow> c < length (pl_dialled p3) \<and> (\<forall>m en. slot p3 m = Some en \<longrightarrow> en_connection en \<noteq> Some c)"
    using pool_ok_connect [OF _ c ok2] Suc.IH by blast+
  have "pool_ok q" if rc: "reconnect (\<lambda>j q. get_connection d env j q) env name p1 = (q, res)" for q
  proof (cases r)
    case (Inl x)
    then have "connect_failed name x p3 = (q, res)" using rc c by (simp add: reconnect_def)
    then show ?thesis by (cases rule: connect_failed_cases) (use ok3 pool_ok_set_status in auto)
  next
    case (Inr conn)
    then have q: "q = set_status name CS_connected (set_connection name (Some conn) p3)"
      using rc c by (simp add: reconnect_def)
    show ?thesis unfolding q
      by (rule pool_ok_update [OF ok3, where name = name])
        (use new [OF Inr] pool_ok_parts [OF ok3] in \<open>auto simp: slot_set_status slot_set_connection\<close>)
  qed
  with Suc.prems(1) e ok1 Suc.prems(2) show ?case
    by (auto split: sum.splits option.splits)
qed

lemma pool_ok_close [inv_intros]:
  assumes "pool_ok p"
  shows "pool_ok (pool_close name p)"
proof -
  have "pool_ok (p\<lparr>pl_live := removeAll c (pl_live p)\<rparr>)" for c
    by (rule pool_ok_trace [OF assms]) (use pool_ok_parts(2) [OF assms] in auto)
  then show ?thesis using assms
    by (auto simp: pool_close_def Let_def intro: pool_ok_disconnect split: option.split)
qed

lemma pool_ok_pins [inv_intros]: "pool_ok p \<Longrightarrow> pool_ok (p\<lparr>pl_pinned := ps\<rparr>)"
  by (rule pool_ok_trace) (auto dest: pool_ok_parts(2))

lemma pool_ok_close_all [inv_intros]: "pool_ok p \<Longrightarrow> pool_ok (pool_close_all p)"
proof -
  have "pool_ok p \<Longrightarrow> pool_ok (fold pool_close ns p)" for ns
    by (induction ns arbitrary: p) (simp_all add: pool_ok_close)
  then show "pool_ok p \<Longrightarrow> pool_ok (pool_close_all p)" by (simp add: pool_close_all_def)
qed

lemma pool_step_ok: "pool_step limit env p p' \<Longrightarrow> pool_ok p \<Longrightarrow> pool_ok p'"
proof (erule pool_step_elim, goal_cases)
  case (1 name res)
  then show ?case using pool_ok_get by blast
next
  case (6 c)
  then show ?case using pool_ok_trace [of p p'] pool_ok_parts(2) by auto
qed (auto simp: pool_pin_def pool_unpin_def intro: pool_ok_close pool_ok_close_all pool_ok_on_close pool_ok_pins)

text \<open>In every state a pool can reach, whatever is dialled, closed, pinned or lost in between, a slot
  that is reported connected holds a connection that was really dialled, and no connection is held by
  two servers.\<close>

theorem pool_reachable_ok:
  assumes "(pool_step limit env)\<^sup>*\<^sup>* (ConnectionPool kh) p"
  shows "pool_ok p"
  using assms
proof (induction rule: rtranclp_induct)
  case base
  then show ?case by (simp add: pool_ok_def ConnectionPool_def slot_def)
next
  case (step q r)
  then show ?case by (blast intro: pool_step_ok)
qed

lemma pool_reachable_ok_witness: "pool_ok (pool_close_all (pool_pin ''b'' (fst example_get)))"
proof (rule pool_reachable_ok)
  have "pool_step 5 key_env (ConnectionPool None) (fst example_get)"
    by (rule step_get) (rule surjective_pairing)
  moreover have "pool_step 5 key_env (fst example_get) (pool_pin ''b'' (fst example_get))"
    by (rule step_pin)
  moreover have "pool_step 5 key_env q (pool_close_all q)" for q
    by (rule step_close_all)
  ultimately show "(pool_step 5 key_env)\<^sup>*\<^sup>* (ConnectionPool None)
      (pool_close_all (pool_pin ''b'' (fst example_get)))"
    by (meson rtranclp.rtrancl_into_rtrancl rtranclp.rtrancl_refl)
qed

subsection \<open>Closing\<close>

lemma pool_close_spec:
  "slot (pool_close name p) m =
     (if m = name \<and> name \<notin> set (pl_pinned p) then map_option (\<lambda>_. ConnectionEntry) (slot p m) else slot p m)"
  "pl_pinned (pool_close name p) = pl_pinned p"
  "set (pl_live (pool_close name p)) = {c \<in> set (pl_live p). \<not> (name \<notin> set (pl_pinned p)
     \<and> (\<exists>en. slot p name = Some en \<and> en_connection en = Some c))}"
proof -
  have e: "en\<lparr>en_connection := None, en_status := CS_disconnected\<rparr> = ConnectionEntry" for en :: conn_entry
    by (cases en) (simp add: ConnectionEntry_def)
  show "slot (pool_close name p) m =
     (if m = name \<and> name \<notin> set (pl_pinned p) then map_option (\<lambda>_. ConnectionEntry) (slot p m) else slot p m)"
    by (auto simp: pool_close_def Let_def slot_set_status slot_set_connection slot_def [symmetric]
        option.map_comp o_def e split: option.split)
  show "pl_pinned (pool_close name p) = pl_pinned p"
    by (simp add: pool_close_def Let_def split: option.split)
  show "set (pl_live (pool_close name p)) = {c \<in> set (pl_live p). \<not> (name \<notin> set (pl_pinned p)
     \<and> (\<exists>en. slot p name = Some en \<and> en_connection en = Some c))}"
    by (auto simp: pool_close_def Let_def slot_def split: option.splits)
qed

lemma fold_pool_close_spec:
  "slot (fold pool_close ns p) m =
     (if m \<in> set ns \<and> m \<notin> set (pl_pinned p) then map_option (\<lambda>_. ConnectionEntry) (slot p m) else slot p m)
   \<and> pl_pinned (fold pool_close ns p) = pl_pinned p
   \<and> set (pl_live (fold pool_close ns p)) = {c \<in> set (pl_live p).
       \<not> (\<exists>n en. n \<in> set ns \<and> n \<notin> set (pl_pinned p) \<and> slot p n = Some en \<and> en_connection en = Some c)}"
proof (induction ns arbitrary: p)
  case Nil
  then show ?case by simp
next
  case (Cons n ns)
  have "en_connection ConnectionEntry = None" by (simp add: ConnectionEntry_def)
  then have conn: "(\<exists>en. slot (pool_close n p) k = Some en \<and> en_connection en = Some c)
      \<longleftrightarrow> (\<exists>en. slot p k = Some en \<and> en_connection en = Some c) \<and> \<not> (k = n \<and> n \<notin> set (pl_pinned p))" for k c
    by (auto simp: pool_close_spec)
  have live: "set (pl_live (fold pool_close (n # ns) p)) = {c \<in> set (pl_live p).
       \<not> (\<exists>k en. k \<in> set (n # ns) \<and> k \<notin> set (pl_pinned p) \<and> slot p k = Some en \<and> en_connection en = Some c)}"
    using Cons [of "pool_close n p"] conn by (simp add: pool_close_spec(2,3)) blast
  show ?case using Cons [of "pool_close n p"] live
    by (auto simp: pool_close_spec(1,2) option.map_comp o_def)
qed

text \<open>The two halves of the next property, for the clients of the pool.\<close>

lemma close_all_slots:
  assumes "pool_ok p"
  shows "slot (pool_close_all p) n =
      (if n \<in> set (pl_pinned p) then slot p n else map_option (\<lambda>_. ConnectionEntry) (slot p n))
    \<and> (n \<in> set (pl_pinned p) \<longrightarrow> holds_open p n c \<longrightarrow> holds_open (pool_close_all p) n c)
    \<and> (n \<notin> set (pl_pinned p) \<longrightarrow> holds_open p n c \<longrightarrow> c \<notin> set (pl_live (pool_close_all p)))"
proof -
  have names: "m \<in> set (map fst (pl_entries p)) \<longleftrightarrow> slot p m \<noteq> None" for m
    by (simp add: slot_def map_of_eq_None_iff)
  note spec = fold_pool_close_spec [of "map fst (pl_entries p)" p, folded pool_close_all_def]
  have s: "slot (pool_close_all p) n =
      (if n \<in> set (pl_pinned p) then slot p n else map_option (\<lambda>_. ConnectionEntry) (slot p n))"
    using spec [of n] names [of n] by (auto simp del: set_map)
  have live: "c \<in> set (pl_live (pool_close_all p)) \<longleftrightarrow> c \<in> set (pl_live p)
      \<and> \<not> (\<exists>m en. m \<notin> set (pl_pinned p) \<and> slot p m = Some en \<and> en_connection en = Some c)"
    using spec names by (simp del: set_map) (metis option.distinct(1))
  have "\<not> (\<exists>m en. m \<notin> set (pl_pinned p) \<and> slot p m = Some en \<and> en_connection en = Some c)"
    if "n \<in> set (pl_pinned p)" "holds_open p n c"
    using that pool_ok_parts(5) [OF assms, of n _ _ _ c] unfolding holds_open_def by fastforce
  with s live show ?thesis unfolding holds_open_def by auto
qed

lemma pool_close_all_pinned:
  "pool_ok p \<Longrightarrow> n \<in> set (pl_pinned p) \<Longrightarrow> holds_open p n c \<Longrightarrow> holds_open (pool_close_all p) n c"
  using close_all_slots by blast

text \<open>\<open>close_all\<close> resets exactly the slots that are not pinned and closes exactly their
  connections: a pinned server keeps its slot and its open connection, because no other slot shares it.\<close>

theorem close_all_spares_pinned:
  assumes "pool_ok p"
  shows "slot (pool_close_all p) n =
      (if n \<in> set (pl_pinned p) then slot p n else map_option (\<lambda>_. ConnectionEntry) (slot p n))
    \<and> (n \<in> set (pl_pinned p) \<longrightarrow> holds_open p n c \<longrightarrow> holds_open (pool_close_all p) n c)
    \<and> (n \<notin> set (pl_pinned p) \<longrightarrow> holds_open p n c \<longrightarrow> c \<notin> set (pl_live (pool_close_all p)))"
  by (rule close_all_slots [OF assms])

lemma close_all_spares_pinned_witness:
  "holds_open (pool_close_all (pool_pin ''b'' (fst example_get))) ''b'' 0
   \<and> 1 \<notin> set (pl_live (pool_close_all (pool_pin ''b'' (fst example_get))))"
proof -
  let ?p = "pool_pin ''b'' (fst example_get)"
  have "pool_ok (ConnectionPool None)" by (simp add: pool_ok_def ConnectionPool_def slot_def)
  then have "pool_ok ?p"
    using pool_step_ok [OF step_pin] pool_step_ok [OF step_get [OF surjective_pairing]] by blast
  note cl = close_all_spares_pinned [OF this]
  have "holds_open ?p ''b'' 0" "holds_open ?p ''a'' 1" "''b'' \<in> set (pl_pinned ?p)" "''a'' \<notin> set (pl_pinned ?p)"
    by code_simp+
  then show ?thesis using cl [of "''b''" 0] cl [of "''a''" 1] by blast
qed

end
