(* ===== verification/Audit_Log.thy ===== *)
theory Audit_Log
  imports Models
begin

section \<open>Audit log (\<open>audit.py\<close>)\<close>

text \<open>
  \<open>AuditLog\<close> with its file handle. The file is the list of events written to it, one JSON line
  each; failures of the file system are left out (the code does not handle them).
\<close>

datatype audit_handle = AH_none | AH_open | AH_closed

record audit_state =
  al_handle :: audit_handle
  al_exists :: bool
  al_private :: bool
  al_lines :: "audit_event list"

definition audit_open :: "audit_state \<Rightarrow> audit_state" where
  "audit_open a =
     a\<lparr>al_handle := AH_open, al_exists := True,
       al_private := (if al_exists a then al_private a else True)\<rparr>"

text \<open>The constructor: no handle yet, then \<open>_open\<close>. The arguments describe the file on disk.\<close>

definition AuditLog_init :: "bool \<Rightarrow> bool \<Rightarrow> audit_event list \<Rightarrow> audit_state" where
  "AuditLog_init existed private_mode old =
     audit_open \<lparr>al_handle = AH_none, al_exists = existed, al_private = private_mode,
                 al_lines = (if existed then old else [])\<rparr>"

definition audit_log :: "audit_event \<Rightarrow> audit_state \<Rightarrow> audit_state" where
  "audit_log event a =
     (let a' = (if al_handle a = AH_none \<or> al_handle a = AH_closed then audit_open a else a)
      in a'\<lparr>al_lines := al_lines a' @ [event]\<rparr>)"

definition audit_close :: "audit_state \<Rightarrow> audit_state" where
  "audit_close a = (if al_handle a = AH_open then a\<lparr>al_handle := AH_closed\<rparr> else a)"

lemma al_lines_audit_log [simp]: "al_lines (audit_log e a) = al_lines a @ [e]"
  by (simp add: audit_log_def audit_open_def Let_def)

lemma al_handle_audit_log [simp]: "al_handle (audit_log e a) = AH_open"
  by (cases "al_handle a") (simp_all add: audit_log_def audit_open_def Let_def)

lemma al_lines_audit_close [simp]: "al_lines (audit_close a) = al_lines a"
  by (simp add: audit_close_def)

text \<open>A run of the log: events written and closes, in any order.\<close>

fun audit_run :: "audit_event option list \<Rightarrow> audit_state \<Rightarrow> audit_state" where
  "audit_run [] a = a"
| "audit_run (None # xs) a = audit_run xs (audit_close a)"
| "audit_run (Some e # xs) a = audit_run xs (audit_log e a)"

lemma audit_run_lines:
  "al_lines (audit_run xs a) = al_lines a @ map the (filter (\<lambda>x. x \<noteq> None) xs)"
  by (induction xs a rule: audit_run.induct) auto

text \<open>The log only grows.\<close>

definition audit_grows :: "audit_state \<Rightarrow> audit_state \<Rightarrow> bool" where
  "audit_grows a a' \<longleftrightarrow> prefix (al_lines a) (al_lines a')"

lemma audit_grows_refl [simp]: "audit_grows a a"
  by (simp add: audit_grows_def)

lemma audit_grows_trans: "audit_grows a b \<Longrightarrow> audit_grows b c \<Longrightarrow> audit_grows a c"
  by (auto simp: audit_grows_def intro: prefix_order.trans)

lemma audit_grows_log [simp]: "audit_grows a b \<Longrightarrow> audit_grows a (audit_log e b)"
  by (auto simp: audit_grows_def prefix_def)

lemma audit_grows_close [simp]: "audit_grows a (audit_close a)"
  by (simp add: audit_grows_def)

definition audit_private_if_exists :: "audit_state \<Rightarrow> bool" where
  "audit_private_if_exists a \<longleftrightarrow> (al_exists a \<longrightarrow> al_private a)"

lemma audit_run_private:
  "audit_private_if_exists a \<Longrightarrow> audit_private_if_exists (audit_run xs a)"
proof (induction xs a rule: audit_run.induct)
  case (2 xs a)
  then show ?case by (auto simp: audit_private_if_exists_def audit_close_def)
next
  case (3 e xs a)
  then show ?case by (auto simp: audit_private_if_exists_def audit_log_def audit_open_def Let_def)
qed simp

end
