(* ===== verification/Proxy.thy ===== *)
theory Proxy
  imports Pool Audit_Log
begin

section \<open>Proxies (\<open>proxy.py\<close>, \<open>tools/proxy_tools.py\<close>)\<close>

text \<open>
  \<open>ProxyManager\<close> keeps its listeners beside their records and pins the server's connection in the
  pool. It uses the pool only through \<open>get_connection\<close>, \<open>pin\<close> and \<open>unpin\<close>, which are arguments
  here; their contract is the locale \<open>pinning_pool\<close>, interpreted on the model of \<open>pool.py\<close>.
  A listener is named by the number of the call \<open>forward_local_port\<close> or \<open>forward_socks\<close> that made
  it; \<open>pm_forwards\<close> is the trace of these calls. The environment says how they end, which id
  \<open>secrets.token_hex\<close> gives and what time it is.
\<close>

subsection \<open>State and environment\<close>

datatype forward_call = Forward_local nat string int string int | Forward_socks nat string int

record 'p proxy_manager =
  pm_pool :: 'p
  pm_proxies :: "(string, proxy_record \<times> nat) dict"
  pm_forwards :: "forward_call list"
  pm_listening :: "nat list"

record proxy_env =
  pv_forward :: "nat \<Rightarrow> forward_call \<Rightarrow> py_exn option"
  pv_new_id :: "nat \<Rightarrow> string"
  pv_now :: "nat \<Rightarrow> int"
  pv_isoformat :: "int \<Rightarrow> string"

definition ProxyManager :: "'p \<Rightarrow> 'p proxy_manager" where
  "ProxyManager p = \<lparr>pm_pool = p, pm_proxies = [], pm_forwards = [], pm_listening = []\<rparr>"

subsection \<open>Operations\<close>

text \<open>The call the proxy type asks for; \<open>None\<close> is the \<open>McpSshError\<close> for missing remote parameters.\<close>

definition forward_of ::
    "proxy_type \<Rightarrow> nat \<Rightarrow> string \<Rightarrow> int \<Rightarrow> string option \<Rightarrow> int option \<Rightarrow> forward_call option" where
  "forward_of ptype conn local_host local_port remote_host remote_port =
     (case ptype of
        PT_local \<Rightarrow>
          (case (remote_host, remote_port) of
             (Some rh, Some rp) \<Rightarrow> Some (Forward_local conn local_host local_port rh rp)
           | _ \<Rightarrow> None)
      | PT_socks5 \<Rightarrow> Some (Forward_socks conn local_host local_port))"

definition start_proxy ::
    "(string \<Rightarrow> 'p \<Rightarrow> 'p \<times> nat result) \<Rightarrow> (string \<Rightarrow> 'p \<Rightarrow> 'p) \<Rightarrow> (string \<Rightarrow> 'p \<Rightarrow> 'p) \<Rightarrow> proxy_env
      \<Rightarrow> string \<Rightarrow> proxy_type \<Rightarrow> int \<Rightarrow> string \<Rightarrow> string option \<Rightarrow> int option
      \<Rightarrow> 'p proxy_manager \<Rightarrow> audit_state \<Rightarrow> 'p proxy_manager \<times> audit_state \<times> proxy_record result" where
  "start_proxy get pin unpin env server ptype local_port local_host remote_host remote_port m a =
     (case get server (pm_pool m) of
        (p1, Inl e) \<Rightarrow> (m\<lparr>pm_pool := p1\<rparr>, a, Inl e)
      | (p1, Inr conn) \<Rightarrow>
          let p2 = pin server p1; n = length (pm_forwards m)
          in (case forward_of ptype conn local_host local_port remote_host remote_port of
                None \<Rightarrow> (m\<lparr>pm_pool := unpin server p2\<rparr>, a, Inl McpSshError)
              | Some call \<Rightarrow>
                  (case pv_forward env n call of
                     Some e \<Rightarrow>
                       (m\<lparr>pm_pool := unpin server p2, pm_forwards := pm_forwards m @ [call]\<rparr>, a, Inl e)
                   | None \<Rightarrow>
                       let rec = \<lparr>px_id = pv_new_id env n, px_server = server, px_type = ptype,
                                  px_local_host = local_host, px_local_port = local_port,
                                  px_remote_host = remote_host, px_remote_port = remote_port,
                                  px_started_at = pv_now env n, px_status = ''active''\<rparr>
                       in (m\<lparr>pm_pool := p2, pm_forwards := pm_forwards m @ [call],
                             pm_listening := n # pm_listening m,
                             pm_proxies := dict_set (px_id rec) (rec, n) (pm_proxies m)\<rparr>,
                           audit_log ((AuditEvent ''ssh_proxy'' ''started''
                              [(''type'', JStr (proxy_type_value ptype)),
                               (''local_host'', JStr local_host), (''local_port'', JInt local_port),
                               (''remote_host'', JOptStr remote_host), (''remote_port'', JOptInt remote_port)])
                             \<lparr>ae_server := Some server, ae_proxy_id := Some (px_id rec)\<rparr>) a,
                           Inr rec))))"

definition stop_proxy ::
    "(string \<Rightarrow> 'p \<Rightarrow> 'p) \<Rightarrow> string \<Rightarrow> 'p proxy_manager \<Rightarrow> audit_state
      \<Rightarrow> 'p proxy_manager \<times> audit_state \<times> proxy_record result" where
  "stop_proxy unpin proxy_id m a =
     (case map_of (pm_proxies m) proxy_id of
        None \<Rightarrow> (m, a, Inl ProxyNotFound)
      | Some (rec, listener) \<Rightarrow>
          (m\<lparr>pm_proxies := dict_del proxy_id (pm_proxies m),
             pm_listening := removeAll listener (pm_listening m),
             pm_pool := unpin (px_server rec) (pm_pool m)\<rparr>,
           audit_log ((AuditEvent ''ssh_proxy'' ''stopped'' [])
             \<lparr>ae_server := Some (px_server rec), ae_proxy_id := Some proxy_id\<rparr>) a,
           Inr (rec\<lparr>px_status := ''stopped''\<rparr>)))"

definition list_proxies :: "string option \<Rightarrow> 'p proxy_manager \<Rightarrow> proxy_record list" where
  "list_proxies server m =
     (let records = map fst (dict_values (pm_proxies m))
      in case server of None \<Rightarrow> records | Some s \<Rightarrow> filter (\<lambda>r. px_server r = s) records)"

definition close_proxies :: "(string \<Rightarrow> 'p \<Rightarrow> 'p) \<Rightarrow> 'p proxy_manager \<Rightarrow> 'p proxy_manager" where
  "close_proxies unpin m =
     (let m' = fold (\<lambda>(_, rec, listener) m. m\<lparr>pm_listening := removeAll listener (pm_listening m),
                        pm_pool := unpin (px_server rec) (pm_pool m)\<rparr>) (pm_proxies m) m
      in m'\<lparr>pm_proxies := []\<rparr>)"

subsection \<open>The tool\<close>

definition proxy_entry :: "proxy_env \<Rightarrow> proxy_record \<Rightarrow> reply" where
  "proxy_entry env r =
     [(''proxy_id'', JStr (px_id r)), (''server'', JStr (px_server r)),
      (''type'', JStr (proxy_type_value (px_type r))), (''local_host'', JStr (px_local_host r)),
      (''local_port'', JInt (px_local_port r)), (''remote_host'', JOptStr (px_remote_host r)),
      (''remote_port'', JOptInt (px_remote_port r)),
      (''started_at'', JStr (pv_isoformat env (px_started_at r)))]"

definition ssh_proxy_start ::
    "(string \<Rightarrow> 'p \<Rightarrow> 'p \<times> nat result) \<Rightarrow> (string \<Rightarrow> 'p \<Rightarrow> 'p) \<Rightarrow> (string \<Rightarrow> 'p \<Rightarrow> 'p) \<Rightarrow> proxy_env
      \<Rightarrow> string option \<Rightarrow> string option \<Rightarrow> int option \<Rightarrow> string \<Rightarrow> string option \<Rightarrow> int option
      \<Rightarrow> 'p proxy_manager \<Rightarrow> audit_state \<Rightarrow> 'p proxy_manager \<times> audit_state \<times> reply result" where
  "ssh_proxy_start get pin unpin env server ptype local_port local_host remote_host remote_port m a =
     (case server of
        None \<Rightarrow> (m, a, Inr (err_reply ''missing_param'' []))
      | Some s \<Rightarrow>
          (case ptype of
             None \<Rightarrow> (m, a, Inr (err_reply ''invalid_type'' []))
           | Some t \<Rightarrow>
               if t \<notin> {''local'', ''socks5''} then (m, a, Inr (err_reply ''invalid_type'' []))
               else
                 (case local_port of
                    None \<Rightarrow> (m, a, Inr (err_reply ''missing_param'' []))
                  | Some lp \<Rightarrow>
                      (case ProxyType t of
                         None \<Rightarrow> (m, a, Inr (err_reply ''unexpected_error'' []))
                       | Some pt \<Rightarrow>
                           (case start_proxy get pin unpin env s pt lp local_host remote_host remote_port m a of
                              (m', a', Inl e) \<Rightarrow>
                                (m', a', Inr (err_reply (if is_McpSshError e then ''proxy_error''
                                                         else ''unexpected_error'') []))
                            | (m', a', Inr rec) \<Rightarrow> (m', a', Inr (proxy_entry env rec)))))))"

definition ssh_proxy_stop ::
    "(string \<Rightarrow> 'p \<Rightarrow> 'p) \<Rightarrow> string option \<Rightarrow> 'p proxy_manager \<Rightarrow> audit_state
      \<Rightarrow> 'p proxy_manager \<times> audit_state \<times> reply result" where
  "ssh_proxy_stop unpin proxy_id m a =
     (case proxy_id of
        None \<Rightarrow> (m, a, Inr (err_reply ''missing_param'' []))
      | Some i \<Rightarrow>
          (case stop_proxy unpin i m a of
             (m', a', Inl e) \<Rightarrow>
               if e = ProxyNotFound then (m', a', Inr (err_reply ''proxy_not_found'' [(''proxy_id'', JStr i)]))
               else if is_McpSshError e then (m', a', Inr (err_reply ''stop_error'' []))
               else (m', a', Inl e)
           | (m', a', Inr _) \<Rightarrow> (m', a', Inr [(''stopped'', JBool True), (''proxy_id'', JStr i)])))"

definition ssh_proxy ::
    "(string \<Rightarrow> 'p \<Rightarrow> 'p \<times> nat result) \<Rightarrow> (string \<Rightarrow> 'p \<Rightarrow> 'p) \<Rightarrow> (string \<Rightarrow> 'p \<Rightarrow> 'p) \<Rightarrow> proxy_env
      \<Rightarrow> string \<Rightarrow> string option \<Rightarrow> string option \<Rightarrow> int option \<Rightarrow> string \<Rightarrow> string option \<Rightarrow> int option
      \<Rightarrow> string option \<Rightarrow> 'p proxy_manager \<Rightarrow> audit_state
      \<Rightarrow> 'p proxy_manager \<times> audit_state \<times> reply result" where
  "ssh_proxy get pin unpin env action server ptype local_port local_host remote_host remote_port proxy_id m a =
     (if action = ''start'' then
        ssh_proxy_start get pin unpin env server ptype local_port local_host remote_host remote_port m a
      else if action = ''stop'' then ssh_proxy_stop unpin proxy_id m a
      else if action = ''list'' then
        (m, a, Inr [(''proxies'', JArr (map (\<lambda>r. JObj (proxy_entry env r @ [(''status'', JStr (px_status r))]))
                                        (list_proxies server m)))])
      else (m, a, Inr (err_reply ''invalid_action'' [(''action'', JStr action)])))"

subsection \<open>The pool as the manager sees it\<close>

locale pinning_pool =
  fixes get :: "string \<Rightarrow> 'p \<Rightarrow> 'p \<times> nat result"
    and pin unpin :: "string \<Rightarrow> 'p \<Rightarrow> 'p"
    and pinned :: "'p \<Rightarrow> string set"
  assumes get_pins: "pinned (fst (get s p)) = pinned p"
    and pin_pins: "pinned (pin s p) = insert s (pinned p)"
    and unpin_pins: "pinned (unpin s p) = pinned p - {s}"
begin

abbreviation pins :: "'p proxy_manager \<Rightarrow> string set" where
  "pins m \<equiv> pinned (pm_pool m)"

lemma start_proxy_success:
  assumes "start_proxy get pin unpin env server ptype lp lh rh rp m a = (m', a', Inr rec)"
  shows "pm_proxies m' = dict_set (px_id rec) (rec, length (pm_forwards m)) (pm_proxies m)
    \<and> pm_listening m' = length (pm_forwards m) # pm_listening m
    \<and> pins m' = insert server (pins m) \<and> px_server rec = server \<and> px_type rec = ptype
    \<and> px_id rec = pv_new_id env (length (pm_forwards m)) \<and> px_status rec = ''active''
    \<and> length (al_lines a') = Suc (length (al_lines a))
    \<and> (\<exists>p1 conn call. get server (pm_pool m) = (p1, Inr conn) \<and> pm_pool m' = pin server p1
        \<and> forward_of ptype conn lh lp rh rp = Some call \<and> pm_forwards m' = pm_forwards m @ [call])"
proof -
  obtain p1 r where g: "get server (pm_pool m) = (p1, r)" by (rule prod.exhaust)
  then have "pinned p1 = pinned (pm_pool m)" using get_pins [of server "pm_pool m"] by simp
  note pn = this
  show ?thesis
  proof (cases r)
    case (Inl e)
    with assms g show ?thesis by (simp add: start_proxy_def)
  next
    case (Inr conn)
    show ?thesis
    proof (cases "forward_of ptype conn lh lp rh rp")
      case None
      with assms g Inr show ?thesis by (simp add: start_proxy_def Let_def)
    next
      case (Some call)
      show ?thesis
      proof (cases "pv_forward env (length (pm_forwards m)) call")
        case None
        with assms g Inr Some pn show ?thesis by (clarsimp simp: start_proxy_def Let_def pin_pins)
      next
        case e: (Some e)
        with assms g Inr Some show ?thesis by (simp add: start_proxy_def Let_def)
      qed
    qed
  qed
qed

lemma start_proxy_failure:
  assumes "start_proxy get pin unpin env server ptype lp lh rh rp m a = (m', a', Inl e)"
  shows "pm_proxies m' = pm_proxies m \<and> pm_listening m' = pm_listening m \<and> a' = a
    \<and> (pins m' = pins m \<and> snd (get server (pm_pool m)) = Inl e \<or> pins m' = pins m - {server})"
proof -
  obtain p1 r where g: "get server (pm_pool m) = (p1, r)" by (rule prod.exhaust)
  then have "pinned p1 = pinned (pm_pool m)" using get_pins [of server "pm_pool m"] by simp
  note pn = this
  show ?thesis
  proof (cases r)
    case (Inl e)
    with assms g pn show ?thesis by (clarsimp simp: start_proxy_def)
  next
    case (Inr conn)
    show ?thesis
    proof (cases "forward_of ptype conn lh lp rh rp")
      case None
      with assms g Inr pn show ?thesis by (clarsimp simp: start_proxy_def Let_def pin_pins unpin_pins)
    next
      case (Some call)
      with assms g Inr pn show ?thesis
        by (cases "pv_forward env (length (pm_forwards m)) call")
          (clarsimp simp: start_proxy_def Let_def pin_pins unpin_pins)+
    qed
  qed
qed

lemma close_proxies_spec:
  "pm_proxies (close_proxies unpin m) = []
   \<and> set (pm_listening (close_proxies unpin m)) = set (pm_listening m) - snd ` snd ` set (pm_proxies m)
   \<and> pins (close_proxies unpin m) = pins m - px_server ` fst ` snd ` set (pm_proxies m)"
proof -
  have "set (pm_listening (fold (\<lambda>(_, rec, listener) m. m\<lparr>pm_listening := removeAll listener (pm_listening m),
          pm_pool := unpin (px_server rec) (pm_pool m)\<rparr>) ps m)) = set (pm_listening m) - snd ` snd ` set ps
     \<and> pins (fold (\<lambda>(_, rec, listener) m. m\<lparr>pm_listening := removeAll listener (pm_listening m),
          pm_pool := unpin (px_server rec) (pm_pool m)\<rparr>) ps m) = pins m - px_server ` fst ` snd ` set ps" for ps
    by (induction ps arbitrary: m) (auto simp: unpin_pins)
  then show ?thesis by (simp add: close_proxies_def)
qed

end

interpretation pool_pins:
  pinning_pool "get_connection limit env" pool_pin pool_unpin "\<lambda>p. set (pl_pinned p)"
  for limit env
proof unfold_locales
  show "set (pl_pinned (fst (get_connection limit env s p))) = set (pl_pinned p)" for s p
    using get_connection_grows [of limit env s p "fst (get_connection limit env s p)"
        "snd (get_connection limit env s p)"] by (simp add: pool_grows_def)
qed (simp_all add: pool_pin_def pool_unpin_def)

subsection \<open>Properties\<close>

text \<open>C16: Stopping the proxy that was just started gives the list of proxies and the open listeners
  back as they were, with exactly two lines more in the audit log; the server's pin is gone, also
  when it was pinned before.\<close>

theorem start_stop_proxy_roundtrip:
  assumes "start_proxy (get_connection limit penv) pool_pin pool_unpin env server ptype lp lh rh rp m a
      = (m1, a1, Inr rec)"
    and "map_of (pm_proxies m) (pv_new_id env (length (pm_forwards m))) = None"
    and "length (pm_forwards m) \<notin> set (pm_listening m)"
  shows "\<exists>m2 a2. stop_proxy pool_unpin (px_id rec) m1 a1 = (m2, a2, Inr (rec\<lparr>px_status := ''stopped''\<rparr>))
    \<and> pm_proxies m2 = pm_proxies m \<and> pm_listening m2 = pm_listening m
    \<and> set (pl_pinned (pm_pool m2)) = set (pl_pinned (pm_pool m)) - {server}
    \<and> length (al_lines a2) = length (al_lines a) + 2"
proof -
  note st = pool_pins.start_proxy_success [OF assms(1)]
  let ?n = "length (pm_forwards m)"
  have "map_of (pm_proxies m1) (px_id rec) = Some (rec, ?n)" using st by simp
  moreover have "removeAll ?n (pm_listening m) = pm_listening m" using assms(3) by simp
  moreover have "set (pl_pinned (pool_unpin server (pm_pool m1))) = set (pl_pinned (pm_pool m)) - {server}"
    using st pool_pins.unpin_pins [of server "pm_pool m1"] by simp
  ultimately show ?thesis using st assms(2) by (simp add: stop_proxy_def)
qed

definition example_proxy_env :: proxy_env where
  "example_proxy_env = \<lparr>pv_forward = (\<lambda>n c. None), pv_new_id = (\<lambda>n. ''prx-'' @ show_nat n),
     pv_now = (\<lambda>n. 0), pv_isoformat = show_int\<rparr>"

definition example_start ::
    "string \<Rightarrow> pool proxy_manager \<Rightarrow> pool proxy_manager \<times> audit_state \<times> proxy_record result" where
  "example_start server m =
     start_proxy (get_connection 5 key_env) pool_pin pool_unpin example_proxy_env server PT_socks5 1080
       ''127.0.0.1'' None None m (AuditLog_init False True [])"

definition two_proxies :: "pool proxy_manager" where
  "two_proxies = fst (example_start ''b'' (fst (example_start ''b'' (ProxyManager (ConnectionPool None)))))"

lemma example_start_ok:
  "\<exists>rec. snd (snd (example_start ''b'' (ProxyManager (ConnectionPool None)))) = Inr rec
     \<and> px_id rec = ''prx-0''"
proof -
  have "case snd (snd (example_start ''b'' (ProxyManager (ConnectionPool None)))) of
      Inl e \<Rightarrow> False | Inr rec \<Rightarrow> px_id rec = ''prx-0''"
    by code_simp
  then show ?thesis by (simp split: sum.splits)
qed

lemma start_stop_proxy_roundtrip_witness:
  "\<exists>m2 a2 rec. stop_proxy pool_unpin ''prx-0'' (fst (example_start ''b'' (ProxyManager (ConnectionPool None))))
       (fst (snd (example_start ''b'' (ProxyManager (ConnectionPool None))))) = (m2, a2, Inr rec)
     \<and> pm_proxies m2 = [] \<and> length (al_lines a2) = 2"
proof -
  let ?m = "ProxyManager (ConnectionPool None)"
  obtain rec where r: "snd (snd (example_start ''b'' ?m)) = Inr rec" "px_id rec = ''prx-0''"
    using example_start_ok by blast
  have e: "example_start ''b'' ?m
      = (fst (example_start ''b'' ?m), fst (snd (example_start ''b'' ?m)), Inr rec)"
    using r(1) by (metis prod.collapse)
  have "map_of (pm_proxies ?m) (pv_new_id example_proxy_env (length (pm_forwards ?m))) = None"
    "length (pm_forwards ?m) \<notin> set (pm_listening ?m)"
    by (simp_all add: ProxyManager_def)
  from start_stop_proxy_roundtrip [OF e [unfolded example_start_def] this, folded example_start_def] r(2)
  obtain m2 a2 where "stop_proxy pool_unpin ''prx-0'' (fst (example_start ''b'' ?m))
      (fst (snd (example_start ''b'' ?m))) = (m2, a2, Inr (rec\<lparr>px_status := ''stopped''\<rparr>))"
    "pm_proxies m2 = pm_proxies ?m" "length (al_lines a2) = length (al_lines (AuditLog_init False True [])) + 2"
    by metis
  moreover have "pm_proxies ?m = []" "al_lines (AuditLog_init False True []) = []"
    by (simp_all add: ProxyManager_def AuditLog_init_def audit_open_def)
  ultimately show ?thesis by auto
qed

text \<open>The connection under a proxy that was started survives \<open>close\<close> of its server and
  \<open>close_all\<close>: the proxy forwards over the very connection the pool still holds open.\<close>

theorem started_proxy_survives_close:
  assumes "start_proxy (get_connection limit penv) pool_pin pool_unpin env server ptype lp lh rh rp m a
      = (m1, a1, Inr rec)" and "pool_ok (pm_pool m)"
  shows "\<exists>conn. holds_open (pool_close server (pm_pool m1)) server conn
    \<and> holds_open (pool_close_all (pm_pool m1)) server conn
    \<and> forward_of ptype conn lh lp rh rp = Some (last (pm_forwards m1))"
proof -
  obtain p1 conn call where g: "get_connection limit penv server (pm_pool m) = (p1, Inr conn)"
    and p: "pm_pool m1 = pool_pin server p1" and f: "forward_of ptype conn lh lp rh rp = Some call"
    and fw: "pm_forwards m1 = pm_forwards m @ [call]"
    using pool_pins.start_proxy_success [OF assms(1)] by blast
  have h: "holds_open (pm_pool m1) server conn"
    using get_connection_holds [OF g] p by (simp add: holds_open_def pool_pin_def)
  have "pool_ok p1" by (rule pool_ok_get [OF g assms(2)])
  then have ok: "pool_ok (pm_pool m1)" unfolding p pool_pin_def by (rule pool_ok_pins)
  have pin: "server \<in> set (pl_pinned (pm_pool m1))" unfolding p by (simp add: pool_pin_def)
  have cl: "holds_open (pool_close_all (pm_pool m1)) server conn"
    by (rule pool_close_all_pinned [OF ok pin h])
  have "pool_close server (pm_pool m1) = pm_pool m1" using pin by (simp add: pool_close_def)
  with h cl f fw show ?thesis by auto
qed

lemma started_proxy_survives_close_witness:
  "\<exists>conn. holds_open (pool_close_all (pm_pool (fst (example_start ''b'' (ProxyManager (ConnectionPool None)))))) ''b'' conn"
proof -
  let ?m = "ProxyManager (ConnectionPool None)"
  obtain rec where r: "snd (snd (example_start ''b'' ?m)) = Inr rec"
    using example_start_ok by blast
  have e: "example_start ''b'' ?m
      = (fst (example_start ''b'' ?m), fst (snd (example_start ''b'' ?m)), Inr rec)"
    using r by (metis prod.collapse)
  have "pool_ok (pm_pool ?m)" by (simp add: ProxyManager_def pool_ok_def ConnectionPool_def slot_def)
  from started_proxy_survives_close [OF e [unfolded example_start_def] this, folded example_start_def]
  show ?thesis by blast
qed

text \<open>Pins are a set, not a count. Stopping one of two proxies of a server unpins it: the other is
  still listed, and the next \<open>close\<close> of the server closes the connection under it.\<close>

theorem stop_proxy_unpins_sibling:
  assumes "map_of (pm_proxies m) i = Some (r1, l1)" and "map_of (pm_proxies m) j = Some (r2, l2)"
    and "i \<noteq> j" and "px_server r1 = server" and "px_server r2 = server" and "l1 \<noteq> l2"
    and "l2 \<in> set (pm_listening m)" and "holds_open (pm_pool m) server conn"
  shows "\<exists>m' a' rec. stop_proxy pool_unpin i m a = (m', a', Inr rec)
    \<and> r2 \<in> set (list_proxies (Some server) m') \<and> l2 \<in> set (pm_listening m')
    \<and> conn \<notin> set (pl_live (pool_close server (pm_pool m')))"
proof -
  have live: "conn \<notin> set (pl_live (pool_close server (pool_unpin server (pm_pool m))))"
    using assms(8) by (auto simp: pool_close_spec pool_unpin_def holds_open_def)
  have "(j, r2, l2) \<in> set (dict_del i (pm_proxies m))"
    using assms(2,3) by (auto dest: map_of_SomeD)
  then have "r2 \<in> set (map fst (dict_values (dict_del i (pm_proxies m))))"
    by (force simp: dict_values_def)
  with assms live show ?thesis by (simp add: stop_proxy_def list_proxies_def)
qed

lemma stop_proxy_unpins_sibling_witness:
  "\<exists>m' a' rec. stop_proxy pool_unpin ''prx-0'' two_proxies (AuditLog_init False True []) = (m', a', Inr rec)
    \<and> list_proxies (Some ''b'') m' \<noteq> [] \<and> 0 \<notin> set (pl_live (pool_close ''b'' (pm_pool m')))"
proof -
  have "map_of (pm_proxies two_proxies) ''prx-0'' \<noteq> None \<and> map_of (pm_proxies two_proxies) ''prx-1'' \<noteq> None
      \<and> map_option (\<lambda>(r, l). (px_server r, l)) (map_of (pm_proxies two_proxies) ''prx-0'') = Some (''b'', 0)
      \<and> map_option (\<lambda>(r, l). (px_server r, l)) (map_of (pm_proxies two_proxies) ''prx-1'') = Some (''b'', 1)"
    by code_simp
  then obtain r1 r2 where "map_of (pm_proxies two_proxies) ''prx-0'' = Some (r1, 0)" "px_server r1 = ''b''"
    "map_of (pm_proxies two_proxies) ''prx-1'' = Some (r2, 1)" "px_server r2 = ''b''" by auto
  moreover have "1 \<in> set (pm_listening two_proxies)" "holds_open (pm_pool two_proxies) ''b'' 0"
    by code_simp+
  ultimately obtain m' a' rec where
    "stop_proxy pool_unpin ''prx-0'' two_proxies (AuditLog_init False True []) = (m', a', Inr rec)"
    "r2 \<in> set (list_proxies (Some ''b'') m')" "0 \<notin> set (pl_live (pool_close ''b'' (pm_pool m')))"
    using stop_proxy_unpins_sibling [of two_proxies "''prx-0''" r1 0 "''prx-1''" r2 1 "''b''" 0
        "AuditLog_init False True []"] by auto
  then show ?thesis by (metis empty_iff list.set(1))
qed

text \<open>Whatever the arguments, when \<open>ssh_proxy\<close> replies with an error, the listed proxies, the open
  listeners and the audit log are as they were before the call.\<close>

theorem ssh_proxy_error_clean:
  assumes "ssh_proxy (get_connection limit penv) pool_pin pool_unpin env action server ptype lp lh rh rp i m a
      = (m', a', Inr rep)" and "is_error rep"
  shows "pm_proxies m' = pm_proxies m \<and> pm_listening m' = pm_listening m \<and> a' = a"
proof -
  have entry: "\<not> is_error (proxy_entry env r)" for r by (simp add: is_error_def proxy_entry_def)
  have start: ?thesis
    if s: "ssh_proxy_start (get_connection limit penv) pool_pin pool_unpin env server ptype lp lh rh rp m a
      = (m', a', Inr rep)"
  proof (cases "(\<exists>x y. a' = a \<and> m' = m) \<or> server = None \<or> ptype = None \<or> lp = None")
    case True
    with s show ?thesis by (auto simp: ssh_proxy_start_def split: option.splits if_splits)
  next
    case False
    then obtain sv t p where args: "server = Some sv" "ptype = Some t" "lp = Some p" by auto
    with s False obtain pt where pt: "ProxyType t = Some pt" "t \<in> {''local'', ''socks5''}"
      by (auto simp: ssh_proxy_start_def split: option.splits if_splits)
    obtain m1 a1 r where st: "start_proxy (get_connection limit penv) pool_pin pool_unpin env sv pt p lh rh rp m a
        = (m1, a1, r)" by (rule prod_cases3)
    show ?thesis
    proof (cases r)
      case (Inl e)
      with st s args pt have "m' = m1" "a' = a1" by (auto simp: ssh_proxy_start_def)
      with pool_pins.start_proxy_failure [OF st [unfolded Inl]] show ?thesis by blast
    next
      case (Inr rec)
      with st s args pt assms(2) entry show ?thesis by (auto simp: ssh_proxy_start_def)
    qed
  qed
  have stop: ?thesis if "ssh_proxy_stop pool_unpin i m a = (m', a', Inr rep)"
    using that assms(2)
    by (auto simp: ssh_proxy_stop_def stop_proxy_def is_error_def split: option.splits if_splits)
  show ?thesis
    using assms start stop by (auto simp: ssh_proxy_def is_error_def split: if_splits)
qed

lemma ssh_proxy_error_clean_witness:
  "pm_proxies (fst (ssh_proxy (get_connection 5 key_env) pool_pin pool_unpin example_proxy_env ''start''
     (Some ''b'') (Some ''local'') (Some 8080) ''127.0.0.1'' None None None two_proxies
     (AuditLog_init False True []))) = pm_proxies two_proxies"
proof -
  let ?r = "ssh_proxy (get_connection 5 key_env) pool_pin pool_unpin example_proxy_env ''start''
     (Some ''b'') (Some ''local'') (Some 8080) ''127.0.0.1'' None None None two_proxies
     (AuditLog_init False True [])"
  have "case snd (snd ?r) of Inl e \<Rightarrow> False | Inr rep \<Rightarrow> error_code rep = Some ''proxy_error'' \<and> is_error rep"
    by code_simp
  then obtain rep where "?r = (fst ?r, fst (snd ?r), Inr rep)" "is_error rep"
    by (auto split: sum.splits) (metis prod.collapse)
  then show ?thesis by (rule ssh_proxy_error_clean [THEN conjunct1])
qed

text \<open>Starting a proxy that cannot listen, say because its port is taken, unpins the server, whose
  connection another proxy may be using: the next \<open>close\<close> cuts it.\<close>

theorem failed_start_unpins_sibling:
  assumes "get server (pm_pool m) = (pm_pool m, Inr conn)" and "holds_open (pm_pool m) server conn"
    and "(i, r, l) \<in> set (pm_proxies m)" and "px_server r = server"
    and "start_proxy get pool_pin pool_unpin env server ptype port host rhost rport m a = (m', a', Inl e)"
  shows "(i, r, l) \<in> set (pm_proxies m') \<and> server \<notin> set (pl_pinned (pm_pool m'))
    \<and> conn \<notin> set (pl_live (pool_close server (pm_pool m')))"
proof -
  have "conn \<notin> set (pl_live (pool_close server (pool_unpin server (pool_pin server (pm_pool m)))))"
    using assms(2) by (auto simp: pool_close_spec pool_unpin_def pool_pin_def holds_open_def)
  moreover have "server \<notin> set (pl_pinned (pool_unpin server p))" for p by (simp add: pool_unpin_def)
  ultimately show ?thesis using assms
    by (auto simp: start_proxy_def Let_def split: option.splits)
qed

end
