(* ===== verification/Shell.thy ===== *)
theory Shell
  imports Models
begin

section \<open>Quoting for the remote shell (\<open>shlex.quote\<close>)\<close>

text \<open>
  The program builds the commands it runs on remote hosts as text and protects every value that
  comes from a caller with \<open>shlex.quote\<close> of the standard library. \<open>sh_tokens\<close> is the
  specification the quoting is judged by: the token rules of a POSIX shell (section 2.3 of its
  standard) for blanks, the operator characters, the three kinds of quotes and the expansion
  characters. A token is a literal word, a word in which an expansion is still active, or an operator
  character.
\<close>

subsection \<open>Quoting\<close>

definition sq :: char where "sq = CHR 0x27"
definition dq :: char where "dq = CHR 0x22"
definition bslash :: char where "bslash = CHR 0x5C"

definition quote_safe :: "char \<Rightarrow> bool" where
  "quote_safe c \<longleftrightarrow> is_ascii_alnum c \<or> c \<in> set ''_@%+=:,./-''"

definition shlex_quote :: "string \<Rightarrow> string" where
  "shlex_quote s =
     (if s = [] then [sq, sq]
      else if list_all quote_safe s then s
      else sq # concat (map (\<lambda>c. if c = sq then [sq, dq, sq, dq, sq] else [c]) s) @ [sq])"

subsection \<open>The token rules of the shell\<close>

datatype sh_token = Lit string | Active string | Op char

definition op_char :: "char \<Rightarrow> bool" where
  "op_char c \<longleftrightarrow> c \<in> set ''|&;<>()''"

definition blank :: "char \<Rightarrow> bool" where
  "blank c \<longleftrightarrow> c = CHR '' '' \<or> code c = 9"

text \<open>Characters that a shell expands or otherwise treats specially in an unquoted word.\<close>

definition active_char :: "char \<Rightarrow> bool" where
  "active_char c \<longleftrightarrow> c \<in> set ''$*?[]#~!{}^'' \<or> code c = 0x60"

datatype sh_mode = Bare | Single | Double

text \<open>
  The word being read is \<open>None\<close> between words, else its text and whether an expansion is active in
  it. \<open>None\<close> as the result is a quote that is not closed.
\<close>

definition emit :: "(string \<times> bool) option \<Rightarrow> sh_token list" where
  "emit cur = (case cur of None \<Rightarrow> [] | Some (w, a) \<Rightarrow> [if a then Active (rev w) else Lit (rev w)])"

definition push :: "char \<Rightarrow> bool \<Rightarrow> (string \<times> bool) option \<Rightarrow> (string \<times> bool) option" where
  "push c act cur = (case cur of None \<Rightarrow> Some ([c], act) | Some (w, a) \<Rightarrow> Some (c # w, a \<or> act))"

definition begin_word :: "(string \<times> bool) option \<Rightarrow> (string \<times> bool) option" where
  "begin_word cur = (case cur of None \<Rightarrow> Some ([], False) | Some p \<Rightarrow> Some p)"

fun sh_lex :: "sh_mode \<Rightarrow> (string \<times> bool) option \<Rightarrow> string \<Rightarrow> sh_token list option" where
  "sh_lex Bare cur [] = Some (emit cur)"
| "sh_lex Single cur [] = None"
| "sh_lex Double cur [] = None"
| "sh_lex Single cur (c # cs) =
     (if c = sq then sh_lex Bare cur cs else sh_lex Single (push c False cur) cs)"
| "sh_lex Double cur (c # cs) =
     (if c = dq then sh_lex Bare cur cs
      else sh_lex Double (push c (c = CHR ''$'' \<or> code c = 0x60 \<or> c = bslash) cur) cs)"
| "sh_lex Bare cur (c # cs) =
     (if c = sq then sh_lex Single (begin_word cur) cs
      else if c = dq then sh_lex Double (begin_word cur) cs
      else if blank c \<or> code c = 10 then map_option ((@) (emit cur)) (sh_lex Bare None cs)
      else if op_char c then map_option ((@) (emit cur @ [Op c])) (sh_lex Bare None cs)
      else if c = bslash then
        (case cs of [] \<Rightarrow> None | d # ds \<Rightarrow> sh_lex Bare (push d False cur) ds)
      else sh_lex Bare (push c (active_char c) cur) cs)"

definition sh_tokens :: "string \<Rightarrow> sh_token list option" where
  "sh_tokens s = sh_lex Bare None s"

subsection \<open>A quoted value is one literal word\<close>

definition grow :: "string \<Rightarrow> (string \<times> bool) option \<Rightarrow> (string \<times> bool) option" where
  "grow s cur = (case cur of None \<Rightarrow> Some (rev s, False) | Some (w, a) \<Rightarrow> Some (rev s @ w, a))"

named_theorems sh_simps "lexing of the pieces of a command"

lemma grow_Some [simp]: "grow s (Some (w, a)) = Some (rev s @ w, a)"
  by (simp add: grow_def)

lemma push_False: "push c False cur = grow [c] cur"
  by (simp add: push_def grow_def split: option.split)

lemma grow_grow [simp]: "grow t (grow s cur) = grow (s @ t) cur"
  by (simp add: grow_def split: option.split)

lemma begin_word_grow: "begin_word cur = grow [] cur"
  by (auto simp: begin_word_def grow_def split: option.split)

lemma quote_safe_bare:
  assumes "quote_safe c"
  shows "c \<noteq> sq" "c \<noteq> dq" "\<not> blank c" "code c \<noteq> 10" "\<not> op_char c" "c \<noteq> bslash" "\<not> active_char c"
  using assms
  by (auto simp: quote_safe_def is_ascii_alnum_def is_ascii_alpha_def is_dec_def sq_def dq_def blank_def
      op_char_def bslash_def active_char_def)

lemma lex_bare_char:
  "quote_safe c \<Longrightarrow> sh_lex Bare cur (c # cs) = sh_lex Bare (grow [c] cur) cs"
  using quote_safe_bare [of c] by (simp add: push_False)

lemma lex_bare_text [sh_simps]:
  "list_all quote_safe s \<Longrightarrow> s \<noteq> [] \<Longrightarrow> sh_lex Bare cur (s @ r) = sh_lex Bare (grow s cur) r"
proof (induction s arbitrary: cur)
  case Nil
  then show ?case by simp
next
  case (Cons c s)
  then show ?case by (cases "s = []") (simp_all add: lex_bare_char del: sh_lex.simps)
qed

lemma lex_single_text:
  "sh_lex Single (Some p) (concat (map (\<lambda>c. if c = sq then [sq, dq, sq, dq, sq] else [c]) s) @ [sq] @ r)
     = sh_lex Bare (grow s (Some p)) r"
proof (induction s arbitrary: p)
  case Nil
  then show ?case by (cases p) simp
next
  case (Cons c s)
  obtain w a where p: "p = (w, a)" by (rule prod.exhaust)
  have [simp]: "sq \<noteq> dq" "dq \<noteq> sq" "sq \<noteq> CHR ''$''" "code sq \<noteq> 0x60" "sq \<noteq> bslash"
    by (simp_all add: sq_def dq_def bslash_def)
  show ?case
    using Cons [of "(c # w, a)"] by (cases "c = sq") (simp_all add: p push_def begin_word_def)
qed

lemma lex_quote [sh_simps]: "sh_lex Bare cur (shlex_quote s @ r) = sh_lex Bare (grow s cur) r"
proof (cases "s = [] \<or> \<not> list_all quote_safe s")
  case True
  obtain p where p: "begin_word cur = Some p" by (cases cur) (auto simp: begin_word_def)
  have "shlex_quote s = sq # concat (map (\<lambda>c. if c = sq then [sq, dq, sq, dq, sq] else [c]) s) @ [sq]"
    using True by (auto simp: shlex_quote_def)
  then show ?thesis
    using lex_single_text [of p s r] by (simp add: p flip: p) (simp add: begin_word_grow p)
next
  case False
  then show ?thesis by (simp add: shlex_quote_def lex_bare_text)
qed

lemma lex_quote_end [sh_simps]: "sh_lex Bare cur (shlex_quote s) = Some (emit (grow s cur))"
  using lex_quote [of cur s "[]"] by simp

lemma lex_blank [sh_simps]:
  "sh_lex Bare cur (CHR '' '' # r) = map_option ((@) (emit cur)) (sh_lex Bare None r)"
  by (simp add: sq_def dq_def blank_def)

lemma emit_simps [simp]:
  "emit None = []" "emit (grow s None) = [Lit s]" "emit (Some (w, a)) = [if a then Active (rev w) else Lit (rev w)]"
  by (simp_all add: emit_def grow_def)

lemma map_option_append_comp [simp]:
  "map_option ((@) xs) (map_option ((@) ys) z) = map_option ((@) (xs @ ys)) z"
  by (cases z) simp_all

end
