(* ===== verification/State_Store.thy ===== *)
theory State_Store
  imports Models
begin

section \<open>State store (\<open>state.py\<close>)\<close>

text \<open>
  \<open>StateStore\<close>: process and session records and the cached topology in memory, and the state file.
  The file holds a JSON value (\<open>json.loads\<close> of what \<open>json.dumps\<close> wrote is the value written), or it
  is missing or unreadable. What Pydantic does is the record \<open>codec\<close>: validation, which may fail,
  and dumping. The topology type is a parameter. A write that the environment lets fail raises the
  \<open>OSError\<close> after the memory was changed; the file is replaced as a whole or not at all.
\<close>

datatype state_file = SF_missing | SF_corrupt | SF_undecodable | SF_json json

record 't codec =
  cd_process :: "json \<Rightarrow> process_record option"
  cd_session :: "json \<Rightarrow> session_record option"
  cd_topology :: "json \<Rightarrow> 't option"
  cd_dump_process :: "process_record \<Rightarrow> json"
  cd_dump_session :: "session_record \<Rightarrow> json"
  cd_dump_topology :: "'t \<Rightarrow> json"

record 't state_store =
  ss_processes :: "(string, process_record) dict"
  ss_sessions :: "(string, session_record) dict"
  ss_topology :: "'t option"
  ss_file :: state_file
  ss_writes :: nat

definition StateStore :: "state_file \<Rightarrow> 't state_store" where
  "StateStore f =
     \<lparr>ss_processes = [], ss_sessions = [], ss_topology = None, ss_file = f, ss_writes = 0\<rparr>"

definition SCHEMA_VERSION :: int where
  "SCHEMA_VERSION = 2"

subsection \<open>Loading\<close>

definition ss_empty :: "'t state_store \<Rightarrow> 't state_store" where
  "ss_empty s = s\<lparr>ss_processes := [], ss_sessions := [], ss_topology := None\<rparr>"

text \<open>\<open>isinstance(x, int)\<close>: a Boolean is an \<open>int\<close> in Python.\<close>

definition json_int :: "json \<Rightarrow> int option" where
  "json_int j = (case j of JInt i \<Rightarrow> Some i | JBool b \<Rightarrow> Some (if b then 1 else 0) | _ \<Rightarrow> None)"

text \<open>\<open>data.get(k, {}).items()\<close>: an \<open>AttributeError\<close> unless the value is an object.\<close>

definition json_items :: "json_obj \<Rightarrow> string \<Rightarrow> (string \<times> json) list result" where
  "json_items data k =
     (case map_of data k of
        None \<Rightarrow> Inr []
      | Some (JObj d) \<Rightarrow> Inr d
      | Some _ \<Rightarrow> Inl PyAttributeError)"

fun load_records :: "(json \<Rightarrow> 'r option) \<Rightarrow> ('r \<Rightarrow> 'r) \<Rightarrow> (string \<times> json) list \<Rightarrow> (string, 'r) dict
    \<Rightarrow> (string, 'r) dict" where
  "load_records validate reset [] recs = recs"
| "load_records validate reset ((k, j) # items) recs =
     (case validate j of
        None \<Rightarrow> load_records validate reset items recs
      | Some r \<Rightarrow> load_records validate reset items (dict_set k (reset r) recs))"

definition pr_unknown :: "process_record \<Rightarrow> process_record" where
  "pr_unknown r = r\<lparr>pr_status := PS_unknown\<rparr>"

definition sr_unknown :: "session_record \<Rightarrow> session_record" where
  "sr_unknown r = r\<lparr>sr_status := PS_unknown\<rparr>"

definition load_topology :: "'t codec \<Rightarrow> json_obj \<Rightarrow> 't option" where
  "load_topology cd data =
     (case map_of data ''topology'' of
        None \<Rightarrow> None
      | Some JNull \<Rightarrow> None
      | Some j \<Rightarrow> cd_topology cd j)"

definition load_object :: "'t codec \<Rightarrow> json_obj \<Rightarrow> 't state_store \<Rightarrow> 't state_store \<times> unit result" where
  "load_object cd data s =
     (case json_int (case map_of data ''schema_version'' of None \<Rightarrow> JInt 1 | Some v \<Rightarrow> v) of
        None \<Rightarrow> (ss_empty s, Inr ())
      | Some v \<Rightarrow>
          if v > SCHEMA_VERSION then (s, Inl McpSshError)
          else
            (case json_items data ''processes'' of
               Inl e \<Rightarrow> (s, Inl e)
             | Inr ps \<Rightarrow>
                 (case json_items data ''sessions'' of
                    Inl e \<Rightarrow> (s, Inl e)
                  | Inr ss \<Rightarrow>
                      (s\<lparr>ss_processes := load_records (cd_process cd) pr_unknown ps [],
                         ss_sessions := load_records (cd_session cd) sr_unknown ss [],
                         ss_topology := load_topology cd data\<rparr>, Inr ()))))"

definition state_load :: "'t codec \<Rightarrow> 't state_store \<Rightarrow> 't state_store \<times> unit result" where
  "state_load cd s =
     (case ss_file s of
        SF_missing \<Rightarrow> (ss_empty s, Inr ())
      | SF_corrupt \<Rightarrow> (ss_empty s, Inr ())
      | SF_undecodable \<Rightarrow> (s, Inl PyValueError)
      | SF_json (JObj data) \<Rightarrow> load_object cd data s
      | SF_json _ \<Rightarrow> (ss_empty s, Inr ()))"

subsection \<open>Persisting\<close>

definition state_payload :: "'t codec \<Rightarrow> 't state_store \<Rightarrow> json" where
  "state_payload cd s = JObj
     [(''schema_version'', JInt SCHEMA_VERSION),
      (''processes'', JObj (map (\<lambda>(k, r). (k, cd_dump_process cd r)) (ss_processes s))),
      (''sessions'', JObj (map (\<lambda>(k, r). (k, cd_dump_session cd r)) (ss_sessions s))),
      (''topology'', (case ss_topology s of None \<Rightarrow> JNull | Some t \<Rightarrow> cd_dump_topology cd t))]"

definition state_persist ::
    "(nat \<Rightarrow> bool) \<Rightarrow> 't codec \<Rightarrow> 't state_store \<Rightarrow> 't state_store \<times> unit result" where
  "state_persist write_ok cd s =
     (if write_ok (ss_writes s)
      then (s\<lparr>ss_file := SF_json (state_payload cd s), ss_writes := Suc (ss_writes s)\<rparr>, Inr ())
      else (s\<lparr>ss_writes := Suc (ss_writes s)\<rparr>, Inl PyOSError))"

definition upsert_process ::
    "(nat \<Rightarrow> bool) \<Rightarrow> 't codec \<Rightarrow> process_record \<Rightarrow> 't state_store \<Rightarrow> 't state_store \<times> unit result" where
  "upsert_process write_ok cd rec s =
     state_persist write_ok cd (s\<lparr>ss_processes := dict_set (pr_id rec) rec (ss_processes s)\<rparr>)"

definition upsert_session ::
    "(nat \<Rightarrow> bool) \<Rightarrow> 't codec \<Rightarrow> session_record \<Rightarrow> 't state_store \<Rightarrow> 't state_store \<times> unit result" where
  "upsert_session write_ok cd rec s =
     state_persist write_ok cd (s\<lparr>ss_sessions := dict_set (sr_id rec) rec (ss_sessions s)\<rparr>)"

definition set_topology ::
    "(nat \<Rightarrow> bool) \<Rightarrow> 't codec \<Rightarrow> 't \<Rightarrow> 't state_store \<Rightarrow> 't state_store \<times> unit result" where
  "set_topology write_ok cd t s = state_persist write_ok cd (s\<lparr>ss_topology := Some t\<rparr>)"

definition get_topology :: "'t state_store \<Rightarrow> 't option" where
  "get_topology s = ss_topology s"

definition get_process :: "string \<Rightarrow> 't state_store \<Rightarrow> process_record option" where
  "get_process i s = map_of (ss_processes s) i"

definition get_session :: "string \<Rightarrow> 't state_store \<Rightarrow> session_record option" where
  "get_session i s = map_of (ss_sessions s) i"

definition list_processes :: "string option \<Rightarrow> 't state_store \<Rightarrow> process_record list" where
  "list_processes server s =
     (case server of None \<Rightarrow> dict_values (ss_processes s)
      | Some n \<Rightarrow> filter (\<lambda>r. pr_server r = n) (dict_values (ss_processes s)))"

definition list_sessions :: "string option \<Rightarrow> 't state_store \<Rightarrow> session_record list" where
  "list_sessions server s =
     (case server of None \<Rightarrow> dict_values (ss_sessions s)
      | Some n \<Rightarrow> filter (\<lambda>r. sr_server r = n) (dict_values (ss_sessions s)))"

subsection \<open>The contract of a keyed record table\<close>

locale record_store =
  fixes upsert :: "'r \<Rightarrow> 's \<Rightarrow> 's \<times> unit result"
    and lookup :: "string \<Rightarrow> 's \<Rightarrow> 'r option"
    and entries :: "'s \<Rightarrow> 'r list"
    and key :: "'r \<Rightarrow> string"
    and keyed :: "'s \<Rightarrow> bool"
  assumes lookup_upsert: "lookup k (fst (upsert r s)) = (if k = key r then Some r else lookup k s)"
    and keyed_upsert: "keyed s \<Longrightarrow> keyed (fst (upsert r s))"
    and entries_lookup: "keyed s \<Longrightarrow> r \<in> set (entries s) \<longleftrightarrow> lookup (key r) s = Some r"
begin

text \<open>After any sequence of upserts, the entry of a key is the last one written for it.\<close>

lemma lookup_upserts:
  "lookup k (fold (\<lambda>r s. fst (upsert r s)) rs s)
     = (case find (\<lambda>r. key r = k) (rev rs) of Some r \<Rightarrow> Some r | None \<Rightarrow> lookup k s)"
proof (induction rs arbitrary: s)
  case Nil
  then show ?case by simp
next
  case (Cons r rs)
  have "find P (xs @ ys) = (case find P xs of Some x \<Rightarrow> Some x | None \<Rightarrow> find P ys)" for P and xs ys :: "'r list"
    by (induction xs) auto
  with Cons show ?case by (auto simp: lookup_upsert split: option.splits)
qed

lemma entries_upsert:
  "keyed s \<Longrightarrow> set (entries (fst (upsert r s))) = insert r {x \<in> set (entries s). key x \<noteq> key r}"
  using entries_lookup [of "fst (upsert r s)"] entries_lookup [of s] keyed_upsert lookup_upsert
  by (auto split: if_splits)

end

definition processes_keyed :: "'t state_store \<Rightarrow> bool" where
  "processes_keyed s \<longleftrightarrow> dict_ok (ss_processes s) \<and> list_all (\<lambda>(k, r). pr_id r = k) (ss_processes s)"

definition sessions_keyed :: "'t state_store \<Rightarrow> bool" where
  "sessions_keyed s \<longleftrightarrow> dict_ok (ss_sessions s) \<and> list_all (\<lambda>(k, r). sr_id r = k) (ss_sessions s)"

lemma state_persist_memory [simp]:
  "ss_processes (fst (state_persist w cd s)) = ss_processes s"
  "ss_sessions (fst (state_persist w cd s)) = ss_sessions s"
  "ss_topology (fst (state_persist w cd s)) = ss_topology s"
  by (simp_all add: state_persist_def)

lemma keyed_dict_set:
  "list_all (\<lambda>(k, r). f r = k) d \<Longrightarrow> list_all (\<lambda>(k, r). f r = k) (dict_set (f x) x d)"
  using set_dict_set_subset [of "f x" x d] by (fastforce simp: list_all_iff)

lemma keyed_dict_values:
  "dict_ok d \<Longrightarrow> list_all (\<lambda>(k, r). f r = k) d \<Longrightarrow> r \<in> set (dict_values d) \<longleftrightarrow> map_of d (f r) = Some r"
  by (force simp: dict_values_def list_all_iff dict_ok_def dest: map_of_SomeD)

interpretation process_table:
  record_store "upsert_process w cd" get_process "list_processes None" pr_id processes_keyed
  for w cd
  by unfold_locales
    (auto simp: upsert_process_def get_process_def list_processes_def processes_keyed_def
      keyed_dict_set keyed_dict_values)

interpretation session_table:
  record_store "upsert_session w cd" get_session "list_sessions None" sr_id sessions_keyed
  for w cd
  by unfold_locales
    (auto simp: upsert_session_def get_session_def list_sessions_def sessions_keyed_def
      keyed_dict_set keyed_dict_values)

subsection \<open>Properties\<close>

lemma load_records_get:
  assumes "distinct (map fst items)"
  shows "map_of (load_records validate reset items recs) k =
     (case map_of items k of
        None \<Rightarrow> map_of recs k
      | Some j \<Rightarrow> (case validate j of None \<Rightarrow> map_of recs k | Some r \<Rightarrow> Some (reset r)))"
  using assms
proof (induction items arbitrary: recs)
  case Nil
  then show ?case by simp
next
  case (Cons p items)
  obtain i j where p: "p = (i, j)" by (rule prod.exhaust)
  have "i \<notin> fst ` set items" using Cons.prems p by auto
  then have "map_of items i = None" by (simp add: map_of_eq_None_iff)
  with Cons p show ?case by (auto split: option.split)
qed

lemma load_records_dumped:
  assumes "dict_ok recs" and "\<And>k r. (k, r) \<in> set recs \<Longrightarrow> validate (dump r) = Some r"
    and "\<And>k. k \<in> fst ` set acc \<Longrightarrow> k \<notin> fst ` set recs"
  shows "load_records validate reset (map (\<lambda>(k, r). (k, dump r)) recs) acc
    = acc @ map (\<lambda>(k, r). (k, reset r)) recs"
  using assms
proof (induction recs arbitrary: acc)
  case Nil
  then show ?case by simp
next
  case (Cons p recs)
  obtain k r where p: "p = (k, r)" by (rule prod.exhaust)
  have "validate (dump r) = Some r" using Cons.prems(2) [of k r] p by simp
  moreover have "map_of acc k = None" using Cons.prems(3) [of k] p by (auto simp: map_of_eq_None_iff)
  then have "dict_set k (reset r) acc = acc @ [(k, reset r)]" by (rule dict_set_fresh)
  moreover have "load_records validate reset (map (\<lambda>(k, r). (k, dump r)) recs) (acc @ [(k, reset r)])
      = (acc @ [(k, reset r)]) @ map (\<lambda>(k, r). (k, reset r)) recs"
  proof (rule Cons.IH)
    show "dict_ok recs" using Cons.prems(1) p by (simp add: dict_ok_def)
    show "validate (dump r') = Some r'" if "(k', r') \<in> set recs" for k' r'
      using Cons.prems(2) that by auto
    show "k' \<notin> fst ` set recs" if "k' \<in> fst ` set (acc @ [(k, reset r)])" for k'
      using that Cons.prems(1) Cons.prems(3) [of k'] p by (auto simp: dict_ok_def)
  qed
  ultimately show ?case using p by simp
qed

text \<open>What the codec must do on the records at hand.\<close>

definition codec_ok :: "'t codec \<Rightarrow> 't state_store \<Rightarrow> bool" where
  "codec_ok cd s \<longleftrightarrow>
     (\<forall>(k, r) \<in> set (ss_processes s). cd_process cd (cd_dump_process cd r) = Some r)
     \<and> (\<forall>(k, r) \<in> set (ss_sessions s). cd_session cd (cd_dump_session cd r) = Some r)
     \<and> (\<forall>t. ss_topology s = Some t \<longrightarrow> cd_topology cd (cd_dump_topology cd t) = Some t
           \<and> cd_dump_topology cd t \<noteq> JNull)"

text \<open>C17: A server that restarts after a successful write finds every process and session again, under
  its id and in the same order, with its status reset to \<open>unknown\<close> and nothing else changed, and the
  same topology (given that Pydantic reads back what it dumped).\<close>

theorem state_restart_roundtrip:
  assumes "state_persist w cd s = (s', Inr ())" and "codec_ok cd s"
    and "dict_ok (ss_processes s)" and "dict_ok (ss_sessions s)"
  shows "\<exists>s2. state_load cd (StateStore (ss_file s')) = (s2, Inr ())
    \<and> ss_processes s2 = map (\<lambda>(k, r). (k, pr_unknown r)) (ss_processes s)
    \<and> ss_sessions s2 = map (\<lambda>(k, r). (k, sr_unknown r)) (ss_sessions s)
    \<and> ss_topology s2 = ss_topology s"
proof -
  have f: "ss_file s' = SF_json (state_payload cd s)"
    using assms(1) by (auto simp: state_persist_def split: if_splits)
  have p: "load_records (cd_process cd) pr_unknown
      (map (\<lambda>(k, r). (k, cd_dump_process cd r)) (ss_processes s)) []
      = map (\<lambda>(k, r). (k, pr_unknown r)) (ss_processes s)"
    using load_records_dumped [of "ss_processes s" "cd_process cd" "cd_dump_process cd" "[]" pr_unknown]
      assms(2,3) by (auto simp: codec_ok_def)
  have q: "load_records (cd_session cd) sr_unknown
      (map (\<lambda>(k, r). (k, cd_dump_session cd r)) (ss_sessions s)) []
      = map (\<lambda>(k, r). (k, sr_unknown r)) (ss_sessions s)"
    using load_records_dumped [of "ss_sessions s" "cd_session cd" "cd_dump_session cd" "[]" sr_unknown]
      assms(2,4) by (auto simp: codec_ok_def)
  obtain data where d: "state_payload cd s = JObj data" by (simp add: state_payload_def)
  have t: "load_topology cd data = ss_topology s"
    using assms(2) d unfolding state_payload_def load_topology_def codec_ok_def
    by (cases "ss_topology s") (auto split: json.splits)
  have "load_object cd data (StateStore (ss_file s')) =
      ((StateStore (ss_file s'))\<lparr>ss_processes := map (\<lambda>(k, r). (k, pr_unknown r)) (ss_processes s),
         ss_sessions := map (\<lambda>(k, r). (k, sr_unknown r)) (ss_sessions s),
         ss_topology := ss_topology s\<rparr>, Inr ())"
    using d p q t by (auto simp: load_object_def state_payload_def json_int_def json_items_def SCHEMA_VERSION_def)
  with f d show ?thesis by (simp add: state_load_def StateStore_def)
qed

text \<open>A codec for one concrete record, to run the model.\<close>

definition example_process :: process_record where
  "example_process = \<lparr>pr_id = ''p1'', pr_server = ''a'', pr_command = ''make'', pr_remote_pid = 42,
     pr_log_file = ''/tmp/l'', pr_exit_file = ''/tmp/e'', pr_started_at = 5, pr_last_checked = None,
     pr_status = PS_running, pr_exit_code = None\<rparr>"

definition example_codec :: "int codec" where
  "example_codec =
     \<lparr>cd_process = (\<lambda>j. if j = JStr ''p1'' then Some example_process else None), cd_session = (\<lambda>j. None),
      cd_topology = (\<lambda>j. case j of JInt i \<Rightarrow> Some i | _ \<Rightarrow> None),
      cd_dump_process = (\<lambda>r. JStr (pr_id r)), cd_dump_session = (\<lambda>r. JNull), cd_dump_topology = JInt\<rparr>"

definition example_store :: "int state_store" where
  "example_store = (StateStore SF_missing)
     \<lparr>ss_processes := [(''p1'', example_process)], ss_topology := Some 7\<rparr>"

lemma state_restart_roundtrip_witness:
  "\<exists>s2. state_load example_codec (StateStore (SF_json (state_payload example_codec example_store))) = (s2, Inr ())
     \<and> get_process ''p1'' s2 = Some (example_process\<lparr>pr_status := PS_unknown\<rparr>)"
proof -
  have w: "state_persist (\<lambda>_. True) example_codec example_store
      = (example_store\<lparr>ss_file := SF_json (state_payload example_codec example_store), ss_writes := 1\<rparr>, Inr ())"
    by (simp add: state_persist_def example_store_def StateStore_def)
  have "codec_ok example_codec example_store" "dict_ok (ss_processes example_store)" "dict_ok (ss_sessions example_store)"
    by (simp_all add: codec_ok_def example_codec_def example_store_def example_process_def StateStore_def dict_ok_def)
  from state_restart_roundtrip [OF w this] show ?thesis
    by (auto simp: get_process_def example_store_def pr_unknown_def)
qed

text \<open>A corrupt record costs only itself: when \<open>load\<close> succeeds on a JSON object of a supported
  version, each process of the file is found under its key exactly when it validates, whatever
  stands beside it.\<close>

theorem load_skips_only_corrupt:
  assumes "ss_file s = SF_json (JObj data)" and "map_of data ''schema_version'' = Some (JInt v)" and "v \<le> 2"
    and "map_of data ''processes'' = Some (JObj ps)" and "distinct (map fst ps)"
    and "map_of data ''sessions'' = Some (JObj ss)"
  shows "\<exists>s'. state_load cd s = (s', Inr ()) \<and> (\<forall>k. get_process k s' =
      Option.bind (map_of ps k) (\<lambda>j. map_option pr_unknown (cd_process cd j)))"
  using assms load_records_get [OF assms(5), of "cd_process cd" pr_unknown "[]"]
  by (auto simp: state_load_def load_object_def json_int_def json_items_def SCHEMA_VERSION_def get_process_def
      split: option.split)

lemma load_skips_only_corrupt_witness:
  "\<exists>s'. state_load example_codec (StateStore (SF_json (JObj [(''schema_version'', JInt 1),
       (''processes'', JObj [(''x'', JNull), (''p1'', JStr ''p1'')]), (''sessions'', JObj [])]))) = (s', Inr ())
     \<and> get_process ''x'' s' = None \<and> get_process ''p1'' s' \<noteq> None"
proof -
  let ?ps = "[(''x'', JNull), (''p1'', JStr ''p1'')]"
  let ?d = "[(''schema_version'', JInt 1), (''processes'', JObj ?ps), (''sessions'', JObj [])]"
  have "ss_file (StateStore (SF_json (JObj ?d)) :: int state_store) = SF_json (JObj ?d)"
    by (simp add: StateStore_def)
  from load_skips_only_corrupt [OF this, of 1 ?ps "[]" example_codec] show ?thesis
    by (auto simp: example_codec_def)
qed


end
