(* ===== verification/Session.thy ===== *)
theory Session
  imports Shell State_Store Audit_Log "HOL-Library.Word"
begin

section \<open>Background processes (\<open>session.py\<close>)\<close>

text \<open>
  The session manager: its state, what it asks of its surroundings, and the operations on background
  processes. The connection pool is the function \<open>se_get\<close> (its \<open>get_connection\<close>), the state
  store the model of \<open>state.py\<close>. \<open>conn.run\<close> and \<open>conn.create_process\<close> are answered by the
  environment: the answer may depend on everything asked before through the number of the call, and
  the calls are kept as a trace. \<open>uuid4\<close> gives the ids \<open>se_uuid\<close>. PTY sessions are in the theory
  \<open>Pty\<close>.
\<close>

subsection \<open>State and environment\<close>

type_synonym byte = "8 word"

record ('p, 't) session_manager =
  sm_pool :: 'p
  sm_state :: "'t state_store"
  sm_audit :: audit_state
  sm_runs :: "(nat \<times> string) list"
  sm_spawns :: "(nat \<times> string \<times> int \<times> int) list"
  sm_written :: "(nat \<times> string) list"
  sm_resized :: "(nat \<times> int \<times> int) list"
  sm_closed :: "nat list"
  sm_uuids :: nat
  sm_flush_wrappers :: "(string, string) dict"
  sm_pty_procs :: "(string, nat) dict"
  sm_pty_buffers :: "(string, byte list list) dict"
  sm_drain_tasks :: "(string, nat) dict"
  sm_tmux_logs :: "(string, string) dict"
  sm_tmux_sessions :: "(string, string) dict"
  sm_tmux_conns :: "(string, nat) dict"

record ('p, 't) session_env =
  se_get :: "string \<Rightarrow> 'p \<Rightarrow> 'p \<times> nat result"
  se_run :: "nat \<Rightarrow> nat \<Rightarrow> string \<Rightarrow> (string \<times> int) result"
  se_spawn :: "nat \<Rightarrow> nat \<Rightarrow> string \<Rightarrow> py_exn option"
  se_uuid :: "nat \<Rightarrow> string"
  se_now :: int
  se_settings :: global_settings
  se_servers :: "(string, server_config) dict"
  se_registry :: "(string \<Rightarrow> server_config result) option"
  se_writes :: "nat \<Rightarrow> bool"
  se_codec :: "'t codec"
  se_decode :: "byte list \<Rightarrow> string"

definition SessionManager :: "'p \<Rightarrow> 't state_store \<Rightarrow> audit_state \<Rightarrow> ('p, 't) session_manager" where
  "SessionManager p s a =
     \<lparr>sm_pool = p, sm_state = s, sm_audit = a, sm_runs = [], sm_spawns = [], sm_written = [],
      sm_resized = [], sm_closed = [], sm_uuids = 0, sm_flush_wrappers = [], sm_pty_procs = [],
      sm_pty_buffers = [], sm_drain_tasks = [], sm_tmux_logs = [], sm_tmux_sessions = [],
      sm_tmux_conns = []\<rparr>"

type_synonym ('p, 't, 'a) session_op = "('p, 't) session_manager \<Rightarrow> ('p, 't) session_manager \<times> 'a result"

subsection \<open>What the manager asks of the others\<close>

definition sm_get :: "('p, 't) session_env \<Rightarrow> string \<Rightarrow> ('p, 't, nat) session_op" where
  "sm_get env server m = (case se_get env server (sm_pool m) of (p, r) \<Rightarrow> (m\<lparr>sm_pool := p\<rparr>, r))"

definition sm_run :: "('p, 't) session_env \<Rightarrow> nat \<Rightarrow> string \<Rightarrow> ('p, 't, string \<times> int) session_op" where
  "sm_run env conn cmd m =
     (m\<lparr>sm_runs := sm_runs m @ [(conn, cmd)]\<rparr>, se_run env (length (sm_runs m)) conn cmd)"

definition new_uuid :: "('p, 't) session_env \<Rightarrow> ('p, 't, string) session_op" where
  "new_uuid env m = (m\<lparr>sm_uuids := Suc (sm_uuids m)\<rparr>, Inr (se_uuid env (sm_uuids m)))"

definition sm_upsert_process :: "('p, 't) session_env \<Rightarrow> process_record \<Rightarrow> ('p, 't, unit) session_op" where
  "sm_upsert_process env r m =
     (case upsert_process (se_writes env) (se_codec env) r (sm_state m) of (s, x) \<Rightarrow> (m\<lparr>sm_state := s\<rparr>, x))"

definition sm_upsert_session :: "('p, 't) session_env \<Rightarrow> session_record \<Rightarrow> ('p, 't, unit) session_op" where
  "sm_upsert_session env r m =
     (case upsert_session (se_writes env) (se_codec env) r (sm_state m) of (s, x) \<Rightarrow> (m\<lparr>sm_state := s\<rparr>, x))"

definition sm_log :: "audit_event \<Rightarrow> ('p, 't) session_manager \<Rightarrow> ('p, 't) session_manager" where
  "sm_log e m = m\<lparr>sm_audit := audit_log e (sm_audit m)\<rparr>"

definition get_record :: "string \<Rightarrow> ('p, 't, process_record) session_op" where
  "get_record i m = (m, case get_process i (sm_state m) of None \<Rightarrow> Inl ProcessNotFound | Some r \<Rightarrow> Inr r)"

definition sm_cache_wrapper :: "string \<Rightarrow> string \<Rightarrow> ('p, 't, string) session_op" where
  "sm_cache_wrapper server w m = (m\<lparr>sm_flush_wrappers := dict_set server w (sm_flush_wrappers m)\<rparr>, Inr w)"

subsection \<open>The commands\<close>

text \<open>\<open>uname_of\<close> reads the first answer; \<open>wrapper_of\<close> the second, whose last line does not exist
  when the answer is blank: an \<open>IndexError\<close>.\<close>

definition uname_windows :: "string \<Rightarrow> bool" where
  "uname_windows out =
     (let uname = lower (strip out)
      in uname = [] \<or> uname = ''_unknown_''
         \<or> list_ex (\<lambda>tok. contains tok uname) [''windows'', ''mingw'', ''cygwin''])"

definition wrapper_of :: "string \<Rightarrow> string result" where
  "wrapper_of out =
     (let ls = splitlines (strip (if out = [] then ''none'' else out))
      in if ls = [] then Inl PyIndexError
         else if contains ''stdbuf'' (last ls) then Inr ''stdbuf''
         else if contains ''script'' (last ls) then Inr ''script''
         else Inr ''none'')"

definition UNAME_CMD :: string where
  "UNAME_CMD = ''uname -s 2>/dev/null || echo _unknown_''"

definition WRAPPER_CMD :: string where
  "WRAPPER_CMD = ''(which stdbuf 2>/dev/null && echo stdbuf) || ''
     @ ''(which script 2>/dev/null && echo script) || echo none''"

definition detect_flush_wrapper :: "('p, 't) session_env \<Rightarrow> string \<Rightarrow> nat \<Rightarrow> ('p, 't, string) session_op" where
  "detect_flush_wrapper env server conn m =
     (case map_of (sm_flush_wrappers m) server of
        Some w \<Rightarrow> (m, Inr w)
      | None \<Rightarrow>
          bindR (sm_run env conn UNAME_CMD m) (\<lambda>(out, _) m.
            if uname_windows out then sm_cache_wrapper server ''none'' m
            else
              bindR (sm_run env conn WRAPPER_CMD m) (\<lambda>(out, _) m.
                case wrapper_of out of
                  Inl e \<Rightarrow> (m, Inl e)
                | Inr w \<Rightarrow> sm_cache_wrapper server w m)))"

definition process_log_file :: "string \<Rightarrow> string" where
  "process_log_file i = ''/tmp/mcp-'' @ i @ ''.log''"

definition process_exit_file :: "string \<Rightarrow> string" where
  "process_exit_file i = ''/tmp/mcp-'' @ i @ ''.exit''"

definition env_exports :: "(string \<times> string) list \<Rightarrow> string" where
  "env_exports env = join '' '' (map (\<lambda>(k, v). shlex_quote k @ ''='' @ shlex_quote v) env)"

definition cd_part :: "string option \<Rightarrow> string" where
  "cd_part cwd = (case cwd of Some (c # cs) \<Rightarrow> ''cd '' @ shlex_quote (c # cs) @ '' && '' | _ \<Rightarrow> [])"

definition exec_command :: "string \<Rightarrow> string \<Rightarrow> string" where
  "exec_command wrapper command =
     (if wrapper = ''stdbuf'' then ''stdbuf -oL -eL bash -c '' @ shlex_quote command
      else if wrapper = ''script'' then ''script -q /dev/null -c '' @ shlex_quote command
      else command)"

definition inner_command :: "string \<Rightarrow> string option \<Rightarrow> (string \<times> string) list \<Rightarrow> string \<Rightarrow> string" where
  "inner_command wrapper cwd env command =
     cd_part cwd @ (if env_exports env \<noteq> [] then env_exports env @ '' '' else []) @ exec_command wrapper command"

definition remote_command :: "string \<Rightarrow> string \<Rightarrow> string \<Rightarrow> string" where
  "remote_command inner log_file exit_file =
     ''nohup bash -c '' @ shlex_quote (''('' @ inner @ ''); echo $? > '' @ exit_file)
       @ '' > '' @ log_file @ '' 2>&1 & echo $!''"

subsection \<open>Starting, reading, killing and checking\<close>

definition start_process ::
    "('p, 't) session_env \<Rightarrow> string \<Rightarrow> string \<Rightarrow> string option \<Rightarrow> (string \<times> string) list option
      \<Rightarrow> ('p, 't, string) session_op" where
  "start_process env server command cwd vars m =
     bindR (new_uuid env m) (\<lambda>pid m.
     bindR (sm_get env server m) (\<lambda>conn m.
     bindR (detect_flush_wrapper env server conn m) (\<lambda>wrapper m.
       let inner = inner_command wrapper cwd (case vars of None \<Rightarrow> [] | Some d \<Rightarrow> d) command
       in bindR (sm_run env conn (remote_command inner (process_log_file pid) (process_exit_file pid)) m)
       (\<lambda>(out, _) m.
         case py_int (strip out) of
           None \<Rightarrow> (m, Inl RemoteCommandError)
         | Some n \<Rightarrow>
             if n \<le> 0 then (m, Inl RemoteCommandError)
             else
               bindR (sm_upsert_process env
                   \<lparr>pr_id = pid, pr_server = server, pr_command = command, pr_remote_pid = n,
                    pr_log_file = process_log_file pid, pr_exit_file = process_exit_file pid,
                    pr_started_at = se_now env, pr_last_checked = None, pr_status = PS_running,
                    pr_exit_code = None\<rparr> m) (\<lambda>_ m.
                 (sm_log ((AuditEvent ''start_process'' ''started'' [(''remote_pid'', JInt n)])
                    \<lparr>ae_server := Some server, ae_command := Some command, ae_process_id := Some pid\<rparr>) m,
                  Inr pid))))))"

definition read_exit_cmd :: "process_record \<Rightarrow> string" where
  "read_exit_cmd r = ''test -f '' @ pr_exit_file r @ '' && cat '' @ pr_exit_file r @ '' || true''"

definition tail_cmd :: "process_record \<Rightarrow> int \<Rightarrow> int \<Rightarrow> string" where
  "tail_cmd r max_bytes offset =
     ''tail -c +'' @ show_int (offset + 1) @ '' '' @ pr_log_file r @ '' 2>/dev/null ''
       @ ''| head -c '' @ show_int max_bytes @ '' || true''"

text \<open>The exit code a process left, if the file's text is an integer.\<close>

definition exit_code_of :: "string \<Rightarrow> int option" where
  "exit_code_of out = (if strip out = [] then None else py_int (strip out))"

definition read_process :: "('p, 't) session_env \<Rightarrow> string \<Rightarrow> int \<Rightarrow> int \<Rightarrow> ('p, 't, process_output) session_op" where
  "read_process env pid max_bytes offset m =
     bindR (get_record pid m) (\<lambda>r m.
     bindR (sm_get env (pr_server r) m) (\<lambda>conn m.
     bindR (sm_run env conn (read_exit_cmd r) m) (\<lambda>(exit_out, _) m.
     bindR (sm_run env conn (tail_cmd r max_bytes offset) m) (\<lambda>(log_out, _) m.
       (m, Inr \<lparr>po_output = log_out, po_running = (exit_code_of exit_out = None),
                po_exit_code = exit_code_of exit_out, po_remote_pid = pr_remote_pid r,
                po_server = pr_server r\<rparr>)))))"

definition write_process :: "string \<Rightarrow> string \<Rightarrow> ('p, 't, unit) session_op" where
  "write_process pid data m = (m, Inl RemoteCommandError)"

definition ALLOWED_SIGNALS :: "string list" where
  "ALLOWED_SIGNALS = [''SIGTERM'', ''SIGKILL'', ''SIGINT'', ''SIGHUP'', ''SIGQUIT'', ''SIGUSR1'', ''SIGUSR2'']"

definition kill_cmd :: "string \<Rightarrow> int \<Rightarrow> string" where
  "kill_cmd signal pid = ''kill -'' @ signal @ '' '' @ show_int pid"

definition kill_process :: "('p, 't) session_env \<Rightarrow> string \<Rightarrow> string \<Rightarrow> ('p, 't, unit) session_op" where
  "kill_process env pid signal m =
     bindR (get_record pid m) (\<lambda>r m.
       if signal \<notin> set ALLOWED_SIGNALS then (m, Inl RemoteCommandError)
       else
         bindR (sm_get env (pr_server r) m) (\<lambda>conn m.
         bindR (sm_run env conn (kill_cmd signal (pr_remote_pid r)) m) (\<lambda>_ m.
         bindR (sm_upsert_process env (r\<lparr>pr_status := PS_killed\<rparr>) m) (\<lambda>_ m.
           (sm_log ((AuditEvent ''kill_process'' ''killed''
              [(''signal'', JStr signal), (''remote_pid'', JInt (pr_remote_pid r))])
              \<lparr>ae_server := Some (pr_server r), ae_process_id := Some pid\<rparr>) m,
            Inr ())))))"

definition alive_cmd :: "int \<Rightarrow> string" where
  "alive_cmd pid = ''kill -0 '' @ show_int pid @ '' 2>/dev/null && echo alive || echo dead''"

definition check_tail_cmd :: "process_record \<Rightarrow> string" where
  "check_tail_cmd r = ''tail -c 4096 '' @ pr_log_file r @ '' 2>/dev/null || true''"

definition check_process :: "('p, 't) session_env \<Rightarrow> string \<Rightarrow> ('p, 't, process_output) session_op" where
  "check_process env pid m =
     bindR (get_record pid m) (\<lambda>r m.
     bindR (sm_get env (pr_server r) m) (\<lambda>conn m.
     bindR (sm_run env conn (alive_cmd (pr_remote_pid r)) m) (\<lambda>(live, _) m.
     bindR (sm_run env conn (check_tail_cmd r) m) (\<lambda>(log_out, _) m.
     bindR (sm_run env conn (read_exit_cmd r) m) (\<lambda>(exit_out, _) m.
       let alive = (strip live = ''alive''); code = exit_code_of exit_out
       in bindR (sm_upsert_process env (r\<lparr>pr_status := (if alive then PS_running else PS_exited),
                    pr_exit_code := code, pr_last_checked := Some (se_now env)\<rparr>) m) (\<lambda>_ m.
            (m, Inr \<lparr>po_output = log_out, po_running = alive, po_exit_code = code,
                     po_remote_pid = pr_remote_pid r, po_server = pr_server r\<rparr>)))))))"

definition sm_list_processes :: "string option \<Rightarrow> ('p, 't) session_manager \<Rightarrow> process_record list" where
  "sm_list_processes server m = list_processes server (sm_state m)"

subsection \<open>How the shell reads the commands\<close>

definition cd_tokens :: "string option \<Rightarrow> sh_token list" where
  "cd_tokens cwd = (case cwd of Some (c # cs) \<Rightarrow> [Lit ''cd'', Lit (c # cs), Op CHR ''&'', Op CHR ''&''] | _ \<Rightarrow> [])"

definition env_tokens :: "(string \<times> string) list \<Rightarrow> sh_token list" where
  "env_tokens env = map (\<lambda>(k, v). Lit (k @ ''='' @ v)) env"

definition exec_tokens :: "string \<Rightarrow> string \<Rightarrow> sh_token list option" where
  "exec_tokens wrapper command =
     (if wrapper = ''stdbuf'' then Some (map Lit [''stdbuf'', ''-oL'', ''-eL'', ''bash'', ''-c'', command])
      else if wrapper = ''script'' then Some (map Lit [''script'', ''-q'', ''/dev/null'', ''-c'', command])
      else sh_tokens command)"

lemmas sh_char_defs = sq_def dq_def blank_def op_char_def active_char_def bslash_def

lemma lex_cd: "sh_lex Bare None (cd_part cwd @ r) = map_option ((@) (cd_tokens cwd)) (sh_lex Bare None r)"
proof (cases cwd)
  case None
  then show ?thesis by (cases "sh_lex Bare None r") (simp_all add: cd_part_def cd_tokens_def)
next
  case (Some d)
  show ?thesis
  proof (cases d)
    case Nil
    then show ?thesis using Some by (cases "sh_lex Bare None r") (simp_all add: cd_part_def cd_tokens_def)
  next
    case (Cons c cs)
    then show ?thesis using Some
      by (cases "sh_lex Bare None r")
        (simp_all add: cd_part_def cd_tokens_def sh_simps push_def sh_char_defs emit_def grow_def)
  qed
qed

lemma lex_assignment:
  "sh_lex Bare None (shlex_quote k @ ''='' @ shlex_quote v @ r) = sh_lex Bare (Some (rev (k @ ''='' @ v), False)) r"
  by (simp add: sh_simps grow_def push_def sh_char_defs)

lemma lex_env:
  "env \<noteq> [] \<Longrightarrow> sh_lex Bare None (env_exports env @ '' '' @ r) = map_option ((@) (env_tokens env)) (sh_lex Bare None r)"
proof (induction env)
  case Nil
  then show ?case by simp
next
  case (Cons p env)
  obtain k v where p: "p = (k, v)" by (rule prod.exhaust)
  show ?case
  proof (cases "env = []")
    case True
    then show ?thesis using lex_assignment [of k v "'' '' @ r"]
      by (cases "sh_lex Bare None r")
        (simp_all add: p env_exports_def env_tokens_def sh_simps emit_def del: sh_lex.simps)
  next
    case False
    then obtain q qs where "env = q # qs" by (cases env) auto
    then have "env_exports (p # env) @ '' '' @ r
        = shlex_quote k @ ''='' @ shlex_quote v @ '' '' @ env_exports env @ '' '' @ r"
      by (simp add: p env_exports_def)
    then show ?thesis
      using Cons.IH [OF False] lex_assignment [of k v "'' '' @ env_exports env @ '' '' @ r"]
      by (cases "sh_lex Bare None r") (simp_all add: p env_tokens_def sh_simps emit_def del: sh_lex.simps)
  qed
qed

lemma env_exports_Nil: "env_exports env = [] \<longleftrightarrow> env = []"
  by (cases env; cases "tl env") (auto simp: env_exports_def)

lemma lex_exec: "sh_tokens (exec_command wrapper command) = exec_tokens wrapper command"
  by (simp add: exec_command_def exec_tokens_def sh_tokens_def sh_simps push_def sh_char_defs emit_def grow_def)

lemma inner_command_tokens:
  "sh_tokens (inner_command wrapper cwd env command)
     = map_option ((@) (cd_tokens cwd @ env_tokens env)) (exec_tokens wrapper command)"
proof (cases "env = []")
  case True
  then have "env_exports env = []" "env_tokens env = []" by (simp_all add: env_exports_Nil env_tokens_def)
  then show ?thesis by (simp add: inner_command_def sh_tokens_def lex_cd flip: lex_exec)
next
  case False
  then show ?thesis
    using lex_env [OF False, of "exec_command wrapper command"]
    by (simp add: inner_command_def sh_tokens_def lex_cd env_exports_Nil flip: lex_exec)
qed

lemma remote_command_tokens:
  assumes "list_all quote_safe log_file" and "log_file \<noteq> []"
  shows "sh_tokens (remote_command inner log_file exit_file) = Some
    [Lit ''nohup'', Lit ''bash'', Lit ''-c'', Lit (''('' @ inner @ ''); echo $? > '' @ exit_file),
     Op CHR ''>'', Lit log_file, Lit ''2'', Op CHR ''>'', Op CHR ''&'', Lit ''1'', Op CHR ''&'',
     Lit ''echo'', Active ''$!'']"
  using assms
  by (simp add: remote_command_def sh_tokens_def sh_simps push_def sh_char_defs emit_def grow_def)

subsection \<open>What each part leaves alone\<close>

lemma sm_get_simps [simp]:
  "sm_runs (fst (sm_get env server m)) = sm_runs m" "sm_state (fst (sm_get env server m)) = sm_state m"
  "sm_uuids (fst (sm_get env server m)) = sm_uuids m" "sm_audit (fst (sm_get env server m)) = sm_audit m"
  by (simp_all add: sm_get_def split: prod.split)

lemma sm_run_simps [simp]:
  "sm_runs (fst (sm_run env conn cmd m)) = sm_runs m @ [(conn, cmd)]"
  "sm_state (fst (sm_run env conn cmd m)) = sm_state m" "sm_audit (fst (sm_run env conn cmd m)) = sm_audit m"
  by (simp_all add: sm_run_def)

lemma sm_upsert_process_simps [simp]:
  "sm_runs (fst (sm_upsert_process env r m)) = sm_runs m"
  "sm_state (fst (sm_upsert_process env r m)) = fst (upsert_process (se_writes env) (se_codec env) r (sm_state m))"
  by (simp_all add: sm_upsert_process_def split: prod.split)

lemma sm_log_simps [simp]:
  "sm_runs (sm_log e m) = sm_runs m" "sm_state (sm_log e m) = sm_state m"
  by (simp_all add: sm_log_def)

lemma get_record_Inr [simp]:
  "get_record i m = (m', Inr r) \<longleftrightarrow> m' = m \<and> get_process i (sm_state m) = Some r"
  by (auto simp: get_record_def split: option.split)

lemma detect_flush_wrapper_state: "sm_state (fst (detect_flush_wrapper env server conn m)) = sm_state m"
  by (simp add: detect_flush_wrapper_def sm_cache_wrapper_def sm_run_def bindR_pair
      split: option.split sum.split prod.split)

text \<open>The steps of a successful start.\<close>

lemma start_process_success:
  assumes "start_process env server command cwd vars m = (m', Inr pid)"
  obtains conn m1 wrapper m2 out status n where
    "pid = se_uuid env (sm_uuids m)"
    "detect_flush_wrapper env server conn m1 = (m2, Inr wrapper)" "sm_state m2 = sm_state m"
    "se_run env (length (sm_runs m2)) conn
       (remote_command (inner_command wrapper cwd (case vars of None \<Rightarrow> [] | Some d \<Rightarrow> d) command)
         (process_log_file pid) (process_exit_file pid)) = Inr (out, status)"
    "py_int (strip out) = Some n" "0 < n"
    "sm_runs m' = sm_runs m2 @ [(conn,
       remote_command (inner_command wrapper cwd (case vars of None \<Rightarrow> [] | Some d \<Rightarrow> d) command)
         (process_log_file pid) (process_exit_file pid))]"
    "get_process pid (sm_state m') = Some
       \<lparr>pr_id = pid, pr_server = server, pr_command = command, pr_remote_pid = n,
        pr_log_file = process_log_file pid, pr_exit_file = process_exit_file pid,
        pr_started_at = se_now env, pr_last_checked = None, pr_status = PS_running, pr_exit_code = None\<rparr>"
proof -
  let ?vars = "case vars of None \<Rightarrow> [] | Some d \<Rightarrow> d"
  let ?m0 = "m\<lparr>sm_uuids := Suc (sm_uuids m)\<rparr>"
  obtain conn m1 wrapper m2 m3 out status n m4 where
      get: "sm_get env server ?m0 = (m1, Inr conn)"
    and det: "detect_flush_wrapper env server conn m1 = (m2, Inr wrapper)"
    and run: "sm_run env conn (remote_command (inner_command wrapper cwd ?vars command)
        (process_log_file pid) (process_exit_file pid)) m2 = (m3, Inr (out, status))"
    and pid: "pid = se_uuid env (sm_uuids m)" and n: "py_int (strip out) = Some n" "0 < n"
    and ups: "sm_upsert_process env
       \<lparr>pr_id = pid, pr_server = server, pr_command = command, pr_remote_pid = n,
        pr_log_file = process_log_file pid, pr_exit_file = process_exit_file pid,
        pr_started_at = se_now env, pr_last_checked = None, pr_status = PS_running, pr_exit_code = None\<rparr> m3
        = (m4, Inr ())"
    and m': "sm_runs m' = sm_runs m4" "sm_state m' = sm_state m4"
    using assms
    by (auto simp: start_process_def new_uuid_def Let_def split: option.splits if_splits elim!: bindR_InrE)
  have "sm_state m1 = sm_state m" using sm_get_simps(2) [of env server ?m0] get by simp
  moreover have "sm_state m2 = sm_state m1" using detect_flush_wrapper_state [of env server conn m1] det by simp
  moreover have "sm_runs m4 = sm_runs m3"
    and "get_process pid (sm_state m4) = Some
       \<lparr>pr_id = pid, pr_server = server, pr_command = command, pr_remote_pid = n,
        pr_log_file = process_log_file pid, pr_exit_file = process_exit_file pid,
        pr_started_at = se_now env, pr_last_checked = None, pr_status = PS_running, pr_exit_code = None\<rparr>"
    using arg_cong [OF ups, of "\<lambda>x. sm_runs (fst x)"] arg_cong [OF ups, of "\<lambda>x. sm_state (fst x)"]
    by (auto simp: process_table.lookup_upsert [symmetric])
      (metis (no_types, lifting) process_record.select_convs(1) process_table.lookup_upsert)
  ultimately show thesis using that pid det n run m' by (auto simp: sm_run_def)
qed

subsection \<open>Properties\<close>

lemma log_file_safe: "list_all quote_safe i \<Longrightarrow> list_all quote_safe (process_log_file i)"
  by (simp add: process_log_file_def) (simp add: quote_safe_def is_ascii_alnum_def is_ascii_alpha_def)


definition example_session_env :: "string \<Rightarrow> (unit, unit) session_env" where
  "example_session_env answer =
     \<lparr>se_get = (\<lambda>server p. (p, Inr 0)), se_run = (\<lambda>n conn cmd. Inr (answer, 0)), se_spawn = (\<lambda>n conn cmd. None),
      se_uuid = (\<lambda>n. ''id'' @ show_nat n), se_now = 7, se_settings = GlobalSettings, se_servers = [],
      se_registry = None, se_writes = (\<lambda>n. True),
      se_codec = \<lparr>cd_process = (\<lambda>j. None), cd_session = (\<lambda>j. None), cd_topology = (\<lambda>j. None),
                  cd_dump_process = (\<lambda>r. JNull), cd_dump_session = (\<lambda>r. JNull), cd_dump_topology = (\<lambda>t. JNull)\<rparr>,
      se_decode = map (\<lambda>b. char_of (unat b))\<rparr>"

definition example_manager :: "(unit, unit) session_manager" where
  "example_manager = SessionManager () (StateStore SF_missing) (AuditLog_init False True [])"

lemma example_start:
  "snd (start_process (example_session_env ''4711'') ''a'' ''make; reboot'' (Some ''/a b'') (Some [(''K'', ''$(id)'')]) example_manager)
     = Inr ''id0''"
  by code_simp


end
