(* ===== verification/Ansi.thy ===== *)
theory Ansi
  imports Models
begin

section \<open>Plain text from terminal output (\<open>utils.py\<close>)\<close>

text \<open>
  \<open>strip_ansi\<close> as the regular expression \<open>_ANSI_ESC_RE\<close> works: at an escape character the
  alternatives are tried in order, and \<open>re.sub\<close> goes on behind the match. \<open>ansi_match\<close> gets the
  text behind the escape character and gives what is left behind the match.
\<close>

definition esc :: char where "esc = CHR 0x1B"
definition bel :: char where "bel = CHR 0x07"
definition cr :: char where "cr = CHR 0x0D"
definition lf :: char where "lf = CHR 0x0A"

subsection \<open>The regular expression\<close>

definition csi_param :: "char \<Rightarrow> bool" where
  "csi_param c \<longleftrightarrow> is_dec c \<or> c = CHR '';'' \<or> c = CHR ''?''"

definition csi_match :: "string \<Rightarrow> string option" where
  "csi_match s =
     (case s of
        [] \<Rightarrow> None
      | c # cs \<Rightarrow>
          if c = CHR ''['' then
            (case dropWhile csi_param cs of
               [] \<Rightarrow> None
             | d # ds \<Rightarrow> if is_ascii_alpha d then Some ds else None)
          else None)"

definition osc_match :: "string \<Rightarrow> string option" where
  "osc_match s =
     (case s of
        [] \<Rightarrow> None
      | c # cs \<Rightarrow>
          if c = CHR '']'' then
            (case dropWhile (\<lambda>x. x \<noteq> bel \<and> x \<noteq> esc) cs of
               [] \<Rightarrow> None
             | d # ds \<Rightarrow>
                 if d = bel then Some ds
                 else (case ds of [] \<Rightarrow> None | e # es \<Rightarrow> if e = CHR 0x5C then Some es else None))
          else None)"

definition charset_match :: "string \<Rightarrow> string option" where
  "charset_match s =
     (case s of
        c # d # ds \<Rightarrow> if (c = CHR ''('' \<or> c = CHR '')'') \<and> is_ascii_alnum d then Some ds else None
      | _ \<Rightarrow> None)"

definition any_match :: "string \<Rightarrow> string option" where
  "any_match s = (case s of [] \<Rightarrow> None | c # cs \<Rightarrow> if c = lf then None else Some cs)"

definition ansi_match :: "string \<Rightarrow> string option" where
  "ansi_match s =
     (case csi_match s of
        Some r \<Rightarrow> Some r
      | None \<Rightarrow>
          (case osc_match s of
             Some r \<Rightarrow> Some r
           | None \<Rightarrow> (case charset_match s of Some r \<Rightarrow> Some r | None \<Rightarrow> any_match s)))"

lemma length_dropWhile_Cons: "dropWhile P cs = d # ds \<Longrightarrow> length ds < length cs"
  using length_dropWhile_le [of P cs] by simp

lemma ansi_match_shorter: "ansi_match s = Some r \<Longrightarrow> length r < length s"
  by (auto simp: ansi_match_def csi_match_def osc_match_def charset_match_def any_match_def
      split: option.splits list.splits if_splits dest!: length_dropWhile_Cons)

function sub_escapes :: "string \<Rightarrow> string" where
  "sub_escapes [] = []"
| "sub_escapes (c # cs) =
     (if c = esc then
        (case ansi_match cs of
           Some rest \<Rightarrow> sub_escapes rest
         | None \<Rightarrow> c # sub_escapes cs)
      else c # sub_escapes cs)"
  by pat_completeness auto
termination
  by (relation "measure length") (auto dest: ansi_match_shorter)

subsection \<open>Line ends\<close>

text \<open>\<open>.replace("\r\n", "\n").replace("\r", "\n")\<close>\<close>

fun replace_crlf :: "string \<Rightarrow> string" where
  "replace_crlf [] = []"
| "replace_crlf [c] = [c]"
| "replace_crlf (c # d # cs) =
     (if c = cr \<and> d = lf then lf # replace_crlf cs else c # replace_crlf (d # cs))"

definition replace_cr :: "string \<Rightarrow> string" where
  "replace_cr s = map (\<lambda>c. if c = cr then lf else c) s"

definition strip_ansi :: "string \<Rightarrow> string" where
  "strip_ansi text = replace_cr (replace_crlf (sub_escapes text))"

subsection \<open>Facts\<close>

text \<open>No escape sequence starts in the text: an escape character is last or before a line feed.\<close>

fun escapes_closed :: "string \<Rightarrow> bool" where
  "escapes_closed [] \<longleftrightarrow> True"
| "escapes_closed (c # cs) \<longleftrightarrow> (c = esc \<longrightarrow> cs = [] \<or> hd cs = lf) \<and> escapes_closed cs"

lemma ansi_match_None: "ansi_match s = None \<longleftrightarrow> s = [] \<or> hd s = lf"
proof -
  have lf: "lf \<noteq> CHR ''[''" "lf \<noteq> CHR '']''" "lf \<noteq> CHR ''(''" "lf \<noteq> CHR '')''" by (simp_all add: lf_def)
  then show ?thesis
    by (auto simp: ansi_match_def any_match_def csi_match_def osc_match_def charset_match_def
        split: option.splits list.splits if_splits)
qed

lemma hd_sub_escapes: "s \<noteq> [] \<Longrightarrow> hd s = lf \<Longrightarrow> sub_escapes s \<noteq> [] \<and> hd (sub_escapes s) = lf"
  by (cases s) (auto simp: lf_def esc_def)

lemma sub_escapes_closed: "escapes_closed (sub_escapes s)"
proof (induction s rule: sub_escapes.induct)
  case 1
  then show ?case by simp
next
  case (2 c cs)
  then show ?case
  proof (cases "c = esc")
    case True
    show ?thesis
    proof (cases "ansi_match cs")
      case None
      then have "cs = [] \<or> hd cs = lf" by (simp add: ansi_match_None)
      then have "sub_escapes cs = [] \<or> hd (sub_escapes cs) = lf"
        using hd_sub_escapes by (cases "cs = []") auto
      then show ?thesis using 2 True None by auto
    qed (use 2 True in simp)
  qed simp
qed

lemma hd_replace_crlf: "replace_crlf s \<noteq> [] \<longleftrightarrow> s \<noteq> []" "s \<noteq> [] \<Longrightarrow> hd s = lf \<Longrightarrow> hd (replace_crlf s) = lf"
  by (cases s rule: replace_crlf.cases; simp add: lf_def cr_def)+

lemma replace_crlf_closed: "escapes_closed s \<Longrightarrow> escapes_closed (replace_crlf s)"
proof (induction s rule: replace_crlf.induct)
  case (3 c d cs)
  then show ?case using hd_replace_crlf [of "d # cs"]
    by (auto simp: lf_def esc_def cr_def)
qed auto

lemma replace_cr_closed: "escapes_closed s \<Longrightarrow> escapes_closed (replace_cr s)"
  by (induction s) (auto simp: replace_cr_def lf_def esc_def cr_def neq_Nil_conv)

lemma replace_cr_no_cr: "cr \<notin> set (replace_cr s)"
  by (auto simp: replace_cr_def lf_def cr_def)

lemma strip_ansi_no_cr: "cr \<notin> set (strip_ansi s)"
  by (simp add: strip_ansi_def replace_cr_no_cr)

lemma strip_ansi_closed: "escapes_closed (strip_ansi s)"
  by (simp add: strip_ansi_def sub_escapes_closed replace_crlf_closed replace_cr_closed)

lemma sub_escapes_fixed: "escapes_closed s \<Longrightarrow> sub_escapes s = s"
proof (induction s)
  case (Cons c s)
  have "ansi_match s = None" if "c = esc" using Cons.prems that by (auto simp: ansi_match_None)
  then show ?case using Cons by simp
qed simp

lemma replace_crlf_fixed: "cr \<notin> set s \<Longrightarrow> replace_crlf s = s"
  by (induction s rule: replace_crlf.induct) auto

lemma replace_cr_fixed: "cr \<notin> set s \<Longrightarrow> replace_cr s = s"
  by (auto simp: replace_cr_def intro: map_idI)

text \<open>Text that is already plain is kept as it is.\<close>

lemma strip_ansi_plain: "escapes_closed s \<Longrightarrow> cr \<notin> set s \<Longrightarrow> strip_ansi s = s"
  by (simp add: strip_ansi_def sub_escapes_fixed replace_crlf_fixed replace_cr_fixed)

lemma no_escape_closed: "esc \<notin> set s \<Longrightarrow> escapes_closed s"
  by (induction s) auto


text \<open>
  A private-mode sequence with the parameter byte \<open>>\<close> is not matched as a CSI: its parameters stay in
  the output. So do the remains of a sequence that two reads cut in half.
\<close>

lemma strip_ansi_private_residue: "strip_ansi (esc # ''[>4;2mok'') = ''>4;2mok''"
  by code_simp

lemma strip_ansi_split_residue:
  "strip_ansi (esc # ''['') @ strip_ansi ''31mred'' = ''31mred'' \<and> strip_ansi (esc # ''[31mred'') = ''red''"
  by code_simp

end
