(* ===== verification/Pty.thy ===== *)
theory Pty
  imports Session Ansi
begin

section \<open>PTY sessions (\<open>session.py\<close>)\<close>

text \<open>
  Interactive sessions of the session manager: the session cap, the output buffer a background task
  fills, reading, writing, resizing, closing, and the tmux variant. A process is named by the number
  of the \<open>create_process\<close> call that made it; \<open>sm_closed\<close> holds the processes that are closing.
  \<open>start_pty\<close> is composed of the check of the cap (\<open>pty_admit\<close>), which runs without suspending,
  and the rest (\<open>pty_open\<close>), which suspends at its first \<open>await\<close>. \<open>bytes.decode\<close> is the
  function \<open>se_decode\<close>.
\<close>

subsection \<open>Bytes and the bounded deque\<close>

definition utf8_encode :: "string \<Rightarrow> byte list" where
  "utf8_encode s =
     concat (map (\<lambda>c. if code c < 128 then [of_nat (code c)]
                      else [of_nat (0xC0 + code c div 64), of_nat (0x80 + code c mod 64)]) s)"

definition BUFFER_CHUNKS :: nat where
  "BUFFER_CHUNKS = 65536"

text \<open>\<open>append\<close> on a \<open>deque(maxlen=n)\<close>: a full deque drops its first element.\<close>

definition deque_append :: "nat \<Rightarrow> 'a \<Rightarrow> 'a list \<Rightarrow> 'a list" where
  "deque_append n x d = (if length d < n then d @ [x] else drop (Suc (length d) - n) (d @ [x]))"

text \<open>\<open>b[:n]\<close> of Python: a negative bound counts from the end.\<close>

definition py_prefix :: "int \<Rightarrow> 'a list \<Rightarrow> 'a list" where
  "py_prefix n xs = (if 0 \<le> n then take (nat n) xs else take (length xs - nat (- n)) xs)"

text \<open>The loop of \<open>pty_read\<close>: what was collected and the chunks that are left.\<close>

fun pty_collect :: "int \<Rightarrow> byte list \<Rightarrow> byte list list \<Rightarrow> byte list \<times> byte list list" where
  "pty_collect max_bytes collected [] = (collected, [])"
| "pty_collect max_bytes collected (chunk # buf) =
     (if \<not> int (length collected) < max_bytes then (collected, chunk # buf)
      else
        let remaining = nat (max_bytes - int (length collected))
        in if length chunk \<le> remaining then pty_collect max_bytes (collected @ chunk) buf
           else (collected @ take remaining chunk, drop remaining chunk # buf))"

subsection \<open>Starting a session\<close>

definition per_server_limit :: "('p, 't) session_env \<Rightarrow> string \<Rightarrow> int option" where
  "per_server_limit env server =
     (case se_registry env of
        Some get \<Rightarrow> (case get server of Inr cfg \<Rightarrow> sc_max_sessions cfg | Inl _ \<Rightarrow> None)
      | None \<Rightarrow>
          (case map_of (se_servers env) server of Some cfg \<Rightarrow> sc_max_sessions cfg | None \<Rightarrow> None))"

definition session_limit :: "('p, 't) session_env \<Rightarrow> string \<Rightarrow> int" where
  "session_limit env server =
     (case per_server_limit env server of Some n \<Rightarrow> n | None \<Rightarrow> gs_max_sessions (se_settings env))"

definition active_sessions :: "string \<Rightarrow> 't state_store \<Rightarrow> session_record list" where
  "active_sessions server s = filter (\<lambda>r. sr_status r = PS_running) (list_sessions (Some server) s)"

definition pty_admit :: "('p, 't) session_env \<Rightarrow> string \<Rightarrow> ('p, 't, unit) session_op" where
  "pty_admit env server m =
     (if session_limit env server \<le> int (length (active_sessions server (sm_state m)))
      then (m, Inl SessionCapExceeded) else (m, Inr ()))"

definition shell_command :: "string option \<Rightarrow> string" where
  "shell_command command = (case command of Some (c # cs) \<Rightarrow> c # cs | _ \<Rightarrow> ''$SHELL'')"

definition sm_spawn :: "('p, 't) session_env \<Rightarrow> nat \<Rightarrow> string \<Rightarrow> int \<Rightarrow> int \<Rightarrow> ('p, 't, nat) session_op" where
  "sm_spawn env conn cmd cols rows m =
     (let n = length (sm_spawns m); m' = m\<lparr>sm_spawns := sm_spawns m @ [(conn, cmd, cols, rows)]\<rparr>
      in case se_spawn env n conn cmd of Some e \<Rightarrow> (m', Inl e) | None \<Rightarrow> (m', Inr n))"

definition started_record ::
    "('p, 't) session_env \<Rightarrow> string \<Rightarrow> string \<Rightarrow> string option \<Rightarrow> string option \<Rightarrow> session_record" where
  "started_record env sid server command window =
     \<lparr>sr_id = sid, sr_server = server, sr_command = command, sr_use_tmux = (window \<noteq> None),
      sr_tmux_window = window, sr_started_at = se_now env, sr_last_checked = None,
      sr_status = PS_running\<rparr>"

definition pty_open_plain ::
    "('p, 't) session_env \<Rightarrow> string \<Rightarrow> string \<Rightarrow> string option \<Rightarrow> int \<Rightarrow> int \<Rightarrow> nat \<Rightarrow> ('p, 't, string) session_op" where
  "pty_open_plain env sid server command cols rows conn m =
     bindR (sm_spawn env conn (shell_command command) cols rows m) (\<lambda>proc m.
       let m1 = m\<lparr>sm_pty_procs := dict_set sid proc (sm_pty_procs m),
                  sm_pty_buffers := dict_set sid [] (sm_pty_buffers m),
                  sm_drain_tasks := dict_set sid proc (sm_drain_tasks m)\<rparr>
       in bindR (sm_upsert_session env (started_record env sid server command None) m1) (\<lambda>_ m.
            (sm_log ((AuditEvent ''start_pty'' ''started''
                [(''use_tmux'', JBool False), (''cols'', JInt cols), (''rows'', JInt rows)])
               \<lparr>ae_server := Some server, ae_command := command, ae_session_id := Some sid\<rparr>) m,
             Inr sid)))"

definition pty_log_file :: "string \<Rightarrow> string" where
  "pty_log_file sid = ''/tmp/mcp-pty-'' @ sid @ ''.log''"

definition tmux_name :: "string \<Rightarrow> string" where
  "tmux_name sid = ''mcp-'' @ take 8 sid"

definition TMUX_CHECK :: string where
  "TMUX_CHECK = ''which tmux 2>/dev/null || true''"

definition tmux_new_cmd :: "string \<Rightarrow> string option \<Rightarrow> string" where
  "tmux_new_cmd window command =
     ''tmux new-session -d -s '' @ shlex_quote window @ '' '' @ shlex_quote (shell_command command)"

definition tmux_pipe_cmd :: "string \<Rightarrow> string \<Rightarrow> string" where
  "tmux_pipe_cmd window log_file =
     ''tmux pipe-pane -o -t '' @ shlex_quote window @ '' '' @ [sq] @ ''cat >> '' @ log_file @ [sq]"

definition pty_open_tmux ::
    "('p, 't) session_env \<Rightarrow> string \<Rightarrow> string \<Rightarrow> string option \<Rightarrow> nat \<Rightarrow> ('p, 't, string) session_op" where
  "pty_open_tmux env sid server command conn m =
     bindR (sm_run env conn TMUX_CHECK m) (\<lambda>(out, _) m.
       if strip out = [] then (m, Inl TmuxNotAvailable)
       else
         let window = tmux_name sid; log_file = pty_log_file sid
         in bindR (sm_run env conn (tmux_new_cmd window command) m) (\<lambda>_ m.
            bindR (sm_run env conn (tmux_pipe_cmd window log_file) m) (\<lambda>_ m.
              let m1 = m\<lparr>sm_tmux_logs := dict_set sid log_file (sm_tmux_logs m),
                         sm_tmux_sessions := dict_set sid window (sm_tmux_sessions m),
                         sm_tmux_conns := dict_set sid conn (sm_tmux_conns m)\<rparr>
              in bindR (sm_upsert_session env (started_record env sid server command (Some window)) m1) (\<lambda>_ m.
                   (sm_log ((AuditEvent ''start_pty'' ''started''
                       [(''use_tmux'', JBool True), (''tmux_session'', JStr window)])
                      \<lparr>ae_server := Some server, ae_command := command, ae_session_id := Some sid\<rparr>) m,
                    Inr sid)))))"

definition pty_open ::
    "('p, 't) session_env \<Rightarrow> string \<Rightarrow> string option \<Rightarrow> int \<Rightarrow> int \<Rightarrow> bool \<Rightarrow> ('p, 't, string) session_op" where
  "pty_open env server command cols rows use_tmux m =
     bindR (new_uuid env m) (\<lambda>sid m.
     bindR (sm_get env server m) (\<lambda>conn m.
       if use_tmux then pty_open_tmux env sid server command conn m
       else pty_open_plain env sid server command cols rows conn m))"

definition start_pty ::
    "('p, 't) session_env \<Rightarrow> string \<Rightarrow> string option \<Rightarrow> int \<Rightarrow> int \<Rightarrow> bool \<Rightarrow> ('p, 't, string) session_op" where
  "start_pty env server command cols rows use_tmux m =
     bindR (pty_admit env server m) (\<lambda>_ m. pty_open env server command cols rows use_tmux m)"

subsection \<open>The output buffer\<close>

text \<open>One round of \<open>_drain_pty\<close>: a chunk the process wrote goes to the session's buffer.\<close>

definition drain_chunk :: "string \<Rightarrow> string \<Rightarrow> ('p, 't) session_manager \<Rightarrow> ('p, 't) session_manager" where
  "drain_chunk sid chunk m =
     (case map_of (sm_pty_buffers m) sid of
        None \<Rightarrow> m
      | Some buf \<Rightarrow>
          if chunk = [] \<or> map_of (sm_drain_tasks m) sid = None then m
          else m\<lparr>sm_pty_buffers :=
                   dict_set sid (deque_append BUFFER_CHUNKS (utf8_encode chunk) buf) (sm_pty_buffers m)\<rparr>)"

text \<open>What \<open>pty_read\<close> takes out of the buffer of a plain session.\<close>

definition pty_take :: "string \<Rightarrow> int \<Rightarrow> ('p, 't) session_manager \<Rightarrow> ('p, 't) session_manager \<times> byte list" where
  "pty_take sid max_bytes m =
     (case map_of (sm_pty_buffers m) sid of
        None \<Rightarrow> (m, [])
      | Some buf \<Rightarrow>
          (case pty_collect max_bytes [] buf of
             (collected, rest) \<Rightarrow> (m\<lparr>sm_pty_buffers := dict_set sid rest (sm_pty_buffers m)\<rparr>, collected)))"

definition get_session_record :: "string \<Rightarrow> ('p, 't, session_record) session_op" where
  "get_session_record sid m =
     (m, case get_session sid (sm_state m) of None \<Rightarrow> Inl SessionNotFound | Some r \<Rightarrow> Inr r)"

definition proc_alive :: "string \<Rightarrow> ('p, 't) session_manager \<Rightarrow> bool" where
  "proc_alive sid m = (case map_of (sm_pty_procs m) sid of None \<Rightarrow> False | Some proc \<Rightarrow> proc \<notin> set (sm_closed m))"

definition tmux_window :: "string \<Rightarrow> ('p, 't) session_manager \<Rightarrow> string" where
  "tmux_window sid m = (case map_of (sm_tmux_sessions m) sid of None \<Rightarrow> [] | Some w \<Rightarrow> w)"

definition capture_cmd :: "string \<Rightarrow> string" where
  "capture_cmd window = ''tmux capture-pane -p -J -S -2000 -t '' @ shlex_quote window @ '' 2>/dev/null || true''"

definition has_session_cmd :: "string \<Rightarrow> string" where
  "has_session_cmd window =
     ''tmux has-session -t '' @ shlex_quote window @ '' 2>/dev/null && echo alive || echo dead''"

definition pty_read :: "('p, 't) session_env \<Rightarrow> string \<Rightarrow> int \<Rightarrow> ('p, 't, pty_output) session_op" where
  "pty_read env sid max_bytes m =
     bindR (get_session_record sid m) (\<lambda>r m.
       if \<not> sr_use_tmux r then
         (case pty_take sid max_bytes m of
            (m', collected) \<Rightarrow>
              (m', Inr \<lparr>pt_output = strip_ansi (se_decode env collected), pt_alive = proc_alive sid m'\<rparr>))
       else
         (case map_of (sm_tmux_conns m) sid of
            None \<Rightarrow> (m, Inr \<lparr>pt_output = [], pt_alive = False\<rparr>)
          | Some conn \<Rightarrow>
              let window = tmux_window sid m
              in bindR (sm_run env conn (capture_cmd window) m) (\<lambda>(cap, _) m.
                 bindR (sm_run env conn (has_session_cmd window) m) (\<lambda>(alive_out, _) m.
                   let output = strip_ansi cap; data = utf8_encode output
                   in (m, Inr \<lparr>pt_output = (if max_bytes < int (length data)
                                            then se_decode env (py_prefix max_bytes data) else output),
                               pt_alive = (strip alive_out = ''alive'')\<rparr>)))))"

subsection \<open>Writing, resizing, closing, attaching\<close>

definition send_keys_cmd :: "string \<Rightarrow> string \<Rightarrow> string" where
  "send_keys_cmd window data =
     ''tmux send-keys -t '' @ shlex_quote window @ '' -- '' @ shlex_quote data"

definition resize_cmd :: "string \<Rightarrow> int \<Rightarrow> int \<Rightarrow> string" where
  "resize_cmd window cols rows =
     ''tmux resize-window -t '' @ shlex_quote window @ '' -x '' @ show_int cols @ '' -y '' @ show_int rows"

text \<open>A command in the tmux session of \<open>sid\<close>, if its connection is known.\<close>

definition tmux_run :: "('p, 't) session_env \<Rightarrow> string \<Rightarrow> (string \<Rightarrow> string) \<Rightarrow> ('p, 't, unit) session_op" where
  "tmux_run env sid cmd m =
     (case map_of (sm_tmux_conns m) sid of
        None \<Rightarrow> (m, Inr ())
      | Some conn \<Rightarrow> bindR (sm_run env conn (cmd (tmux_window sid m)) m) (\<lambda>_ m. (m, Inr ())))"

definition pty_write :: "('p, 't) session_env \<Rightarrow> string \<Rightarrow> string \<Rightarrow> ('p, 't, unit) session_op" where
  "pty_write env sid data m =
     bindR (get_session_record sid m) (\<lambda>r m.
     bindR (if \<not> sr_use_tmux r then
              (case map_of (sm_pty_procs m) sid of
                 None \<Rightarrow> (m, Inr ())
               | Some proc \<Rightarrow> (m\<lparr>sm_written := sm_written m @ [(proc, data)]\<rparr>, Inr ()))
            else tmux_run env sid (\<lambda>window. send_keys_cmd window data) m) (\<lambda>_ m.
       (sm_log ((AuditEvent ''pty_write'' ''written'' [(''bytes'', JInt (int (length data)))])
          \<lparr>ae_server := Some (sr_server r), ae_session_id := Some sid\<rparr>) m, Inr ())))"

definition pty_resize :: "('p, 't) session_env \<Rightarrow> string \<Rightarrow> int \<Rightarrow> int \<Rightarrow> ('p, 't, unit) session_op" where
  "pty_resize env sid cols rows m =
     bindR (get_session_record sid m) (\<lambda>r m.
     bindR (if \<not> sr_use_tmux r then
              (case map_of (sm_pty_procs m) sid of
                 None \<Rightarrow> (m, Inr ())
               | Some proc \<Rightarrow> (m\<lparr>sm_resized := sm_resized m @ [(proc, cols, rows)]\<rparr>, Inr ()))
            else tmux_run env sid (\<lambda>window. resize_cmd window cols rows) m) (\<lambda>_ m.
       (sm_log ((AuditEvent ''pty_resize'' ''resized'' [(''cols'', JInt cols), (''rows'', JInt rows)])
          \<lparr>ae_server := Some (sr_server r), ae_session_id := Some sid\<rparr>) m, Inr ())))"

definition release_session :: "string \<Rightarrow> bool \<Rightarrow> ('p, 't) session_manager \<Rightarrow> ('p, 't) session_manager" where
  "release_session sid use_tmux m =
     (if \<not> use_tmux then
        m\<lparr>sm_drain_tasks := dict_del sid (sm_drain_tasks m),
          sm_closed := (case map_of (sm_pty_procs m) sid of None \<Rightarrow> sm_closed m | Some proc \<Rightarrow> proc # sm_closed m),
          sm_pty_procs := dict_del sid (sm_pty_procs m),
          sm_pty_buffers := dict_del sid (sm_pty_buffers m)\<rparr>
      else
        m\<lparr>sm_tmux_logs := dict_del sid (sm_tmux_logs m),
          sm_tmux_sessions := dict_del sid (sm_tmux_sessions m),
          sm_tmux_conns := dict_del sid (sm_tmux_conns m)\<rparr>)"

definition pty_close :: "('p, 't) session_env \<Rightarrow> string \<Rightarrow> ('p, 't, unit) session_op" where
  "pty_close env sid m =
     bindR (get_session_record sid m) (\<lambda>r m.
     bindR (sm_upsert_session env (r\<lparr>sr_status := PS_exited\<rparr>) (release_session sid (sr_use_tmux r) m)) (\<lambda>_ m.
       (sm_log ((AuditEvent ''pty_close'' ''closed'' [(''use_tmux'', JBool (sr_use_tmux r))])
          \<lparr>ae_server := Some (sr_server r), ae_session_id := Some sid\<rparr>) m, Inr ())))"

definition attach_cmd :: "string \<Rightarrow> string" where
  "attach_cmd window = ''tmux has-session -t '' @ shlex_quote window @ '' 2>/dev/null''"

text \<open>\<open>pty_attach\<close> never succeeds: it ends in \<open>SessionNotFound\<close> or \<open>NotImplementedError\<close>.\<close>

definition pty_attach :: "('p, 't) session_env \<Rightarrow> string \<Rightarrow> ('p, 't, unit) session_op" where
  "pty_attach env sid m =
     bindR (get_session_record sid m) (\<lambda>r m.
       if \<not> sr_use_tmux r then (m, Inl SessionNotFound)
       else
         bindR (case map_of (sm_tmux_conns m) sid of
                  Some conn \<Rightarrow>
                    if tmux_window sid m \<noteq> [] then
                      bindR (sm_run env conn (attach_cmd (tmux_window sid m)) m) (\<lambda>(_, status) m.
                        if status \<noteq> 0 then (m, Inl SessionNotFound) else (m, Inr ()))
                    else (m, Inr ())
                | None \<Rightarrow> (m, Inr ())) (\<lambda>_ m. (m, Inl PyNotImplementedError)))"

definition sm_list_sessions :: "string option \<Rightarrow> ('p, 't) session_manager \<Rightarrow> session_record list" where
  "sm_list_sessions server m = list_sessions server (sm_state m)"

subsection \<open>The buffer as a queue of bytes\<close>

datatype queue_event = Put "byte list" | Get int

fun queue_run ::
    "(byte list \<Rightarrow> 'b \<Rightarrow> 'b) \<Rightarrow> (int \<Rightarrow> 'b \<Rightarrow> byte list \<times> 'b) \<Rightarrow> queue_event list \<Rightarrow> 'b \<Rightarrow> byte list \<times> 'b" where
  "queue_run put get [] b = ([], b)"
| "queue_run put get (Put c # es) b = queue_run put get es (put c b)"
| "queue_run put get (Get n # es) b =
     (case get n b of (out, b') \<Rightarrow> case queue_run put get es b' of (outs, b'') \<Rightarrow> (out @ outs, b''))"

fun queue_input :: "queue_event list \<Rightarrow> byte list" where
  "queue_input [] = []"
| "queue_input (Put c # es) = c @ queue_input es"
| "queue_input (Get n # es) = queue_input es"

text \<open>Every \<open>Put\<close> of the run finds room.\<close>

fun queue_fits ::
    "(byte list \<Rightarrow> 'b \<Rightarrow> 'b) \<Rightarrow> (int \<Rightarrow> 'b \<Rightarrow> byte list \<times> 'b) \<Rightarrow> ('b \<Rightarrow> bool) \<Rightarrow> queue_event list \<Rightarrow> 'b \<Rightarrow> bool" where
  "queue_fits put get has_room [] b \<longleftrightarrow> True"
| "queue_fits put get has_room (Put c # es) b \<longleftrightarrow> has_room b \<and> queue_fits put get has_room es (put c b)"
| "queue_fits put get has_room (Get n # es) b \<longleftrightarrow> queue_fits put get has_room es (snd (get n b))"

locale byte_queue =
  fixes put :: "byte list \<Rightarrow> 'b \<Rightarrow> 'b"
    and get :: "int \<Rightarrow> 'b \<Rightarrow> byte list \<times> 'b"
    and contents :: "'b \<Rightarrow> byte list"
    and has_room :: "'b \<Rightarrow> bool"
  assumes put_contents: "has_room b \<Longrightarrow> contents (put c b) = contents b @ c"
    and put_lossy: "\<exists>lost. contents b @ c = lost @ contents (put c b)"
    and get_out: "fst (get n b) = take (nat n) (contents b)"
    and get_rest: "contents (snd (get n b)) = drop (nat n) (contents b)"
begin

text \<open>Without an overflow the output is the input: nothing is lost, doubled or reordered.\<close>

lemma run_exact:
  "queue_fits put get has_room es b \<Longrightarrow> queue_run put get es b = (out, b') \<Longrightarrow>
     out @ contents b' = contents b @ queue_input es"
proof (induction es arbitrary: b out)
  case Nil
  then show ?case by simp
next
  case (Cons e es)
  show ?case
  proof (cases e)
    case (Put c)
    then have "out @ contents b' = contents (put c b) @ queue_input es"
      using Cons.prems by (intro Cons.IH) auto
    then show ?thesis using Put Cons.prems by (simp add: put_contents)
  next
    case (Get n)
    obtain o1 b1 where g: "get n b = (o1, b1)" by (rule prod.exhaust)
    obtain o2 where r: "queue_run put get es b1 = (o2, b')" "out = o1 @ o2"
      using Cons.prems Get g by (auto split: prod.splits)
    have "o2 @ contents b' = contents b1 @ queue_input es"
      using Cons.prems Get g r by (intro Cons.IH) auto
    then show ?thesis using Get g r get_out [of n b] get_rest [of n b]
      by simp
  qed
qed

text \<open>With overflows the output is still a subsequence of the input.\<close>

lemma run_subseq: "queue_run put get es b = (out, b') \<Longrightarrow> subseq (out @ contents b') (contents b @ queue_input es)"
proof (induction es arbitrary: b out)
  case Nil
  then show ?case by simp
next
  case (Cons e es)
  show ?case
  proof (cases e)
    case (Put c)
    then have "subseq (out @ contents b') (contents (put c b) @ queue_input es)"
      using Cons.prems by (intro Cons.IH) auto
    moreover obtain lost where "contents b @ c = lost @ contents (put c b)" using put_lossy by blast
    ultimately show ?thesis using Put
      by simp (metis append.assoc subseq_append_le_same_iff subseq_order.trans list_emb_append2 subseq_order.refl)
  next
    case (Get n)
    obtain o1 b1 where g: "get n b = (o1, b1)" by (rule prod.exhaust)
    obtain o2 where r: "queue_run put get es b1 = (o2, b')" "out = o1 @ o2"
      using Cons.prems Get g by (auto split: prod.splits)
    have "subseq (o2 @ contents b') (contents b1 @ queue_input es)"
      using Cons.prems Get g r by (intro Cons.IH) auto
    then have "subseq (o1 @ o2 @ contents b') (o1 @ contents b1 @ queue_input es)"
      by (rule list_emb_append_mono [OF subseq_order.refl])
    moreover have "o1 @ contents b1 = contents b"
      using g get_out [of n b] get_rest [of n b] by simp
    ultimately show ?thesis using Get r by (metis append.assoc queue_input.simps(3))
  qed
qed

text \<open>Enough reads of at least one byte deliver everything.\<close>

lemma run_drains:
  "0 < k \<Longrightarrow> length (contents b) \<le> n * nat k \<Longrightarrow>
     fst (queue_run put get (replicate n (Get k)) b) = contents b
     \<and> contents (snd (queue_run put get (replicate n (Get k)) b)) = []"
proof (induction n arbitrary: b)
  case 0
  then show ?case by simp
next
  case (Suc n)
  obtain o1 b1 where g: "get k b = (o1, b1)" by (rule prod.exhaust)
  have b1: "contents b1 = drop (nat k) (contents b)" "o1 = take (nat k) (contents b)"
    using g get_out [of k b] get_rest [of k b] by simp_all
  have "fst (queue_run put get (replicate n (Get k)) b1) = contents b1
      \<and> contents (snd (queue_run put get (replicate n (Get k)) b1)) = []"
    using Suc.prems by (intro Suc.IH) (auto simp: b1)
  then show ?case using g b1 by (cases "queue_run put get (replicate n (Get k)) b1") simp
qed

end

lemma pty_collect_spec:
  "int (length acc) \<le> n \<Longrightarrow>
   fst (pty_collect n acc buf) = acc @ take (nat n - length acc) (concat buf) \<and>
   concat (snd (pty_collect n acc buf)) = drop (nat n - length acc) (concat buf)"
proof (induction n acc buf rule: pty_collect.induct)
  case (1 n acc)
  then show ?case by simp
next
  case (2 n acc chunk buf)
  show ?case
  proof (cases "int (length acc) < n \<and> length chunk \<le> nat (n - int (length acc))")
    case True
    then have "nat n - length (acc @ chunk) = nat n - length acc - length chunk"
      and "length chunk \<le> nat n - length acc" and "int (length (acc @ chunk)) \<le> n" by auto
    then show ?thesis using 2 True by (simp add: Let_def)
  next
    case False
    then consider "n = int (length acc)" | "int (length acc) < n" "nat (n - int (length acc)) < length chunk"
      using 2 by linarith
    then show ?thesis
    proof cases
      case 1
      then show ?thesis by simp
    next
      case c: 2
      have "nat (n - int (length acc)) = nat n - length acc" by simp
      then show ?thesis using c by (simp add: Let_def)
    qed
  qed
qed

lemma pty_collect_out: "fst (pty_collect n [] buf) = take (nat n) (concat buf)"
  and pty_collect_rest: "concat (snd (pty_collect n [] buf)) = drop (nat n) (concat buf)"
proof -
  have "pty_collect n [] buf = ([], buf)" if "n < 0" using that by (cases buf) simp_all
  then show "fst (pty_collect n [] buf) = take (nat n) (concat buf)"
    and "concat (snd (pty_collect n [] buf)) = drop (nat n) (concat buf)"
    using pty_collect_spec [of "[]" n buf] by (cases "n < 0"; simp)+
qed

lemma deque_append_lossy:
  assumes "0 < n"
  shows "\<exists>lost. concat d @ c = lost @ concat (deque_append n c d)"
proof -
  define k where "k = Suc (length d) - n"
  have "concat (d @ [c]) = concat (take k (d @ [c])) @ concat (drop k (d @ [c]))"
    by (metis append_take_drop_id concat_append)
  then show ?thesis by (auto simp: deque_append_def k_def [symmetric])
qed

interpretation pty_buffer:
  byte_queue "deque_append BUFFER_CHUNKS" "\<lambda>n. pty_collect n []" concat "\<lambda>d. length d < BUFFER_CHUNKS"
  by unfold_locales
    (simp_all add: pty_collect_out pty_collect_rest deque_append_lossy BUFFER_CHUNKS_def,
      simp add: deque_append_def)

subsection \<open>Runs of draining and reading\<close>

datatype pty_event = PE_drain string string | PE_read string int

fun pty_run :: "pty_event list \<Rightarrow> ('p, 't) session_manager
    \<Rightarrow> ('p, 't) session_manager \<times> (string \<times> byte list) list" where
  "pty_run [] m = (m, [])"
| "pty_run (PE_drain sid chunk # es) m = pty_run es (drain_chunk sid chunk m)"
| "pty_run (PE_read sid n # es) m =
     (case pty_take sid n m of (m', out) \<Rightarrow> case pty_run es m' of (m'', outs) \<Rightarrow> (m'', (sid, out) # outs))"

text \<open>The bytes one session got, and the events of one session as its queue sees them.\<close>

definition delivered :: "string \<Rightarrow> (string \<times> byte list) list \<Rightarrow> byte list" where
  "delivered sid outs = concat (map snd (filter (\<lambda>p. fst p = sid) outs))"

fun queue_events :: "string \<Rightarrow> pty_event list \<Rightarrow> queue_event list" where
  "queue_events sid [] = []"
| "queue_events sid (PE_drain i chunk # es) =
     (if i = sid \<and> chunk \<noteq> [] then Put (utf8_encode chunk) # queue_events sid es else queue_events sid es)"
| "queue_events sid (PE_read i n # es) = (if i = sid then Get n # queue_events sid es else queue_events sid es)"

abbreviation buffer_run :: "queue_event list \<Rightarrow> byte list list \<Rightarrow> byte list \<times> byte list list" where
  "buffer_run \<equiv> queue_run (deque_append BUFFER_CHUNKS) (\<lambda>n. pty_collect n [])"

abbreviation buffer_fits :: "queue_event list \<Rightarrow> byte list list \<Rightarrow> bool" where
  "buffer_fits \<equiv> queue_fits (deque_append BUFFER_CHUNKS) (\<lambda>n. pty_collect n []) (\<lambda>d. length d < BUFFER_CHUNKS)"

definition pty_live :: "string \<Rightarrow> byte list list \<Rightarrow> ('p, 't) session_manager \<Rightarrow> bool" where
  "pty_live sid buf m \<longleftrightarrow> map_of (sm_pty_buffers m) sid = Some buf \<and> map_of (sm_drain_tasks m) sid \<noteq> None"

lemma drain_chunk_live:
  "pty_live sid buf m \<Longrightarrow> pty_live sid
     (if i = sid \<and> chunk \<noteq> [] then deque_append BUFFER_CHUNKS (utf8_encode chunk) buf else buf)
     (drain_chunk i chunk m)"
  by (auto simp: pty_live_def drain_chunk_def split: option.split)

lemma pty_take_live:
  "pty_live sid buf m \<Longrightarrow> pty_take i n m = (m', out) \<Longrightarrow>
     pty_live sid (if i = sid then snd (pty_collect n [] buf) else buf) m'
     \<and> (i = sid \<longrightarrow> out = fst (pty_collect n [] buf))"
  by (auto simp: pty_live_def pty_take_def split: option.splits prod.splits)

text \<open>The manager's buffers refine one queue per session.\<close>

lemma pty_run_refines:
  assumes "pty_live sid buf m" and "pty_run es m = (m', outs)"
    and "buffer_run (queue_events sid es) buf = (out, rest)"
  shows "delivered sid outs = out \<and> pty_live sid rest m'"
  using assms
proof (induction es arbitrary: m buf out outs)
  case Nil
  then show ?case by (simp add: delivered_def)
next
  case (Cons e es)
  show ?case
  proof (cases e)
    case (PE_drain i chunk)
    then show ?thesis
      using Cons.prems Cons.IH [OF drain_chunk_live [OF Cons.prems(1), of i chunk]]
      by (auto split: if_splits)
  next
    case (PE_read i n)
    obtain m1 o1 where t: "pty_take i n m = (m1, o1)" by (rule prod.exhaust)
    obtain outs1 where r: "pty_run es m1 = (m', outs1)" "outs = (i, o1) # outs1"
      using Cons.prems(2) PE_read t by (auto split: prod.splits)
    note live = pty_take_live [OF Cons.prems(1) t]
    show ?thesis
    proof (cases "i = sid")
      case True
      obtain o2 where o2: "buffer_run (queue_events sid es) (snd (pty_collect n [] buf)) = (o2, rest)"
          "out = fst (pty_collect n [] buf) @ o2"
        using Cons.prems(3) PE_read True by (auto split: prod.splits)
      then have "delivered sid outs1 = o2 \<and> pty_live sid rest m'"
        using Cons.IH [OF _ r(1) o2(1)] live True by simp
      then show ?thesis using live True r o2 by (simp add: delivered_def)
    next
      case False
      then show ?thesis using Cons.IH [OF _ r(1), of buf out] Cons.prems(3) live PE_read r
        by (simp add: delivered_def)
    qed
  qed
qed


definition example_pty :: "(unit, unit) session_manager" where
  "example_pty = example_manager\<lparr>sm_pty_buffers := [(''s'', [[7]]), (''t'', [])], sm_pty_procs := [(''s'', 0), (''t'', 1)],
     sm_drain_tasks := [(''s'', 0), (''t'', 1)]\<rparr>"

lemma example_pty_live: "pty_live ''s'' [[7]] example_pty"
  by (simp add: pty_live_def example_pty_def)


lemma queue_events_reads [simp]: "queue_events sid (replicate n (PE_read sid k)) = replicate n (Get k)"
  by (induction n) simp_all

text \<open>C26: A client that keeps reading gets everything: \<open>n\<close> calls of \<open>pty_read\<close> with the limit \<open>k > 0\<close> deliver the
  whole buffer and leave it empty as soon as \<open>n * k\<close> reaches its length.\<close>
theorem pty_reads_deliver_all:
  assumes "pty_live sid buf m" and "0 < k" and "length (concat buf) \<le> n * nat k"
    and "pty_run (replicate n (PE_read sid k)) m = (m', outs)"
  shows "delivered sid outs = concat buf \<and> (\<exists>rest. pty_live sid rest m' \<and> concat rest = [])"
proof -
  obtain out rest where r: "buffer_run (replicate n (Get k)) buf = (out, rest)" by (rule prod.exhaust)
  have "delivered sid outs = out" "pty_live sid rest m'"
    using pty_run_refines [OF assms(1,4)] r by auto
  then show ?thesis using pty_buffer.run_drains [OF assms(2,3)] r by auto
qed

lemma pty_reads_deliver_all_witness:
  "\<exists>m' outs rest. pty_run (replicate 1 (PE_read ''s'' 1)) example_pty = (m', outs)
     \<and> delivered ''s'' outs = [7] \<and> pty_live ''s'' rest m' \<and> concat rest = []"
proof -
  obtain m' outs where run: "pty_run (replicate 1 (PE_read ''s'' 1)) example_pty = (m', outs)" by (rule prod.exhaust)
  show ?thesis
    using pty_reads_deliver_all [OF example_pty_live _ _ run] run by force
qed

end
