(* ===== verification/Session_Runs.thy ===== *)
theory Session_Runs
  imports Pty
begin

section \<open>Runs of the session manager\<close>

text \<open>
  The operations of the session manager as the steps of a transition system: callers, the background
  tasks and the remote processes act in any order, and every step may meet another environment. The
  invariant \<open>sm_ok\<close> says that the record tables are keyed and hold positive process ids, that the
  dictionaries of the PTY sessions agree and respect the bound of the buffers, and that every
  \<open>kill\<close> ever sent to a host named one process and an allowed signal.
\<close>

subsection \<open>The invariant\<close>

definition cmd_safe :: "string \<Rightarrow> bool" where
  "cmd_safe cmd \<longleftrightarrow>
     (prefix ''kill'' cmd \<longrightarrow> (\<exists>n > 0. cmd = alive_cmd n \<or> (\<exists>s \<in> set ALLOWED_SIGNALS. cmd = kill_cmd s n)))"

definition records_ok :: "'t state_store \<Rightarrow> bool" where
  "records_ok s \<longleftrightarrow> processes_keyed s \<and> sessions_keyed s \<and> (\<forall>r \<in> set (list_processes None s). 0 < pr_remote_pid r)"

definition same_keys :: "('k, 'a) dict \<Rightarrow> ('k, 'b) dict \<Rightarrow> bool" where
  "same_keys d e \<longleftrightarrow> fst ` set d = fst ` set e"

definition tables_ok :: "('p, 't) session_manager \<Rightarrow> bool" where
  "tables_ok m \<longleftrightarrow>
     same_keys (sm_pty_procs m) (sm_pty_buffers m) \<and> same_keys (sm_pty_procs m) (sm_drain_tasks m)
     \<and> same_keys (sm_tmux_logs m) (sm_tmux_sessions m) \<and> same_keys (sm_tmux_logs m) (sm_tmux_conns m)
     \<and> (\<forall>b \<in> snd ` set (sm_pty_buffers m). length b \<le> BUFFER_CHUNKS)"

definition sm_ok :: "('p, 't) session_manager \<Rightarrow> bool" where
  "sm_ok m \<longleftrightarrow> records_ok (sm_state m) \<and> tables_ok m \<and> (\<forall>cmd \<in> snd ` set (sm_runs m). cmd_safe cmd)"

inductive sm_step :: "('p, 't) session_manager \<Rightarrow> ('p, 't) session_manager \<Rightarrow> bool" where
  step_start: "sm_step m (fst (start_process env server command cwd vars m))"
| step_read: "sm_step m (fst (read_process env pid max_bytes offset m))"
| step_kill: "sm_step m (fst (kill_process env pid signal m))"
| step_check: "sm_step m (fst (check_process env pid m))"
| step_admit: "sm_step m (fst (pty_admit env server m))"
| step_open: "sm_step m (fst (pty_open env server command cols rows use_tmux m))"
| step_drain: "sm_step m (drain_chunk sid chunk m)"
| step_pty_read: "sm_step m (fst (pty_read env sid n m))"
| step_pty_write: "sm_step m (fst (pty_write env sid text m))"
| step_pty_resize: "sm_step m (fst (pty_resize env sid cols rows m))"
| step_pty_close: "sm_step m (fst (pty_close env sid m))"
| step_pty_attach: "sm_step m (fst (pty_attach env sid m))"
| step_proc_ends: "sm_step m (m\<lparr>sm_closed := proc # sm_closed m\<rparr>)"

inductive_cases sm_stepE: "sm_step m m'"

subsection \<open>The pieces of the operations keep it\<close>

lemma same_keys_set [simp]: "same_keys d e \<Longrightarrow> same_keys (dict_set k v d) (dict_set k w e)"
  by (simp add: same_keys_def fst_dict_set)

lemma same_keys_del [simp]: "same_keys d e \<Longrightarrow> same_keys (dict_del k d) (dict_del k e)"
  unfolding same_keys_def by (force simp: set_eq_iff)

lemma same_keys_replace: "same_keys d e \<Longrightarrow> map_of e k = Some w \<Longrightarrow> same_keys d (dict_set k v e)"
  by (auto simp: same_keys_def fst_dict_set dest: map_of_SomeD) (metis fst_conv image_eqI map_of_SomeD)

lemma length_deque_append: "length d \<le> n \<Longrightarrow> length (deque_append n x d) \<le> n"
  by (auto simp: deque_append_def)

lemma length_pty_collect: "length (snd (pty_collect n acc buf)) \<le> length buf"
  by (induction n acc buf rule: pty_collect.induct) (auto simp: Let_def)

lemma records_ok_process:
  assumes "records_ok s" and "0 < pr_remote_pid r"
  shows "records_ok (fst (upsert_process w cd r s))"
proof -
  have "sessions_keyed (fst (upsert_process w cd r s)) = sessions_keyed s"
    by (simp add: upsert_process_def sessions_keyed_def)
  then show ?thesis
    using assms process_table.keyed_upsert [of s w cd r] process_table.entries_upsert [of s w cd r]
    by (auto simp: records_ok_def)
qed

lemma records_ok_session:
  assumes "records_ok s"
  shows "records_ok (fst (upsert_session w cd r s))"
proof -
  have "processes_keyed (fst (upsert_session w cd r s)) = processes_keyed s"
    and "list_processes None (fst (upsert_session w cd r s)) = list_processes None s"
    by (simp_all add: upsert_session_def processes_keyed_def list_processes_def)
  then show ?thesis
    using assms session_table.keyed_upsert [of s w cd r] by (simp add: records_ok_def)
qed

lemma records_ok_pid: "records_ok s \<Longrightarrow> get_process i s = Some r \<Longrightarrow> 0 < pr_remote_pid r"
  by (force simp: records_ok_def get_process_def list_processes_def dict_values_def dest: map_of_SomeD)

named_theorems ok_pieces "what a piece of an operation keeps of the invariant"

lemma ok_get [ok_pieces]: "sm_ok m \<Longrightarrow> sm_ok (fst (sm_get env server m))"
  by (simp add: sm_ok_def tables_ok_def sm_get_def split: prod.split)

lemma ok_run [ok_pieces]: "sm_ok m \<Longrightarrow> cmd_safe cmd \<Longrightarrow> sm_ok (fst (sm_run env conn cmd m))"
  by (auto simp: sm_ok_def tables_ok_def sm_run_def)

lemma ok_uuid [ok_pieces]: "sm_ok m \<Longrightarrow> sm_ok (fst (new_uuid env m))"
  by (simp add: sm_ok_def tables_ok_def new_uuid_def)

lemma ok_record [ok_pieces]: "sm_ok m \<Longrightarrow> sm_ok (fst (get_record i m))"
  by (simp add: get_record_def)

lemma ok_session_record [ok_pieces]: "sm_ok m \<Longrightarrow> sm_ok (fst (get_session_record i m))"
  by (simp add: get_session_record_def)

lemma ok_upsert_process [ok_pieces]:
  "sm_ok m \<Longrightarrow> 0 < pr_remote_pid r \<Longrightarrow> sm_ok (fst (sm_upsert_process env r m))"
  using records_ok_process [of "sm_state m" r "se_writes env" "se_codec env"]
  by (auto simp: sm_ok_def tables_ok_def sm_upsert_process_def split: prod.splits)

lemma ok_upsert_session [ok_pieces]: "sm_ok m \<Longrightarrow> sm_ok (fst (sm_upsert_session env r m))"
  using records_ok_session [of "sm_state m" "se_writes env" "se_codec env" r]
  by (auto simp: sm_ok_def tables_ok_def sm_upsert_session_def split: prod.splits)

lemma ok_log [ok_pieces]: "sm_ok m \<Longrightarrow> sm_ok (sm_log e m)"
  by (simp add: sm_ok_def tables_ok_def sm_log_def)

lemma ok_cache [ok_pieces]: "sm_ok m \<Longrightarrow> sm_ok (fst (sm_cache_wrapper server w m))"
  by (simp add: sm_ok_def tables_ok_def sm_cache_wrapper_def)

lemma ok_spawn [ok_pieces]: "sm_ok m \<Longrightarrow> sm_ok (fst (sm_spawn env conn cmd cols rows m))"
  by (simp add: sm_ok_def tables_ok_def sm_spawn_def Let_def split: option.split)

lemmas ok_bind = bindR_keeps [where Q = sm_ok]

subsection \<open>The commands\<close>

lemma not_kill: "\<not> prefix ''kill'' cmd \<Longrightarrow> cmd_safe cmd"
  by (simp add: cmd_safe_def)

lemma cmd_safe_simps [simp]:
  "cmd_safe UNAME_CMD" "cmd_safe WRAPPER_CMD" "cmd_safe (remote_command inner log_file exit_file)"
  "cmd_safe (read_exit_cmd r)" "cmd_safe (tail_cmd r n k)" "cmd_safe (check_tail_cmd r)"
  "cmd_safe TMUX_CHECK" "cmd_safe (tmux_new_cmd w c)" "cmd_safe (tmux_pipe_cmd w l)"
  "cmd_safe (capture_cmd w)" "cmd_safe (has_session_cmd w)" "cmd_safe (send_keys_cmd w text)"
  "cmd_safe (resize_cmd w cols rows)" "cmd_safe (attach_cmd w)"
  by (simp_all add: not_kill UNAME_CMD_def WRAPPER_CMD_def remote_command_def read_exit_cmd_def tail_cmd_def
      check_tail_cmd_def TMUX_CHECK_def tmux_new_cmd_def tmux_pipe_cmd_def capture_cmd_def
      has_session_cmd_def send_keys_cmd_def resize_cmd_def attach_cmd_def)

lemma cmd_safe_kill [simp]: "signal \<in> set ALLOWED_SIGNALS \<Longrightarrow> 0 < n \<Longrightarrow> cmd_safe (kill_cmd signal n)"
  by (auto simp: cmd_safe_def)

lemma cmd_safe_alive [simp]: "0 < n \<Longrightarrow> cmd_safe (alive_cmd n)"
  by (auto simp: cmd_safe_def)

lemma ok_pid: "get_process i (sm_state m) = Some r \<Longrightarrow> sm_ok m \<Longrightarrow> 0 < pr_remote_pid r"
  by (rule records_ok_pid [of "sm_state m"]) (simp_all add: sm_ok_def)

subsection \<open>The operations keep it\<close>

lemma ok_detect [ok_pieces]: "sm_ok m \<Longrightarrow> sm_ok (fst (detect_flush_wrapper env server conn m))"
  by (auto simp: detect_flush_wrapper_def split: option.split sum.split intro!: ok_bind ok_pieces)

lemma ok_start_process: "sm_ok m \<Longrightarrow> sm_ok (fst (start_process env server command cwd vars m))"
  by (auto simp: start_process_def Let_def split: option.split intro!: ok_bind ok_pieces)

lemma ok_read_process: "sm_ok m \<Longrightarrow> sm_ok (fst (read_process env pid n k m))"
  by (auto simp: read_process_def intro!: ok_bind ok_pieces)

lemma ok_kill_process: "sm_ok m \<Longrightarrow> sm_ok (fst (kill_process env pid signal m))"
  by (auto simp: kill_process_def intro!: ok_bind ok_pieces cmd_safe_kill) (rule ok_pid, assumption, assumption)+

lemma ok_check_process: "sm_ok m \<Longrightarrow> sm_ok (fst (check_process env pid m))"
  by (auto simp: check_process_def Let_def intro!: ok_bind ok_pieces cmd_safe_kill cmd_safe_alive intro: ok_pid)

lemma ok_tables:
  assumes "sm_ok m" and "sm_state m' = sm_state m" and "sm_runs m' = sm_runs m" and "tables_ok m'"
  shows "sm_ok m'"
  using assms by (simp add: sm_ok_def)

lemma buffer_bound:
  "map_of d k = Some b \<Longrightarrow> \<forall>p \<in> set d. length (snd p) \<le> n \<Longrightarrow> length b \<le> n"
  by (metis map_of_SomeD snd_conv)

lemma collect_bound: "pty_collect n acc buf = (out, rest) \<Longrightarrow> length buf \<le> k \<Longrightarrow> length rest \<le> k"
  using length_pty_collect [of n acc buf] by simp

lemma ok_drain: "sm_ok m \<Longrightarrow> sm_ok (drain_chunk sid chunk m)"
  by (rule ok_tables, assumption)
    (auto simp: drain_chunk_def sm_ok_def tables_ok_def same_keys_replace split: option.split
      dest!: set_dict_set_subset [THEN subsetD] intro!: length_deque_append intro: buffer_bound)

lemma ok_take: "sm_ok m \<Longrightarrow> sm_ok (fst (pty_take sid n m))"
  by (rule ok_tables, assumption)
    (auto simp: pty_take_def sm_ok_def tables_ok_def same_keys_replace split: option.split prod.split
      dest!: set_dict_set_subset [THEN subsetD] dest: collect_bound [OF _ buffer_bound])

lemma ok_tmux_run [ok_pieces]:
  "sm_ok m \<Longrightarrow> (\<And>w. cmd_safe (cmd w)) \<Longrightarrow> sm_ok (fst (tmux_run env sid cmd m))"
  by (auto simp: tmux_run_def split: option.split intro!: ok_bind ok_pieces)

lemma ok_admit: "sm_ok m \<Longrightarrow> sm_ok (fst (pty_admit env server m))"
  by (simp add: pty_admit_def)

lemma ok_open_tables:
  "sm_ok m \<Longrightarrow> sm_ok (m\<lparr>sm_pty_procs := dict_set sid proc (sm_pty_procs m),
     sm_pty_buffers := dict_set sid [] (sm_pty_buffers m), sm_drain_tasks := dict_set sid proc (sm_drain_tasks m)\<rparr>)"
  by (rule ok_tables, assumption)
    (auto simp: sm_ok_def tables_ok_def dest!: set_dict_set_subset [THEN subsetD])

lemma ok_open_tmux_tables:
  "sm_ok m \<Longrightarrow> sm_ok (m\<lparr>sm_tmux_logs := dict_set sid log_file (sm_tmux_logs m),
     sm_tmux_sessions := dict_set sid window (sm_tmux_sessions m), sm_tmux_conns := dict_set sid conn (sm_tmux_conns m)\<rparr>)"
  by (rule ok_tables, assumption) (auto simp: sm_ok_def tables_ok_def)

lemma ok_open: "sm_ok m \<Longrightarrow> sm_ok (fst (pty_open env server command cols rows use_tmux m))"
  by (auto simp: pty_open_def pty_open_plain_def pty_open_tmux_def Let_def
      intro!: ok_bind ok_pieces ok_open_tables ok_open_tmux_tables)

lemma take_ok: "pty_take sid n m = (m', out) \<Longrightarrow> sm_ok m \<Longrightarrow> sm_ok m'"
  using ok_take [of m sid n] by simp

lemma ok_pty_read: "sm_ok m \<Longrightarrow> sm_ok (fst (pty_read env sid n m))"
  by (auto simp: pty_read_def Let_def split: option.split prod.split intro!: ok_bind ok_pieces intro: take_ok)

lemma ok_written: "sm_ok m \<Longrightarrow> sm_ok (m\<lparr>sm_written := w\<rparr>)"
  and ok_resized: "sm_ok m \<Longrightarrow> sm_ok (m\<lparr>sm_resized := z\<rparr>)"
  and ok_closed: "sm_ok m \<Longrightarrow> sm_ok (m\<lparr>sm_closed := c\<rparr>)"
  by (simp_all add: sm_ok_def tables_ok_def)

lemma ok_pty_write: "sm_ok m \<Longrightarrow> sm_ok (fst (pty_write env sid text m))"
  by (auto simp: pty_write_def split: option.split intro!: ok_bind ok_pieces ok_written)

lemma ok_pty_resize: "sm_ok m \<Longrightarrow> sm_ok (fst (pty_resize env sid cols rows m))"
  by (auto simp: pty_resize_def split: option.split intro!: ok_bind ok_pieces ok_resized)

lemma ok_release: "sm_ok m \<Longrightarrow> sm_ok (release_session sid use_tmux m)"
  by (rule ok_tables, assumption) (auto simp: release_session_def sm_ok_def tables_ok_def)

lemma ok_pty_close: "sm_ok m \<Longrightarrow> sm_ok (fst (pty_close env sid m))"
  by (auto simp: pty_close_def intro!: ok_bind ok_pieces ok_release)

lemma ok_pty_attach: "sm_ok m \<Longrightarrow> sm_ok (fst (pty_attach env sid m))"
  by (auto simp: pty_attach_def split: option.split intro!: ok_bind ok_pieces)

lemmas ok_ops = ok_start_process ok_read_process ok_kill_process ok_check_process ok_admit ok_open
  ok_drain ok_pty_read ok_pty_write ok_pty_resize ok_pty_close ok_pty_attach ok_closed

lemma ok_step: "sm_step m m' \<Longrightarrow> sm_ok m \<Longrightarrow> sm_ok m'"
  by (auto elim!: sm_stepE intro: ok_ops)

lemma ok_steps: "sm_step\<^sup>*\<^sup>* m m' \<Longrightarrow> sm_ok m \<Longrightarrow> sm_ok m'"
  by (induction rule: rtranclp_induct) (auto intro: ok_step)

lemma ok_init: "records_ok s \<Longrightarrow> sm_ok (SessionManager p s a)"
  by (simp add: sm_ok_def tables_ok_def same_keys_def SessionManager_def)

subsection \<open>Properties\<close>

text \<open>C24: Starting from the records of a state store whose process ids are positive, whatever operations
  are called in whatever order and however hosts answer: every \<open>kill\<close> sent to a host names one
  positive process id and \<open>0\<close> or an allowed signal, never a process group; the tables of the PTY
  sessions agree on their keys and no buffer holds more than 65536 chunks; the records stay keyed by
  their ids with positive process ids.\<close>
theorem session_runs_safe:
  assumes "sm_step\<^sup>*\<^sup>* (SessionManager p s a) m" and "records_ok s"
  shows "(\<forall>cmd \<in> snd ` set (sm_runs m). prefix ''kill'' cmd \<longrightarrow>
            (\<exists>n > 0. cmd = alive_cmd n \<or> (\<exists>sig \<in> set ALLOWED_SIGNALS. cmd = kill_cmd sig n)))
    \<and> tables_ok m \<and> records_ok (sm_state m)"
  using ok_steps [OF assms(1) ok_init [OF assms(2)]] by (auto simp: sm_ok_def cmd_safe_def)

lemma session_runs_safe_witness:
  "\<exists>m. kill_process (example_session_env ''1'') ''p1'' ''SIGTERM''
        ((SessionManager () (StateStore SF_missing) (AuditLog_init False True []))
           \<lparr>sm_state := (StateStore SF_missing)\<lparr>ss_processes := [(''p1'', example_process)]\<rparr>\<rparr>) = (m, Inr ())
     \<and> (\<exists>n > 0. kill_cmd ''SIGTERM'' 42 = alive_cmd n \<or> (\<exists>sig \<in> set ALLOWED_SIGNALS. kill_cmd ''SIGTERM'' 42 = kill_cmd sig n))"
proof -
  let ?s = "(StateStore SF_missing)\<lparr>ss_processes := [(''p1'', example_process)]\<rparr> :: unit state_store"
  let ?m0 = "SessionManager () ?s (AuditLog_init False True [])"
  obtain m r where run: "kill_process (example_session_env ''1'') ''p1'' ''SIGTERM'' ?m0 = (m, r)" by (rule prod.exhaust)
  have "sm_step ?m0 (fst (kill_process (example_session_env ''1'') ''p1'' ''SIGTERM'' ?m0))" by (rule step_kill)
  then have step: "sm_step\<^sup>*\<^sup>* ?m0 m" using run by auto
  have "records_ok ?s"
    by (simp add: records_ok_def processes_keyed_def sessions_keyed_def list_processes_def dict_values_def
        dict_ok_def StateStore_def example_process_def)
  note safe = session_runs_safe [OF step this]
  have "snd (kill_process (example_session_env ''1'') ''p1'' ''SIGTERM'' ?m0) = Inr ()
      \<and> sm_runs (fst (kill_process (example_session_env ''1'') ''p1'' ''SIGTERM'' ?m0)) = [(0, kill_cmd ''SIGTERM'' 42)]"
    by (simp add: kill_process_def get_record_def get_process_def ALLOWED_SIGNALS_def sm_get_def sm_run_def
        sm_upsert_process_def upsert_process_def state_persist_def sm_log_def example_session_env_def
        SessionManager_def StateStore_def example_process_def)
  then have "r = Inr ()" "sm_runs m = [(0, kill_cmd ''SIGTERM'' 42)]" using run by simp_all
  moreover have "prefix ''kill'' (kill_cmd ''SIGTERM'' 42)" by (simp add: kill_cmd_def)
  ultimately show ?thesis using safe run by (auto simp: SessionManager_def)
qed

lemma pty_open_success:
  assumes "pty_open env server command cols rows use_tmux m = (m', Inr sid)"
  obtains r where "sid = se_uuid env (sm_uuids m)" "sr_id r = sid" "sr_server r = server"
    "sr_status r = PS_running" "sr_use_tmux r = use_tmux"
    "sm_state m' = fst (upsert_session (se_writes env) (se_codec env) r (sm_state m))"
proof -
  have get: "sm_state m1 = sm_state m" if "sm_get env server (m\<lparr>sm_uuids := u\<rparr>) = (m1, x)" for m1 x u
    using sm_get_simps(2) [of env server "m\<lparr>sm_uuids := u\<rparr>"] that by simp
  show thesis
  proof (cases use_tmux)
    case True
    then show thesis
      using assms that [of "started_record env sid server command (Some (tmux_name sid))"]
      by (auto simp: pty_open_def pty_open_tmux_def new_uuid_def Let_def sm_run_def sm_upsert_session_def
          started_record_def split: if_splits prod.splits elim!: bindR_InrE dest!: get)
  next
    case False
    then show thesis
      using assms that [of "started_record env sid server command None"]
      by (auto simp: pty_open_def pty_open_plain_def new_uuid_def Let_def sm_spawn_def sm_upsert_session_def
          started_record_def split: if_splits prod.splits option.splits elim!: bindR_InrE dest!: get)
  qed
qed

lemma pty_open_adds_one:
  assumes "pty_open env server command cols rows use_tmux m = (m', Inr sid)"
    and "get_session sid (sm_state m) = None"
  shows "length (active_sessions server (sm_state m')) = Suc (length (active_sessions server (sm_state m)))"
  by (rule pty_open_success [OF assms(1)])
    (use assms(2) in \<open>simp add: active_sessions_def list_sessions_def upsert_session_def dict_values_def
      dict_set_fresh get_session_def\<close>)

lemma start_pty_Inr:
  "start_pty env server command cols rows use_tmux m = (m', Inr sid) \<longleftrightarrow>
     int (length (active_sessions server (sm_state m))) < session_limit env server
     \<and> pty_open env server command cols rows use_tmux m = (m', Inr sid)"
  by (auto simp: start_pty_def pty_admit_def)

text \<open>C27: The session cap, one caller at a time: \<open>start_pty\<close> that succeeds adds exactly one running
  session of the server and the running sessions stay within the limit of the server or, without one,
  of the settings.\<close>
theorem start_pty_capped:
  assumes "start_pty env server command cols rows use_tmux m = (m', Inr sid)"
    and "get_session sid (sm_state m) = None"
  shows "length (active_sessions server (sm_state m')) = Suc (length (active_sessions server (sm_state m)))
    \<and> int (length (active_sessions server (sm_state m'))) \<le> session_limit env server"
  using assms pty_open_adds_one [of env server command cols rows use_tmux m m' sid] by (auto simp: start_pty_Inr)

definition capped_env :: "(unit, unit) session_env" where
  "capped_env = (example_session_env ''x'')\<lparr>se_servers := [(''a'', (ServerConfig ''a'' ''h'' ''u'' AT_agent)\<lparr>sc_max_sessions := Some 1\<rparr>)]\<rparr>"

lemma start_pty_capped_witness:
  "\<exists>m'. start_pty capped_env ''a'' None 80 24 False example_manager = (m', Inr ''id0'')
     \<and> length (active_sessions ''a'' (sm_state m')) = 1 \<and> session_limit capped_env ''a'' = 1"
proof -
  obtain m' r where run: "start_pty capped_env ''a'' None 80 24 False example_manager = (m', r)" by (rule prod.exhaust)
  have "snd (start_pty capped_env ''a'' None 80 24 False example_manager) = Inr ''id0''" by code_simp
  with run have run: "start_pty capped_env ''a'' None 80 24 False example_manager = (m', Inr ''id0'')" by simp
  have "get_session ''id0'' (sm_state example_manager) = None" "length (active_sessions ''a'' (sm_state example_manager)) = 0"
    "session_limit capped_env ''a'' = 1" by code_simp+
  then show ?thesis using start_pty_capped [OF run] run by auto
qed

text \<open>C28: The session cap does not hold for two callers: the check comes before the first \<open>await\<close>, so
  that two calls of \<open>start_pty\<close> for the last free place, both checked before either opens its session,
  both succeed and leave one session more than the limit.\<close>
theorem start_pty_cap_race:
  assumes "pty_admit env server m = (m, Inr ())"
    and "int (length (active_sessions server (sm_state m))) = session_limit env server - 1"
    and "pty_open env server command cols rows use_tmux m = (m1, Inr sid1)"
    and "pty_open env server command' cols' rows' use_tmux' m1 = (m2, Inr sid2)"
    and "get_session sid1 (sm_state m) = None" and "get_session sid2 (sm_state m1) = None"
  shows "int (length (active_sessions server (sm_state m2))) = session_limit env server + 1"
  using assms pty_open_adds_one [OF assms(3,5)] pty_open_adds_one [OF assms(4,6)] by simp

lemma start_pty_cap_race_witness:
  "\<exists>m1 m2. pty_admit capped_env ''a'' example_manager = (example_manager, Inr ())
     \<and> pty_open capped_env ''a'' None 80 24 False example_manager = (m1, Inr ''id0'')
     \<and> pty_open capped_env ''a'' None 80 24 False m1 = (m2, Inr ''id1'')
     \<and> session_limit capped_env ''a'' = 1 \<and> int (length (active_sessions ''a'' (sm_state m2))) = 2"
proof -
  obtain m1 r1 where o1: "pty_open capped_env ''a'' None 80 24 False example_manager = (m1, r1)" by (rule prod.exhaust)
  obtain m2 r2 where o2: "pty_open capped_env ''a'' None 80 24 False m1 = (m2, r2)" by (rule prod.exhaust)
  have a: "int (length (active_sessions ''a'' (sm_state example_manager))) = session_limit capped_env ''a'' - 1"
    "session_limit capped_env ''a'' = 1" "get_session ''id0'' (sm_state example_manager) = None" by code_simp+
  then have admit: "pty_admit capped_env ''a'' example_manager = (example_manager, Inr ())" by (simp add: pty_admit_def)
  have "snd (pty_open capped_env ''a'' None 80 24 False example_manager) = Inr ''id0''" by code_simp
  moreover have "get_session ''id1'' (sm_state (fst (pty_open capped_env ''a'' None 80 24 False example_manager))) = None"
    by code_simp
  moreover have "snd (pty_open capped_env ''a'' None 80 24 False
      (fst (pty_open capped_env ''a'' None 80 24 False example_manager))) = Inr ''id1''"
    by code_simp
  ultimately have r: "r1 = Inr ''id0''" "get_session ''id1'' (sm_state m1) = None" "r2 = Inr ''id1''"
    using o1 o2 by simp_all
  show ?thesis
    using start_pty_cap_race [OF admit a(1) o1 [unfolded r] o2 [unfolded r] a(3) r(2)] admit o1 o2 r a(2) by simp
qed

end
