(* ===== verification/Exec_Tools.thy ===== *)
theory Exec_Tools
  imports Session_Runs Registry
begin

section \<open>The tools for commands and background processes (\<open>tools/exec_tools.py\<close>)\<close>

text \<open>
  \<open>ssh_exec\<close> runs a command and waits; the other tools wrap the session manager and turn its
  exceptions into structured replies. \<open>tool_reply\<close> is the \<open>try\<close> statement they share: the
  \<open>except\<close> clauses give a reply or let the exception pass.
\<close>

subsection \<open>Replies\<close>

fun tool_reply :: "(py_exn \<Rightarrow> reply option) \<Rightarrow> ('a \<Rightarrow> reply) \<Rightarrow> 'm \<times> 'a result \<Rightarrow> 'm \<times> reply result" where
  "tool_reply handler ok (m, Inl e) = (m, case handler e of Some r \<Rightarrow> Inr r | None \<Rightarrow> Inl e)"
| "tool_reply handler ok (m, Inr x) = (m, Inr (ok x))"

lemma fst_tool_reply [simp]: "fst (tool_reply h ok p) = fst p"
  by (cases p; cases "snd p") auto

text \<open>\<open>except NotFound: \<dots> except McpSshError: \<dots>\<close> around an operation on one process or session.\<close>

definition item_handler :: "py_exn \<Rightarrow> string \<Rightarrow> string \<Rightarrow> string \<Rightarrow> string \<Rightarrow> py_exn \<Rightarrow> reply option" where
  "item_handler missing missing_code key item other e =
     (if e = missing then Some (err_reply missing_code [(key, JStr item)])
      else if is_McpSshError e then Some (err_reply other [(key, JStr item)])
      else None)"

subsection \<open>\<open>ssh_exec\<close>\<close>

record 'p exec_state =
  xs_pool :: 'p
  xs_audit :: audit_state
  xs_runs :: "(nat \<times> string) list"

text \<open>The environment answers a command with its output, its error output and its exit status, or an
  exception; a command that outlasts the timeout is a \<open>TimeoutError\<close>.\<close>

record 'p exec_env =
  xe_get :: "string \<Rightarrow> 'p \<Rightarrow> 'p \<times> nat result"
  xe_run :: "nat \<Rightarrow> nat \<Rightarrow> string \<Rightarrow> (string \<times> string \<times> int option) result"

definition exec_full_command :: "string option \<Rightarrow> (string \<times> string) list \<Rightarrow> string \<Rightarrow> string" where
  "exec_full_command cwd env command =
     cd_part cwd @ (if env_exports env \<noteq> [] then env_exports env @ '' '' else []) @ command"

definition exec_log :: "string \<Rightarrow> string \<Rightarrow> string \<Rightarrow> json_obj \<Rightarrow> 'p exec_state \<Rightarrow> 'p exec_state" where
  "exec_log server command outcome detail s = s\<lparr>xs_audit := audit_log
     ((AuditEvent ''ssh_exec'' outcome detail)\<lparr>ae_server := Some server, ae_command := Some command\<rparr>) (xs_audit s)\<rparr>"

definition exec_finish ::
    "string \<Rightarrow> string \<Rightarrow> int option \<Rightarrow> (string \<times> string \<times> int option) result \<Rightarrow> 'p exec_state
      \<Rightarrow> 'p exec_state \<times> reply result" where
  "exec_finish server command timeout res s =
     (case res of
        Inl e \<Rightarrow>
          if e = PyTimeoutError then
            (exec_log server command ''timeout'' [(''timeout_s'', JOptInt timeout)] s,
             Inr (err_reply ''timeout'' [(''server'', JStr server), (''command'', JStr command)]))
          else if is_McpSshError e then (s, Inr (err_reply ''execution_error'' [(''server'', JStr server)]))
          else (s, Inr (err_reply ''unexpected_error'' [(''server'', JStr server)]))
      | Inr (out, err, status) \<Rightarrow>
          let exit_code = (case status of Some n \<Rightarrow> n | None \<Rightarrow> - 1)
          in (exec_log server command ''completed'' [(''exit_code'', JInt exit_code)] s,
              Inr [(''output'', JStr (strip_ansi (out @ err))), (''exit_code'', JInt exit_code),
                   (''server'', JStr server)]))"

definition ssh_exec ::
    "'p exec_env \<Rightarrow> registry \<Rightarrow> string \<Rightarrow> string \<Rightarrow> string option \<Rightarrow> (string \<times> string) list option \<Rightarrow> int option
      \<Rightarrow> 'p exec_state \<Rightarrow> 'p exec_state \<times> reply result" where
  "ssh_exec env reg server command cwd vars timeout s =
     (let s0 = (if timeout = None then
                  exec_log server command ''warn_no_timeout''
                    [(''cwd'', JOptStr cwd),
                     (''env_keys'', JStrs (map fst (case vars of None \<Rightarrow> [] | Some d \<Rightarrow> d)))] s
                else s)
      in case reg_get reg server of
           Inl _ \<Rightarrow> (s0, Inr (err_reply ''server_not_found'' [(''server'', JStr server)]))
         | Inr cfg \<Rightarrow>
             let cwd' = (if cwd \<noteq> None then cwd else sc_default_cwd cfg);
                 vars' = dict_merge (sc_default_env cfg) (case vars of None \<Rightarrow> [] | Some d \<Rightarrow> d)
             in (case xe_get env server (xs_pool s0) of
                   (p, Inl e) \<Rightarrow>
                     (s0\<lparr>xs_pool := p\<rparr>,
                      if is_McpSshError e then Inr (err_reply ''connection_error'' [(''server'', JStr server)])
                      else Inl e)
                 | (p, Inr conn) \<Rightarrow>
                     let cmd = exec_full_command cwd' vars' command
                     in exec_finish server command timeout (xe_run env (length (xs_runs s0)) conn cmd)
                          (s0\<lparr>xs_pool := p, xs_runs := xs_runs s0 @ [(conn, cmd)]\<rparr>)))"

subsection \<open>Background processes\<close>

definition ssh_exec_stream ::
    "('p, 't) session_env \<Rightarrow> string \<Rightarrow> string \<Rightarrow> string option \<Rightarrow> (string \<times> string) list option \<Rightarrow> ('p, 't, reply) session_op" where
  "ssh_exec_stream env server command cwd vars m =
     tool_reply
       (\<lambda>e. Some (err_reply (if is_McpSshError e then ''start_error'' else ''unexpected_error'') [(''server'', JStr server)]))
       (\<lambda>pid. [(''process_id'', JStr pid), (''server'', JStr server), (''command'', JStr command)])
       (start_process env server command cwd vars m)"

definition output_fields :: "process_output \<Rightarrow> json_obj" where
  "output_fields out =
     [(''running'', JBool (po_running out)), (''exit_code'', JOptInt (po_exit_code out)),
      (''remote_pid'', JInt (po_remote_pid out)), (''server'', JStr (po_server out))]"

definition ssh_read_process :: "('p, 't) session_env \<Rightarrow> string \<Rightarrow> int \<Rightarrow> int \<Rightarrow> ('p, 't, reply) session_op" where
  "ssh_read_process env pid max_bytes offset m =
     tool_reply (item_handler ProcessNotFound ''process_not_found'' ''process_id'' pid ''read_error'')
       (\<lambda>out. [(''output'', JStr (po_output out)),
               (''next_offset'', JInt (offset + int (length (utf8_encode (po_output out)))))] @ output_fields out)
       (read_process env pid max_bytes offset m)"

definition ssh_write_process :: "string \<Rightarrow> string \<Rightarrow> ('p, 't, reply) session_op" where
  "ssh_write_process pid data m =
     tool_reply (item_handler ProcessNotFound ''process_not_found'' ''process_id'' pid ''write_error'')
       (\<lambda>_. [(''written'', JBool True), (''process_id'', JStr pid)])
       (write_process pid data m)"

definition ssh_kill_process :: "('p, 't) session_env \<Rightarrow> string \<Rightarrow> string \<Rightarrow> ('p, 't, reply) session_op" where
  "ssh_kill_process env pid signal m =
     tool_reply (item_handler ProcessNotFound ''process_not_found'' ''process_id'' pid ''kill_error'')
       (\<lambda>_. [(''killed'', JBool True), (''process_id'', JStr pid), (''signal'', JStr signal)])
       (kill_process env pid signal m)"

definition ssh_check_process :: "('p, 't) session_env \<Rightarrow> string \<Rightarrow> ('p, 't, reply) session_op" where
  "ssh_check_process env pid m =
     tool_reply (item_handler ProcessNotFound ''process_not_found'' ''process_id'' pid ''check_error'')
       (\<lambda>out. (''output'', JStr (po_output out)) # output_fields out)
       (check_process env pid m)"

definition ago :: "int \<Rightarrow> int option \<Rightarrow> string" where
  "ago ref last_checked =
     (case last_checked of
        None \<Rightarrow> ''never''
      | Some lc \<Rightarrow>
          let secs = ref - lc
          in if secs < 60 then show_int secs @ ''s ago''
             else if secs < 3600 then show_int (secs div 60) @ ''m ago''
             else show_int (secs div 3600) @ ''h ago'')"

definition process_item :: "(int \<Rightarrow> string) \<Rightarrow> int \<Rightarrow> process_record \<Rightarrow> json" where
  "process_item isoformat ref r = JObj
     [(''process_id'', JStr (pr_id r)), (''server'', JStr (pr_server r)), (''command'', JStr (pr_command r)),
      (''remote_pid'', JInt (pr_remote_pid r)), (''status'', JStr (process_status_value (pr_status r))),
      (''exit_code'', JOptInt (pr_exit_code r)), (''started_at'', JStr (isoformat (pr_started_at r))),
      (''last_checked_ago'', JStr (ago ref (pr_last_checked r)))]"

definition ssh_list_processes ::
    "(int \<Rightarrow> string) \<Rightarrow> int \<Rightarrow> string option \<Rightarrow> ('p, 't) session_manager \<Rightarrow> reply" where
  "ssh_list_processes isoformat ref server m =
     [(''processes'', JArr (map (process_item isoformat ref) (sm_list_processes server m)))]"

subsection \<open>Properties\<close>

text \<open>C30: The type of what \<open>ssh_exec\<close> gives back: a reply is either the three fields of a finished command
  or an error with one of five codes; it raises only what \<open>get_connection\<close> raised outside the
  program's exception hierarchy, and then nothing was run.\<close>
theorem ssh_exec_reply_type:
  "case ssh_exec env reg server command cwd vars timeout s of
     (s', Inr rep) \<Rightarrow>
       (\<exists>out n. rep = [(''output'', JStr out), (''exit_code'', JInt n), (''server'', JStr server)])
       \<or> error_code rep \<in> Some ` {''server_not_found'', ''connection_error'', ''timeout'', ''execution_error'', ''unexpected_error''}
   | (s', Inl e) \<Rightarrow> \<not> is_McpSshError e \<and> snd (xe_get env server (xs_pool s)) = Inl e \<and> xs_runs s' = xs_runs s"
  by (auto simp: ssh_exec_def exec_finish_def exec_log_def Let_def split: sum.split prod.split option.split)

text \<open>Reading a log page by page: each call continues at the \<open>next_offset\<close> of the one before.\<close>

definition reply_str :: "string \<Rightarrow> reply \<Rightarrow> string" where
  "reply_str k rep = (case map_of rep k of Some (JStr x) \<Rightarrow> x | _ \<Rightarrow> [])"

definition reply_int :: "string \<Rightarrow> reply \<Rightarrow> int" where
  "reply_int k rep = (case map_of rep k of Some (JInt i) \<Rightarrow> i | _ \<Rightarrow> 0)"

fun read_pages :: "('p, 't) session_env \<Rightarrow> string \<Rightarrow> int \<Rightarrow> nat \<Rightarrow> int \<Rightarrow> ('p, 't) session_manager \<Rightarrow> string result" where
  "read_pages env pid max_bytes 0 offset m = Inr []"
| "read_pages env pid max_bytes (Suc n) offset m =
     (case ssh_read_process env pid max_bytes offset m of
        (m', Inl e) \<Rightarrow> Inl e
      | (m', Inr rep) \<Rightarrow>
          map_sum id ((@) (reply_str ''output'' rep)) (read_pages env pid max_bytes n (reply_int ''next_offset'' rep) m'))"

text \<open>What the host must do: the pool connects, the log file has the text \<open>content\<close>, and \<open>tail\<close> and
  \<open>head\<close> cut it as documented.\<close>

definition serves_log :: "('p, 't) session_env \<Rightarrow> process_record \<Rightarrow> int \<Rightarrow> string \<Rightarrow> bool" where
  "serves_log env r max_bytes content \<longleftrightarrow>
     (\<forall>p. \<exists>c. snd (se_get env (pr_server r) p) = Inr c)
     \<and> (\<forall>n c. \<exists>x. se_run env n c (read_exit_cmd r) = Inr x)
     \<and> (\<forall>n c k. se_run env n c (tail_cmd r max_bytes (int k)) = Inr (take (nat max_bytes) (drop k content), 0))"

lemma utf8_ascii: "list_all (\<lambda>c. code c < 128) s \<Longrightarrow> length (utf8_encode s) = length s"
  by (induction s) (auto simp: utf8_encode_def)

lemma read_page:
  assumes "get_process pid (sm_state m) = Some r" and "serves_log env r max_bytes content"
    and "list_all (\<lambda>c. code c < 128) content"
  shows "\<exists>m' rep. ssh_read_process env pid max_bytes (int k) m = (m', Inr rep) \<and> sm_state m' = sm_state m
    \<and> reply_str ''output'' rep = take (nat max_bytes) (drop k content)
    \<and> reply_int ''next_offset'' rep = int (k + length (take (nat max_bytes) (drop k content)))"
proof -
  obtain p c where get: "se_get env (pr_server r) (sm_pool m) = (p, Inr c)"
    using assms(2) by (metis prod.collapse serves_log_def)
  obtain out status where ex: "se_run env (length (sm_runs m)) c (read_exit_cmd r) = Inr (out, status)"
    using assms(2) by (metis prod.collapse serves_log_def)
  have tail: "se_run env n c (tail_cmd r max_bytes (int k)) = Inr (take (nat max_bytes) (drop k content), 0)" for n
    using assms(2) by (simp add: serves_log_def)
  have "list_all (\<lambda>c. code c < 128) (take (nat max_bytes) (drop k content))"
    using assms(3) by (auto simp: list_all_iff dest!: in_set_takeD in_set_dropD)
  then show ?thesis
    using assms(1) get ex tail
    by (simp add: ssh_read_process_def read_process_def get_record_def sm_get_def sm_run_def reply_str_def
        reply_int_def utf8_ascii)
qed

lemma read_pages_from:
  "get_process pid (sm_state m) = Some r \<Longrightarrow> serves_log env r max_bytes content \<Longrightarrow>
   list_all (\<lambda>c. code c < 128) content \<Longrightarrow>
   read_pages env pid max_bytes n (int k) m = Inr (take (n * nat max_bytes) (drop k content))"
proof (induction n arbitrary: k m)
  case 0
  then show ?case by simp
next
  case (Suc n)
  define page where "page = take (nat max_bytes) (drop k content)"
  obtain m' rep where step: "ssh_read_process env pid max_bytes (int k) m = (m', Inr rep)" "sm_state m' = sm_state m"
      "reply_str ''output'' rep = page" "reply_int ''next_offset'' rep = int (k + length page)"
    using read_page [OF Suc.prems, of k] by (auto simp: page_def)
  have "read_pages env pid max_bytes n (int (k + length page)) m' = Inr (take (n * nat max_bytes) (drop (k + length page) content))"
    using Suc.prems step by (intro Suc.IH) simp_all
  moreover have "page @ take (n * nat max_bytes) (drop (k + length page) content)
      = take (Suc n * nat max_bytes) (drop k content)"
    by (cases "nat max_bytes \<le> length content - k") (auto simp: page_def take_add add.commute)
  ultimately show ?case using step by simp
qed


definition log_env :: "(unit, int) session_env" where
  "log_env =
     \<lparr>se_get = (\<lambda>server p. (p, Inr 0)),
      se_run = (\<lambda>n conn cmd. Inr
        (case find (\<lambda>k. cmd = tail_cmd example_process 2 (int k)) [0..<5] of
           Some k \<Rightarrow> take 2 (drop k ''hello'') | None \<Rightarrow> [], 0)),
      se_spawn = (\<lambda>n conn cmd. None), se_uuid = show_nat, se_now = 7, se_settings = GlobalSettings, se_servers = [],
      se_registry = None, se_writes = (\<lambda>n. True), se_codec = example_codec, se_decode = (\<lambda>b. [])\<rparr>"

lemma show_int_inj: "show_int i = show_int j \<longleftrightarrow> i = j"
  by (metis option.inject py_int_show_int)

lemma space_notin_show_int: "CHR '' '' \<notin> set (show_int i)"
  by (simp add: show_int_def show_nat_notin is_dec_def)

lemma tail_cmd_inj: "tail_cmd r n (int k) = tail_cmd r n (int j) \<longleftrightarrow> k = j"
proof
  assume "tail_cmd r n (int k) = tail_cmd r n (int j)"
  then have eq: "show_int (int k + 1) @ CHR '' '' # pr_log_file r @ '' 2>/dev/null | head -c '' @ show_int n @ '' || true''
      = show_int (int j + 1) @ CHR '' '' # pr_log_file r @ '' 2>/dev/null | head -c '' @ show_int n @ '' || true''"
    by (simp add: tail_cmd_def)
  have "takeWhile (\<lambda>c. c \<noteq> CHR '' '') (show_int i @ CHR '' '' # rest) = show_int i" for i rest
    using space_notin_show_int [of i] by (subst takeWhile_append2) auto
  then have "show_int (int k + 1) = show_int (int j + 1)" using arg_cong [OF eq, of "takeWhile (\<lambda>c. c \<noteq> CHR '' '')"] by metis
  then show "k = j" by (simp add: show_int_inj)
qed simp

lemma log_env_serves: "serves_log log_env example_process 2 ''hello''"
proof -
  have "find (\<lambda>j. k = j) [0..<5] = (if k < 5 then Some k else None)" for k :: nat
    by (auto simp: find_None_iff find_Some_iff upt_rec)
  then show ?thesis by (auto simp: serves_log_def log_env_def tail_cmd_inj)
qed


end
