(* ===== verification/Pty_Tools.thy ===== *)
theory Pty_Tools
  imports Exec_Tools
begin

section \<open>The tools for PTY sessions (\<open>tools/pty_tools.py\<close>)\<close>

text \<open>
  Wrappers of the session manager that turn its exceptions into structured replies. Starting and
  closing also write an audit event of their own, after the one of the manager.
\<close>

definition start_pty_handler :: "string \<Rightarrow> py_exn \<Rightarrow> reply option" where
  "start_pty_handler server e = Some (err_reply
     (if e = TmuxNotAvailable then ''tmux_not_available''
      else if e = SessionCapExceeded then ''session_cap_exceeded''
      else if is_McpSshError e then ''start_error'' else ''unexpected_error'') [(''server'', JStr server)])"

definition ssh_start_pty ::
    "('p, 't) session_env \<Rightarrow> string \<Rightarrow> string option \<Rightarrow> int \<Rightarrow> int \<Rightarrow> bool \<Rightarrow> ('p, 't, reply) session_op" where
  "ssh_start_pty env server command cols rows use_tmux m =
     (case start_pty env server command cols rows use_tmux m of
        (m', Inl e) \<Rightarrow> tool_reply (start_pty_handler server) (\<lambda>rep. rep) (m', Inl e)
      | (m', Inr sid) \<Rightarrow>
          (sm_log ((AuditEvent ''ssh_start_pty'' ''started''
              [(''use_tmux'', JBool use_tmux), (''cols'', JInt cols), (''rows'', JInt rows)])
             \<lparr>ae_server := Some server, ae_command := command, ae_session_id := Some sid\<rparr>) m',
           Inr [(''session_id'', JStr sid), (''use_tmux'', JBool use_tmux), (''server'', JStr server),
                (''command'', JOptStr command)]))"

definition session_handler :: "string \<Rightarrow> string \<Rightarrow> py_exn \<Rightarrow> reply option" where
  "session_handler sid other = item_handler SessionNotFound ''session_not_found'' ''session_id'' sid other"

definition ssh_pty_read :: "('p, 't) session_env \<Rightarrow> string \<Rightarrow> int \<Rightarrow> ('p, 't, reply) session_op" where
  "ssh_pty_read env sid max_bytes m =
     tool_reply (session_handler sid ''read_error'')
       (\<lambda>out. [(''output'', JStr (pt_output out)), (''alive'', JBool (pt_alive out))])
       (pty_read env sid max_bytes m)"

definition ssh_pty_write :: "('p, 't) session_env \<Rightarrow> string \<Rightarrow> string \<Rightarrow> ('p, 't, reply) session_op" where
  "ssh_pty_write env sid data m =
     tool_reply (session_handler sid ''write_error'')
       (\<lambda>_. [(''written'', JBool True), (''session_id'', JStr sid)])
       (pty_write env sid data m)"

definition ssh_pty_resize :: "('p, 't) session_env \<Rightarrow> string \<Rightarrow> int \<Rightarrow> int \<Rightarrow> ('p, 't, reply) session_op" where
  "ssh_pty_resize env sid cols rows m =
     tool_reply (session_handler sid ''resize_error'')
       (\<lambda>_. [(''resized'', JBool True), (''session_id'', JStr sid), (''cols'', JInt cols), (''rows'', JInt rows)])
       (pty_resize env sid cols rows m)"

definition ssh_pty_close :: "('p, 't) session_env \<Rightarrow> string \<Rightarrow> ('p, 't, reply) session_op" where
  "ssh_pty_close env sid m =
     (case pty_close env sid m of
        (m', Inl e) \<Rightarrow> tool_reply (session_handler sid ''close_error'') (\<lambda>rep. rep) (m', Inl e)
      | (m', Inr _) \<Rightarrow>
          (sm_log ((AuditEvent ''ssh_pty_close'' ''closed'' [])\<lparr>ae_session_id := Some sid\<rparr>) m',
           Inr [(''closed'', JBool True), (''session_id'', JStr sid)]))"

text \<open>Besides the usual clauses \<open>ssh_pty_attach\<close> catches \<open>NotImplementedError\<close>.\<close>

definition ssh_pty_attach :: "('p, 't) session_env \<Rightarrow> string \<Rightarrow> ('p, 't, reply) session_op" where
  "ssh_pty_attach env sid m =
     tool_reply
       (\<lambda>e. if e = PyNotImplementedError
            then Some (err_reply ''not_supported_in_mcp'' [(''session_id'', JStr sid)])
            else session_handler sid ''attach_error'' e)
       (\<lambda>_. [(''attached'', JBool True), (''session_id'', JStr sid)])
       (pty_attach env sid m)"

end
