(* ===== verification/File_Tools.thy ===== *)
theory File_Tools
  imports Shell Registry Audit_Log
begin

section \<open>File transfer (\<open>tools/scp_tools.py\<close>)\<close>

text \<open>
  The four file tools over a world \<open>'w\<close> that holds the connection pool and the files of all hosts.
  What the code asks of asyncssh and of the hosts is the record \<open>file_env\<close>: reading questions are
  functions of the world, actions give a new world and may raise. File names are strings; sizes and
  modification times are integers. A walk over a remote tree recurses once per directory level;
  Python gives up with a \<open>RecursionError\<close> beyond \<open>fe_depth\<close> levels.
\<close>

subsection \<open>Paths (\<open>posixpath\<close>)\<close>

definition posix_join :: "string \<Rightarrow> string \<Rightarrow> string" where
  "posix_join a b =
     (if startswith b ''/'' then b
      else if a = [] \<or> last a = CHR ''/'' then a @ b
      else a @ ''/'' @ b)"

definition posix_basename :: "string \<Rightarrow> string" where
  "posix_basename p = rev (takeWhile (\<lambda>c. c \<noteq> CHR ''/'') (rev p))"

definition rstrip_slash :: "string \<Rightarrow> string" where
  "rstrip_slash p = rev (dropWhile (\<lambda>c. c = CHR ''/'') (rev p))"

definition posix_dirname :: "string \<Rightarrow> string" where
  "posix_dirname p =
     (let head = take (length p - length (posix_basename p)) p
      in if list_all (\<lambda>c. c = CHR ''/'') head then head else rstrip_slash head)"

subsection \<open>State and environment\<close>

record file_attrs =
  fa_size :: "int option"
  fa_mtime :: "int option"
  fa_permissions :: "nat option"

record 'w file_state =
  ft_world :: 'w
  ft_audit :: audit_state

type_synonym endpoint = "nat option \<times> string"
type_synonym tree_files = "(string, file_attrs) dict"
type_synonym ('w, 'a) file_op = "'w file_state \<Rightarrow> 'w file_state \<times> 'a result"

record 'w file_env =
  fe_get :: "string \<Rightarrow> 'w \<Rightarrow> 'w \<times> nat result"
  fe_run :: "nat \<Rightarrow> string \<Rightarrow> 'w \<Rightarrow> 'w \<times> (string \<times> string \<times> int option) result"
  fe_scp :: "endpoint \<Rightarrow> endpoint \<Rightarrow> bool \<Rightarrow> bool \<Rightarrow> 'w \<Rightarrow> 'w \<times> unit result"
  fe_sftp :: "nat \<Rightarrow> 'w \<Rightarrow> unit result"
  fe_readdir :: "nat \<Rightarrow> string \<Rightarrow> 'w \<Rightarrow> (string \<times> file_attrs) list result"
  fe_isdir :: "nat \<Rightarrow> string \<Rightarrow> 'w \<Rightarrow> bool result"
  fe_stat :: "nat \<Rightarrow> string \<Rightarrow> 'w \<Rightarrow> file_attrs result"
  fe_glob :: "nat \<Rightarrow> string \<Rightarrow> 'w \<Rightarrow> string list result"
  fe_mkdir :: "nat \<Rightarrow> string \<Rightarrow> 'w \<Rightarrow> 'w \<times> unit result"
  fe_remove :: "nat \<Rightarrow> string \<Rightarrow> 'w \<Rightarrow> 'w \<times> unit result"
  fe_depth :: nat
  fe_expanduser :: "string \<Rightarrow> string"
  fe_str :: "py_exn \<Rightarrow> string"

text \<open>\<open>except (asyncssh.SFTPError, OSError)\<close>\<close>

definition is_file_error :: "py_exn \<Rightarrow> bool" where
  "is_file_error e \<longleftrightarrow> e = AsyncsshSFTPError \<or> is_OSError e"

text \<open>An action on the world, and a question to it.\<close>

definition act :: "('w \<Rightarrow> 'w \<times> 'a result) \<Rightarrow> ('w, 'a) file_op" where
  "act f s = (case f (ft_world s) of (w, r) \<Rightarrow> (s\<lparr>ft_world := w\<rparr>, r))"

definition ask :: "('w \<Rightarrow> 'a result) \<Rightarrow> ('w, 'a) file_op" where
  "ask f s = (s, f (ft_world s))"

definition file_log :: "string \<Rightarrow> string \<Rightarrow> string \<Rightarrow> json_obj \<Rightarrow> 'w file_state \<Rightarrow> 'w file_state" where
  "file_log tool server outcome detail s =
     s\<lparr>ft_audit := audit_log ((AuditEvent tool outcome detail)\<lparr>ae_server := Some server\<rparr>) (ft_audit s)\<rparr>"

text \<open>The three \<open>except\<close> clauses the tools share: log the error, reply with its class.\<close>

definition transfer_failed :: "'w file_env \<Rightarrow> string \<Rightarrow> string \<Rightarrow> py_exn \<Rightarrow> 'w file_state \<Rightarrow> 'w file_state \<times> reply" where
  "transfer_failed env tool server e s =
     (file_log tool server ''error'' [(''error'', JStr (fe_str env e))] s,
      err_reply (if is_McpSshError e then ''connection_error''
                 else if is_file_error e then ''transfer_error'' else ''unexpected_error'')
        [(''server'', JStr server)])"

definition not_registered :: "string \<Rightarrow> reply" where
  "not_registered server = err_reply ''server_not_found'' [(''server'', JStr server)]"

subsection \<open>\<open>ssh_get\<close>, \<open>ssh_put\<close>, \<open>ssh_transfer\<close>\<close>

definition ssh_get ::
    "'w file_env \<Rightarrow> registry \<Rightarrow> string \<Rightarrow> string \<Rightarrow> string \<Rightarrow> bool \<Rightarrow> bool \<Rightarrow> 'w file_state \<Rightarrow> 'w file_state \<times> reply" where
  "ssh_get env reg server remote_path local_path recurse preserve s =
     (case reg_get reg server of
        Inl _ \<Rightarrow> (s, not_registered server)
      | Inr _ \<Rightarrow>
          let local = fe_expanduser env local_path;
              s1 = file_log ''ssh_get'' server ''start''
                     [(''remote_path'', JStr remote_path), (''local_path'', JStr local), (''recurse'', JBool recurse)] s
          in (case bindR (act (fe_get env server) s1)
                     (\<lambda>conn. act (fe_scp env (Some conn, remote_path) (None, local) recurse preserve)) of
                (s2, Inl e) \<Rightarrow> transfer_failed env ''ssh_get'' server e s2
              | (s2, Inr _) \<Rightarrow>
                  (file_log ''ssh_get'' server ''ok''
                     [(''remote_path'', JStr remote_path), (''local_path'', JStr local)] s2,
                   [(''server'', JStr server), (''remote_path'', JStr remote_path), (''local_path'', JStr local)])))"

definition ssh_put ::
    "'w file_env \<Rightarrow> registry \<Rightarrow> string \<Rightarrow> string \<Rightarrow> string \<Rightarrow> bool \<Rightarrow> bool \<Rightarrow> 'w file_state \<Rightarrow> 'w file_state \<times> reply" where
  "ssh_put env reg server local_path remote_path recurse preserve s =
     (case reg_get reg server of
        Inl _ \<Rightarrow> (s, not_registered server)
      | Inr _ \<Rightarrow>
          let local = fe_expanduser env local_path;
              s1 = file_log ''ssh_put'' server ''start''
                     [(''local_path'', JStr local), (''remote_path'', JStr remote_path), (''recurse'', JBool recurse)] s
          in (case bindR (act (fe_get env server) s1)
                     (\<lambda>conn. act (fe_scp env (None, local) (Some conn, remote_path) recurse preserve)) of
                (s2, Inl e) \<Rightarrow> transfer_failed env ''ssh_put'' server e s2
              | (s2, Inr _) \<Rightarrow>
                  (file_log ''ssh_put'' server ''ok''
                     [(''local_path'', JStr local), (''remote_path'', JStr remote_path)] s2,
                   [(''server'', JStr server), (''local_path'', JStr local), (''remote_path'', JStr remote_path)])))"

definition cp_cmd :: "bool \<Rightarrow> string \<Rightarrow> string \<Rightarrow> string" where
  "cp_cmd recurse src_path dst_path =
     ''cp '' @ (if recurse then ''-r '' else []) @ shlex_quote src_path @ '' '' @ shlex_quote dst_path"

definition transfer_body ::
    "'w file_env \<Rightarrow> string \<Rightarrow> string \<Rightarrow> string \<Rightarrow> string \<Rightarrow> bool \<Rightarrow> bool \<Rightarrow> ('w, unit) file_op" where
  "transfer_body env src_server src_path dst_server dst_path recurse preserve s =
     (if src_server = dst_server then
        bindR (act (fe_get env src_server) s) (\<lambda>conn s.
        bindR (act (fe_run env conn (cp_cmd recurse src_path dst_path)) s) (\<lambda>(out, err, status) s.
          (s, if status \<noteq> Some 0 then Inl PyOSError else Inr ())))
      else
        bindR (act (fe_get env src_server) s) (\<lambda>src_conn s.
        bindR (act (fe_get env dst_server) s) (\<lambda>dst_conn s.
          act (fe_scp env (Some src_conn, src_path) (Some dst_conn, dst_path) recurse preserve) s)))"

definition ssh_transfer ::
    "'w file_env \<Rightarrow> registry \<Rightarrow> string \<Rightarrow> string \<Rightarrow> string \<Rightarrow> string \<Rightarrow> bool \<Rightarrow> bool
      \<Rightarrow> 'w file_state \<Rightarrow> 'w file_state \<times> reply" where
  "ssh_transfer env reg src_server src_path dst_server dst_path recurse preserve s =
     (case (reg_get reg src_server, reg_get reg dst_server) of
        (Inl _, _) \<Rightarrow> (s, not_registered src_server)
      | (Inr _, Inl _) \<Rightarrow> (s, not_registered dst_server)
      | (Inr _, Inr _) \<Rightarrow>
          let s1 = file_log ''ssh_transfer'' src_server ''start''
                     [(''src_path'', JStr src_path), (''dst_server'', JStr dst_server),
                      (''dst_path'', JStr dst_path), (''recurse'', JBool recurse)] s
          in (case transfer_body env src_server src_path dst_server dst_path recurse preserve s1 of
                (s2, Inl e) \<Rightarrow> transfer_failed env ''ssh_transfer'' src_server e s2
              | (s2, Inr _) \<Rightarrow>
                  (file_log ''ssh_transfer'' src_server ''ok''
                     [(''src_path'', JStr src_path), (''dst_server'', JStr dst_server), (''dst_path'', JStr dst_path)] s2,
                   [(''src_server'', JStr src_server), (''src_path'', JStr src_path),
                    (''dst_server'', JStr dst_server), (''dst_path'', JStr dst_path)])))"

subsection \<open>Listing a remote tree\<close>

text \<open>\<open>perms & 0o170000 == 0o040000\<close>: the four bits of the file type are those of a directory.\<close>

definition is_dir_attrs :: "file_attrs \<Rightarrow> bool" where
  "is_dir_attrs a = ((case fa_permissions a of None \<Rightarrow> 0 | Some p \<Rightarrow> p) div 0x1000 mod 16 = 4)"

text \<open>The entries of one directory; \<open>sub\<close> is the walk of a subdirectory.\<close>

fun walk_entries ::
    "(string \<Rightarrow> string \<Rightarrow> tree_files \<Rightarrow> tree_files result) \<Rightarrow> string \<Rightarrow> string \<Rightarrow> (string \<times> file_attrs) list
      \<Rightarrow> tree_files \<Rightarrow> tree_files result" where
  "walk_entries sub dir_path rel_prefix [] files = Inr files"
| "walk_entries sub dir_path rel_prefix ((name, attrs) # entries) files =
     (if name = ''.'' \<or> name = ''..'' then walk_entries sub dir_path rel_prefix entries files
      else
        let rel = (if rel_prefix \<noteq> [] then posix_join rel_prefix name else name);
            full = posix_join dir_path name
        in case (if is_dir_attrs attrs then sub full rel files else Inr (dict_set rel attrs files)) of
             Inl e \<Rightarrow> Inl e
           | Inr files' \<Rightarrow> walk_entries sub dir_path rel_prefix entries files')"

fun walk_tree ::
    "'w file_env \<Rightarrow> nat \<Rightarrow> 'w \<Rightarrow> nat \<Rightarrow> string \<Rightarrow> string \<Rightarrow> tree_files \<Rightarrow> tree_files result" where
  "walk_tree env conn w 0 dir_path rel_prefix files = Inl PyRecursionError"
| "walk_tree env conn w (Suc depth) dir_path rel_prefix files =
     (case fe_readdir env conn dir_path w of
        Inl e \<Rightarrow> if is_file_error e then Inr files else Inl e
      | Inr entries \<Rightarrow> walk_entries (walk_tree env conn w depth) dir_path rel_prefix entries files)"

definition sftp_list_tree :: "'w file_env \<Rightarrow> nat \<Rightarrow> string \<Rightarrow> 'w \<Rightarrow> tree_files result" where
  "sftp_list_tree env conn base_path w =
     (case fe_isdir env conn base_path w of
        Inl e \<Rightarrow> if is_file_error e then
                   (case fe_stat env conn base_path w of
                      Inl e' \<Rightarrow> if is_file_error e' then Inr [] else Inl e'
                    | Inr attrs \<Rightarrow> Inr [(posix_basename base_path, attrs)])
                 else Inl e
      | Inr is_dir \<Rightarrow>
          if is_dir then walk_tree env conn w (fe_depth env) base_path [] []
          else
            (case fe_stat env conn base_path w of
               Inl e' \<Rightarrow> if is_file_error e' then Inr [] else Inl e'
             | Inr attrs \<Rightarrow> Inr [(posix_basename base_path, attrs)]))"

subsection \<open>\<open>ssh_sync\<close>\<close>

definition MTIME_TOLERANCE :: int where
  "MTIME_TOLERANCE = 2"

definition or_zero :: "int option \<Rightarrow> int" where
  "or_zero x = (case x of None \<Rightarrow> 0 | Some n \<Rightarrow> n)"

definition needs_copy :: "file_attrs \<Rightarrow> file_attrs option \<Rightarrow> bool" where
  "needs_copy src dst =
     (case dst of
        None \<Rightarrow> True
      | Some d \<Rightarrow>
          if or_zero (fa_size src) \<noteq> or_zero (fa_size d) then True
          else MTIME_TOLERANCE < \<bar>or_zero (fa_mtime src) - or_zero (fa_mtime d)\<bar>)"

text \<open>The loop over the source files; the result is what was copied and how many were skipped.\<close>

fun copy_files ::
    "'w file_env \<Rightarrow> nat \<Rightarrow> nat \<Rightarrow> string \<Rightarrow> string \<Rightarrow> bool \<Rightarrow> tree_files \<Rightarrow> tree_files \<Rightarrow> ('w, string list \<times> nat) file_op" where
  "copy_files env src_conn dst_conn base dst_path preserve dst_files [] s = (s, Inr ([], 0))"
| "copy_files env src_conn dst_conn base dst_path preserve dst_files ((rel_path, attrs) # files) s =
     (if \<not> needs_copy attrs (map_of dst_files rel_path) then
        bindR (copy_files env src_conn dst_conn base dst_path preserve dst_files files s)
          (\<lambda>(copied, skipped) s. (s, Inr (copied, Suc skipped)))
      else
        let src_full = (if base \<noteq> [] then posix_join base rel_path else rel_path);
            dst_full = posix_join dst_path rel_path
        in (case act (fe_mkdir env dst_conn (posix_dirname dst_full)) s of
              (s1, r) \<Rightarrow>
                if (case r of Inl e \<Rightarrow> \<not> is_file_error e | Inr _ \<Rightarrow> False) then (s1, Inl (projl r))
                else
                  bindR (act (fe_scp env (Some src_conn, src_full) (Some dst_conn, dst_full) False preserve) s1) (\<lambda>_ s.
                  bindR (copy_files env src_conn dst_conn base dst_path preserve dst_files files s)
                    (\<lambda>(copied, skipped) s. (s, Inr (rel_path # copied, skipped))))))"

text \<open>The loop over the destination files that the source does not have; a failing removal is only logged.\<close>

fun delete_files :: "'w file_env \<Rightarrow> nat \<Rightarrow> string \<Rightarrow> tree_files \<Rightarrow> string list \<Rightarrow> ('w, string list) file_op" where
  "delete_files env dst_conn dst_path src_files [] s = (s, Inr [])"
| "delete_files env dst_conn dst_path src_files (rel_path # rels) s =
     (if map_of src_files rel_path \<noteq> None then delete_files env dst_conn dst_path src_files rels s
      else
        (case act (fe_remove env dst_conn (posix_join dst_path rel_path)) s of
           (s1, Inl e) \<Rightarrow>
             if is_file_error e then delete_files env dst_conn dst_path src_files rels s1 else (s1, Inl e)
         | (s1, Inr _) \<Rightarrow>
             bindR (delete_files env dst_conn dst_path src_files rels s1) (\<lambda>deleted s. (s, Inr (rel_path # deleted)))))"

definition has_glob :: "string \<Rightarrow> bool" where
  "has_glob p \<longleftrightarrow> list_ex (\<lambda>c. c \<in> set p) ''*?[''"

text \<open>The trees of all matches of a glob, one dictionary over the other.\<close>

fun glob_files :: "'w file_env \<Rightarrow> nat \<Rightarrow> string list \<Rightarrow> 'w \<Rightarrow> tree_files \<Rightarrow> tree_files result" where
  "glob_files env conn [] w files = Inr files"
| "glob_files env conn (m # ms) w files =
     (case sftp_list_tree env conn m w of
        Inl e \<Rightarrow> Inl e
      | Inr sub \<Rightarrow> glob_files env conn ms w (dict_merge files sub))"

text \<open>The source: \<open>None\<close> when a glob matches nothing, else its files and the directory they are under.\<close>

definition sync_source :: "'w file_env \<Rightarrow> nat \<Rightarrow> string \<Rightarrow> 'w \<Rightarrow> (tree_files \<times> string) option result" where
  "sync_source env conn src_path w =
     (if has_glob src_path then
        (case fe_glob env conn src_path w of
           Inl e \<Rightarrow> Inl e
         | Inr [] \<Rightarrow> Inr None
         | Inr matched \<Rightarrow>
             map_sum id (\<lambda>files. Some (files, posix_dirname (rstrip_slash src_path))) (glob_files env conn matched w []))
      else map_sum id (\<lambda>files. Some (files, rstrip_slash src_path)) (sftp_list_tree env conn src_path w))"

definition sync_reply :: "string \<Rightarrow> string \<Rightarrow> string \<Rightarrow> string \<Rightarrow> string \<Rightarrow> string list \<Rightarrow> nat \<Rightarrow> string list \<Rightarrow> bool \<Rightarrow> reply" where
  "sync_reply src_server src_path dst_server dst_path method copied skipped deleted warning =
     [(''src_server'', JStr src_server), (''src_path'', JStr src_path), (''dst_server'', JStr dst_server),
      (''dst_path'', JStr dst_path), (''method'', JStr method), (''copied'', JStrs copied),
      (''skipped'', JInt (int skipped)), (''deleted'', JStrs deleted)]
     @ (if warning then [(''warning'', JStr ''no files matched'')] else [])"

definition sync_cross_server ::
    "'w file_env \<Rightarrow> string \<Rightarrow> string \<Rightarrow> string \<Rightarrow> string \<Rightarrow> bool \<Rightarrow> bool \<Rightarrow> ('w, reply) file_op" where
  "sync_cross_server env src_server src_path dst_server dst_path delete preserve s =
     bindR (act (fe_get env src_server) s) (\<lambda>src_conn s.
     bindR (act (fe_get env dst_server) s) (\<lambda>dst_conn s.
     bindR (ask (fe_sftp env src_conn) s) (\<lambda>_ s.
     bindR (ask (fe_sftp env dst_conn) s) (\<lambda>_ s.
     bindR (ask (sync_source env src_conn src_path) s) (\<lambda>source s.
       case source of
         None \<Rightarrow> (s, Inr (sync_reply src_server src_path dst_server dst_path ''sftp-diff'' [] 0 [] True))
       | Some (src_files, base) \<Rightarrow>
           bindR (ask (sftp_list_tree env dst_conn dst_path) s) (\<lambda>dst_files s.
           bindR (copy_files env src_conn dst_conn base dst_path preserve dst_files src_files s) (\<lambda>(copied, skipped) s.
           bindR (if delete then delete_files env dst_conn dst_path src_files (map fst dst_files) s else (s, Inr []))
             (\<lambda>deleted s.
               (file_log ''ssh_sync'' src_server ''ok''
                  [(''copied'', JInt (int (length copied))), (''skipped'', JInt (int skipped)),
                   (''deleted'', JInt (int (length deleted)))] s,
                Inr (sync_reply src_server src_path dst_server dst_path ''sftp-diff'' copied skipped deleted (src_files = [])))))))))))"

definition RSYNC_CHECK :: string where
  "RSYNC_CHECK = ''which rsync 2>/dev/null || true''"

definition rsync_cmd :: "bool \<Rightarrow> string \<Rightarrow> string \<Rightarrow> string" where
  "rsync_cmd delete src_path dst_path =
     ''rsync -az '' @ (if delete then ''--delete '' else []) @ shlex_quote src_path @ '' '' @ shlex_quote dst_path"

definition cp_update_cmd :: "string \<Rightarrow> string \<Rightarrow> string" where
  "cp_update_cmd src_path dst_path =
     ''cp -ru '' @ shlex_quote src_path @ '' '' @ shlex_quote dst_path @ '' 2>&1 || true''"

definition sync_same_server ::
    "'w file_env \<Rightarrow> string \<Rightarrow> string \<Rightarrow> string \<Rightarrow> bool \<Rightarrow> ('w, reply) file_op" where
  "sync_same_server env server src_path dst_path delete s =
     bindR (act (fe_get env server) s) (\<lambda>conn s.
     bindR (act (fe_run env conn RSYNC_CHECK) s) (\<lambda>(which, _, _) s.
       if strip which \<noteq> [] then
         bindR (act (fe_run env conn (rsync_cmd delete src_path dst_path)) s) (\<lambda>(out, err, status) s.
           if status \<noteq> Some 0 then (s, Inl PyOSError)
           else
             (file_log ''ssh_sync'' server ''ok''
                [(''method'', JStr ''rsync''), (''summary'', JStr (take 500 (strip out)))] s,
              Inr (sync_reply server src_path server dst_path ''rsync'' [] 0 [] False
                   @ [(''rsync_output'', JStr (strip out))])))
       else
         bindR (act (fe_run env conn (cp_update_cmd src_path dst_path)) s) (\<lambda>_ s.
           (file_log ''ssh_sync'' server ''ok'' [(''method'', JStr ''cp-u'')] s,
            Inr (sync_reply server src_path server dst_path ''cp-u'' [] 0 [] False)))))"

definition ssh_sync ::
    "'w file_env \<Rightarrow> registry \<Rightarrow> string \<Rightarrow> string \<Rightarrow> string \<Rightarrow> string \<Rightarrow> bool \<Rightarrow> bool
      \<Rightarrow> 'w file_state \<Rightarrow> 'w file_state \<times> reply" where
  "ssh_sync env reg src_server src_path dst_server dst_path delete preserve s =
     (case (reg_get reg src_server, reg_get reg dst_server) of
        (Inl _, _) \<Rightarrow> (s, not_registered src_server)
      | (Inr _, Inl _) \<Rightarrow> (s, not_registered dst_server)
      | (Inr _, Inr _) \<Rightarrow>
          let s1 = file_log ''ssh_sync'' src_server ''start''
                     [(''src_path'', JStr src_path), (''dst_server'', JStr dst_server),
                      (''dst_path'', JStr dst_path), (''delete'', JBool delete)] s
          in (case (if src_server = dst_server then sync_same_server env src_server src_path dst_path delete s1
                    else sync_cross_server env src_server src_path dst_server dst_path delete preserve s1) of
                (s2, Inl e) \<Rightarrow> transfer_failed env ''ssh_sync'' src_server e s2
              | (s2, Inr rep) \<Rightarrow> (s2, rep)))"

end
