(* ===== verification/File_Runs.thy ===== *)
theory File_Runs
  imports File_Tools
begin

section \<open>What the file tools guarantee\<close>

subsection \<open>The audit trail\<close>

text \<open>A call logs its start and then exactly one end, which agrees with the reply.\<close>

definition audited :: "'w file_state \<Rightarrow> 'w file_state \<times> reply \<Rightarrow> bool" where
  "audited s p \<longleftrightarrow> (\<exists>first last. al_lines (ft_audit (fst p)) = al_lines (ft_audit s) @ [first, last]
     \<and> ae_outcome first = ''start'' \<and> ae_outcome last = (if is_error (snd p) then ''error'' else ''ok''))"

lemma al_lines_file_log [simp]:
  "al_lines (ft_audit (file_log tool server outcome detail s))
     = al_lines (ft_audit s) @ [(AuditEvent tool outcome detail)\<lparr>ae_server := Some server\<rparr>]"
  by (simp add: file_log_def)

lemma ft_audit_act [simp]: "ft_audit (fst (act f s)) = ft_audit s"
  by (simp add: act_def split: prod.split)

lemma act_keeps: "act f s = (s', r) \<Longrightarrow> ft_audit s' = ft_audit s"
  using ft_audit_act [of f s] by simp

lemma act_pair: "act f s = (case f (ft_world s) of (w, r) \<Rightarrow> (s\<lparr>ft_world := w\<rparr>, r))"
  by (simp add: act_def)

lemma body_audit:
  assumes "ft_audit (fst p) = ft_audit (file_log tool server ''start'' d s)" and "\<not> is_error rep"
  shows "audited s (case p of (s2, Inl e) \<Rightarrow> transfer_failed env tool server e s2
                            | (s2, Inr _) \<Rightarrow> (file_log tool server ''ok'' detail s2, rep))"
proof (cases "snd p")
  case (Inl e)
  then have "p = (fst p, Inl e)" by (metis prod.collapse)
  then show ?thesis using assms by (auto simp: audited_def transfer_failed_def AuditEvent_def split: prod.splits)
next
  case (Inr u)
  then have "p = (fst p, Inr u)" by (metis prod.collapse)
  then show ?thesis using assms by (auto simp: audited_def AuditEvent_def split: prod.splits)
qed

lemma transfer_body_audit: "ft_audit (fst (transfer_body env a p b q rc pr s)) = ft_audit s"
  by (auto simp: transfer_body_def intro!: bindR_same [where f = ft_audit])

text \<open>C37: Every call of \<open>ssh_get\<close>, \<open>ssh_put\<close> and \<open>ssh_transfer\<close> on registered servers leaves exactly two
  events in the audit log, its start and its end, and the end says \<open>error\<close> exactly when the reply does,
  whatever the connection, the copy or the remote command answer.\<close>

theorem file_tools_audited:
  assumes "reg_get reg server = Inr cfg" and "reg_get reg dst_server = Inr dst_cfg"
  shows "audited s (ssh_get env reg server remote_path local_path recurse preserve s)
    \<and> audited s (ssh_put env reg server local_path remote_path recurse preserve s)
    \<and> audited s (ssh_transfer env reg server src_path dst_server dst_path recurse preserve s)"
proof (intro conjI)
  show "audited s (ssh_get env reg server remote_path local_path recurse preserve s)"
    unfolding ssh_get_def assms(1) Let_def sum.case
    by (rule body_audit) (auto simp: is_error_def intro!: bindR_same [where f = ft_audit])
  show "audited s (ssh_put env reg server local_path remote_path recurse preserve s)"
    unfolding ssh_put_def assms(1) Let_def sum.case
    by (rule body_audit) (auto simp: is_error_def intro!: bindR_same [where f = ft_audit])
  show "audited s (ssh_transfer env reg server src_path dst_server dst_path recurse preserve s)"
    unfolding ssh_transfer_def assms Let_def sum.case prod.case
    by (rule body_audit) (auto simp: is_error_def transfer_body_audit)
qed

subsection \<open>Listing a tree\<close>

text \<open>The tree a host really has under a path, and the world that shows it over SFTP.\<close>

datatype file_tree = File file_attrs | Dir file_attrs "(string \<times> file_tree) list"

fun tree_attrs :: "file_tree \<Rightarrow> file_attrs" where
  "tree_attrs (File a) = a"
| "tree_attrs (Dir a ts) = a"

fun tree_depth :: "file_tree \<Rightarrow> nat" where
  "tree_depth (File a) = 0"
| "tree_depth (Dir a ts) = Suc (foldr (\<lambda>t n. max (tree_depth (snd t)) n) ts 0)"

text \<open>A directory has the file type of a directory and its entries have distinct proper names.\<close>

definition entry_name :: "string \<Rightarrow> bool" where
  "entry_name n \<longleftrightarrow> n \<noteq> [] \<and> CHR ''/'' \<notin> set n \<and> n \<noteq> ''.'' \<and> n \<noteq> ''..''"

fun tree_ok :: "file_tree \<Rightarrow> bool" where
  "tree_ok (File a) \<longleftrightarrow> \<not> is_dir_attrs a"
| "tree_ok (Dir a ts) \<longleftrightarrow> is_dir_attrs a \<and> distinct (map fst ts) \<and> list_all entry_name (map fst ts)
     \<and> list_all (\<lambda>t. tree_ok (snd t)) ts"

fun served :: "'w file_env \<Rightarrow> nat \<Rightarrow> 'w \<Rightarrow> string \<Rightarrow> file_tree \<Rightarrow> bool" where
  "served env conn w p (File a) \<longleftrightarrow> True"
| "served env conn w p (Dir a ts) \<longleftrightarrow>
     fe_readdir env conn p w = Inr (map (\<lambda>t. (fst t, tree_attrs (snd t))) ts)
     \<and> list_all (\<lambda>t. served env conn w (posix_join p (fst t)) (snd t)) ts"

text \<open>The files of a tree with their relative paths, in the order of the entries.\<close>

definition rel_path :: "string \<Rightarrow> string \<Rightarrow> string" where
  "rel_path rel n = (if rel \<noteq> [] then rel @ ''/'' @ n else n)"

fun tree_list :: "string \<Rightarrow> file_tree \<Rightarrow> tree_files" where
  "tree_list rel (File a) = [(rel, a)]"
| "tree_list rel (Dir a ts) = concat (map (\<lambda>t. tree_list (rel_path rel (fst t)) (snd t)) ts)"


lemma dict_merge_simps [simp]:
  "dict_merge a [] = a" "dict_merge a ((k, v) # b) = dict_merge (dict_set k v a) b"
  "dict_merge a (b @ c) = dict_merge (dict_merge a b) c"
  by (simp_all add: dict_merge_def)

lemma join_rel:
  assumes "rel = [] \<or> last rel \<noteq> CHR ''/''" and "entry_name n"
  shows "(if rel \<noteq> [] then posix_join rel n else n) = rel_path rel n"
    and "rel_path rel n \<noteq> [] \<and> last (rel_path rel n) \<noteq> CHR ''/''"
proof -
  have "\<not> startswith n ''/''" using assms(2) by (cases n) (auto simp: entry_name_def)
  moreover have "last n \<noteq> CHR ''/''" using assms(2) by (cases n rule: rev_cases) (auto simp: entry_name_def)
  moreover have "n \<noteq> []" using assms(2) by (simp add: entry_name_def)
  ultimately show "(if rel \<noteq> [] then posix_join rel n else n) = rel_path rel n"
    "rel_path rel n \<noteq> [] \<and> last (rel_path rel n) \<noteq> CHR ''/''"
    using assms(1) by (auto simp: posix_join_def rel_path_def)
qed

lemma walk_entries_served:
  assumes "\<And>n a ts rel acc. (n, Dir a ts) \<in> set qs \<Longrightarrow> rel \<noteq> [] \<and> last rel \<noteq> CHR ''/'' \<Longrightarrow>
      sub (posix_join p n) rel acc = Inr (dict_merge acc (tree_list rel (Dir a ts)))"
    and "list_all entry_name (map fst qs)" and "list_all (\<lambda>t. tree_ok (snd t)) qs"
    and rel: "rel = [] \<or> last rel \<noteq> CHR ''/''"
  shows "walk_entries sub p rel (map (\<lambda>t. (fst t, tree_attrs (snd t))) qs) acc
    = Inr (dict_merge acc (concat (map (\<lambda>t. tree_list (rel_path rel (fst t)) (snd t)) qs)))"
  using assms(1-3)
proof (induction qs arbitrary: acc)
  case Nil
  then show ?case by simp
next
  case (Cons q qs)
  obtain n t where q: "q = (n, t)" by (rule prod.exhaust)
  have n: "entry_name n" "n \<noteq> ''.''" "n \<noteq> ''..''" using Cons.prems(2) q by (auto simp: entry_name_def)
  note j = join_rel [OF rel n(1)]
  have step: "(if is_dir_attrs (tree_attrs t) then sub (posix_join p n) (rel_path rel n) acc
      else Inr (dict_set (rel_path rel n) (tree_attrs t) acc)) = Inr (dict_merge acc (tree_list (rel_path rel n) t))"
  proof (cases t)
    case (File a)
    then show ?thesis using Cons.prems(3) q by simp
  next
    case (Dir a ts)
    then show ?thesis using Cons.prems(1) [of n a ts "rel_path rel n" acc] Cons.prems(3) q j(2) by simp
  qed
  have "walk_entries sub p rel (map (\<lambda>t. (fst t, tree_attrs (snd t))) qs) acc'
    = Inr (dict_merge acc' (concat (map (\<lambda>t. tree_list (rel_path rel (fst t)) (snd t)) qs)))" for acc'
  proof (rule Cons.IH)
    fix n a ts rel acc assume "(n, Dir a ts) \<in> set qs" "rel \<noteq> [] \<and> last rel \<noteq> CHR ''/''"
    then show "sub (posix_join p n) rel acc = Inr (dict_merge acc (tree_list rel (Dir a ts)))"
      by (intro Cons.prems(1)) auto
  qed (use Cons.prems in auto)
  then show ?case using n step by (simp add: q j(1) Let_def)
qed

lemma tree_depth_entry: "(n, t) \<in> set ts \<Longrightarrow> tree_depth t < tree_depth (Dir a ts)"
proof -
  have "t \<in> snd ` set ts \<Longrightarrow> tree_depth t \<le> foldr (\<lambda>t n. max (tree_depth (snd t)) n) ts 0"
    by (induction ts) (force simp: le_max_iff_disj)+
  then show "(n, t) \<in> set ts \<Longrightarrow> tree_depth t < tree_depth (Dir a ts)" by force
qed

lemma subtree_served:
  assumes "served env conn w p (Dir a ts)" and "tree_ok (Dir a ts)" and "(n, t) \<in> set ts"
  shows "served env conn w (posix_join p n) t \<and> tree_ok t"
proof -
  have "list_all (\<lambda>t. served env conn w (posix_join p (fst t)) (snd t)) ts" "list_all (\<lambda>t. tree_ok (snd t)) ts"
    using assms(1,2) by simp_all
  then show ?thesis using assms(3) unfolding list_all_iff by force
qed

lemma walk_served:
  "served env conn w p (Dir a ts) \<Longrightarrow> tree_ok (Dir a ts) \<Longrightarrow> tree_depth (Dir a ts) \<le> depth \<Longrightarrow>
     rel = [] \<or> last rel \<noteq> CHR ''/'' \<Longrightarrow>
     walk_tree env conn w depth p rel acc = Inr (dict_merge acc (tree_list rel (Dir a ts)))"
proof (induction depth arbitrary: p rel a ts acc)
  case 0
  then show ?case by simp
next
  case (Suc depth)
  have "walk_tree env conn w depth (posix_join p n) rel' acc' = Inr (dict_merge acc' (tree_list rel' (Dir b us)))"
    if u: "(n, Dir b us) \<in> set ts" and r: "rel' \<noteq> [] \<and> last rel' \<noteq> CHR ''/''" for n b us rel' acc'
  proof (rule Suc.IH)
    show "served env conn w (posix_join p n) (Dir b us)" "tree_ok (Dir b us)"
      using subtree_served [OF Suc.prems(1,2) u] by blast+
    show "tree_depth (Dir b us) \<le> depth" using tree_depth_entry [OF u, of a] Suc.prems(3) by simp
    show "rel' = [] \<or> last rel' \<noteq> CHR ''/''" using r by simp
  qed
  then show ?case using Suc.prems by (simp add: walk_entries_served)
qed


definition under :: "string \<Rightarrow> string \<Rightarrow> bool" where
  "under r k \<longleftrightarrow> k = r \<or> prefix (r @ ''/'') k"

lemma tree_list_under:
  "tree_ok t \<Longrightarrow> rel \<noteq> [] \<Longrightarrow> k \<in> fst ` set (tree_list rel t) \<Longrightarrow> under rel k"
proof (induction rel t rule: tree_list.induct)
  case (1 rel a)
  then show ?case by (simp add: under_def)
next
  case (2 rel a ts)
  from "2.prems"(3) obtain x where x: "x \<in> set ts" "k \<in> fst ` set (tree_list (rel_path rel (fst x)) (snd x))" by auto
  have ok: "tree_ok (snd x)" using "2.prems"(1) x(1) by (auto simp: list_all_iff)
  have ne: "rel_path rel (fst x) \<noteq> []" using "2.prems"(2) by (simp add: rel_path_def)
  have "under (rel_path rel (fst x)) k" by (rule "2.IH" [OF x(1) ok ne x(2)])
  then show ?case using "2.prems"(2) by (auto simp: under_def rel_path_def prefix_def)
qed

lemma under_name:
  assumes "under (rel_path rel n) k" and "CHR ''/'' \<notin> set n"
  shows "takeWhile (\<lambda>c. c \<noteq> CHR ''/'') (drop (if rel = [] then 0 else length rel + 1) k) = n"
proof -
  let ?pre = "if rel = [] then [] else rel @ ''/''"
  have r: "rel_path rel n = ?pre @ n" by (simp add: rel_path_def)
  obtain x where k: "k = ?pre @ n @ x" and x: "x = [] \<or> hd x = CHR ''/''"
    using assms(1) unfolding under_def r prefix_def by auto
  have len: "(if rel = [] then 0 else length rel + 1) = length ?pre" by simp
  have "drop (length ?pre) k = n @ x" unfolding k by (rule append_eq_conv_conj [THEN iffD1, THEN conjunct2, symmetric]) simp
  moreover have "takeWhile (\<lambda>c. c \<noteq> CHR ''/'') (n @ x) = n"
  proof -
    have "\<And>c. c \<in> set n \<Longrightarrow> c \<noteq> CHR ''/''" using assms(2) by auto
    then have "takeWhile (\<lambda>c. c \<noteq> CHR ''/'') (n @ x) = n @ takeWhile (\<lambda>c. c \<noteq> CHR ''/'') x"
      by (rule takeWhile_append2)
    then show ?thesis using x by (cases x) auto
  qed
  ultimately show ?thesis unfolding len by simp
qed

lemma tree_list_distinct: "tree_ok t \<Longrightarrow> distinct (map fst (tree_list rel t))"
proof (induction rel t rule: tree_list.induct)
  case (1 rel a)
  then show ?case by simp
next
  case (2 rel a ts)
  let ?f = "\<lambda>x. tree_list (rel_path rel (fst x)) (snd x)"
  have "distinct (map fst (concat (map ?f xs)))"
    if "set xs \<subseteq> set ts" "distinct (map fst xs)" for xs
    using that
  proof (induction xs)
    case Nil
    then show ?case by simp
  next
    case (Cons x xs)
    have name: "tree_ok (snd y)" "entry_name (fst y)" if "y \<in> set (x # xs)" for y
      using "2.prems" Cons.prems(1) that by (auto simp: list_all_iff)
    have key: "takeWhile (\<lambda>c. c \<noteq> CHR ''/'') (drop (if rel = [] then 0 else length rel + 1) k) = fst y"
      if "y \<in> set (x # xs)" "k \<in> fst ` set (?f y)" for y k
    proof (rule under_name)
      have "rel_path rel (fst y) \<noteq> []" using name(2) [OF that(1)] by (auto simp: rel_path_def entry_name_def)
      then show "under (rel_path rel (fst y)) k" by (rule tree_list_under [OF name(1) [OF that(1)] _ that(2)])
      show "CHR ''/'' \<notin> set (fst y)" using name(2) [OF that(1)] by (simp add: entry_name_def)
    qed
    have "fst ` set (?f x) \<inter> fst ` set (concat (map ?f xs)) = {}"
    proof (rule ccontr)
      assume "\<not> ?thesis"
      then obtain k y where k: "k \<in> fst ` set (?f x)" "y \<in> set xs" "k \<in> fst ` set (?f y)" by auto
      have "fst x = fst y" using key [of x k] key [of y k] k by simp
      then show False using Cons.prems(2) k(2) by auto
    qed
    moreover have "distinct (map fst (?f x))"
      using "2.IH" [of x] Cons.prems(1) name(1) [of x] by simp
    moreover have "distinct (map fst (concat (map ?f xs)))" using Cons.IH Cons.prems by simp
    ultimately show ?case by simp
  qed
  then show ?case using "2.prems" by simp
qed

lemma dict_merge_distinct: "distinct (map fst (a @ b)) \<Longrightarrow> dict_merge a b = a @ b"
proof (induction b arbitrary: a)
  case Nil
  then show ?case by simp
next
  case (Cons p b)
  obtain k v where p: "p = (k, v)" by (rule prod.exhaust)
  have "map_of a k = None" using Cons.prems by (auto simp: p map_of_eq_None_iff)
  then show ?case using Cons.IH [of "a @ [p]"] Cons.prems by (simp add: p dict_set_fresh)
qed


subsection \<open>Synchronising\<close>

lemma copy_files_result:
  "copy_files env c1 c2 base dst_path preserve dst_files files s = (s', Inr (copied, skipped)) \<Longrightarrow>
     copied = map fst (filter (\<lambda>(n, a). needs_copy a (map_of dst_files n)) files)
     \<and> skipped = length (filter (\<lambda>(n, a). \<not> needs_copy a (map_of dst_files n)) files)"
proof (induction files arbitrary: s copied skipped)
  case Nil
  then show ?case by simp
next
  case (Cons f files)
  obtain n a where f: "f = (n, a)" by (rule prod.exhaust)
  show ?case using Cons.prems Cons.IH unfolding f
    by (fastforce simp: Let_def elim!: bindR_InrE split: if_splits prod.splits)
qed

lemma delete_files_result:
  "delete_files env c dst_path src_files rels s = (s', Inr deleted) \<Longrightarrow>
     set deleted \<subseteq> set rels \<and> (\<forall>n \<in> set deleted. map_of src_files n = None)"
proof (induction rels arbitrary: s deleted)
  case Nil
  then show ?case by simp
next
  case (Cons n rels)
  show ?case using Cons.prems Cons.IH
    by (fastforce elim!: bindR_InrE split: if_splits prod.splits sum.splits)
qed

lemma delete_files_all:
  "(\<And>p w. \<exists>w'. fe_remove env c p w = (w', Inr ())) \<Longrightarrow> list_all (\<lambda>n. map_of src_files n = None) rels \<Longrightarrow>
     \<exists>s'. delete_files env c dst_path src_files rels s = (s', Inr rels)"
proof (induction rels arbitrary: s)
  case Nil
  then show ?case by simp
next
  case (Cons n rels)
  obtain w' where w: "fe_remove env c (posix_join dst_path n) (ft_world s) = (w', Inr ())" using Cons.prems(1) by blast
  obtain s' where "delete_files env c dst_path src_files rels (s\<lparr>ft_world := w'\<rparr>) = (s', Inr rels)"
    using Cons.IH [of "s\<lparr>ft_world := w'\<rparr>"] Cons.prems by auto
  then show ?case using Cons.prems(2) w by (simp add: act_def)
qed

text \<open>The two connections, and what the two listings give.\<close>

definition sync_sees ::
    "'w file_env \<Rightarrow> string \<Rightarrow> string \<Rightarrow> string \<Rightarrow> string \<Rightarrow> 'w file_state \<Rightarrow> nat \<times> nat \<times> 'w \<Rightarrow> tree_files \<Rightarrow> string
      \<Rightarrow> tree_files \<Rightarrow> bool" where
  "sync_sees env src_server src_path dst_server dst_path s conns src_files base dst_files \<longleftrightarrow>
     (case conns of (c1, c2, w2) \<Rightarrow>
        (\<exists>w1. fe_get env src_server (ft_world s) = (w1, Inr c1) \<and> fe_get env dst_server w1 = (w2, Inr c2))
        \<and> fe_sftp env c1 w2 = Inr () \<and> fe_sftp env c2 w2 = Inr ()
        \<and> sync_source env c1 src_path w2 = Inr (Some (src_files, base))
        \<and> sftp_list_tree env c2 dst_path w2 = Inr dst_files)"

lemma sync_unfold:
  assumes "sync_sees env ss sp ds dp s (c1, c2, w2) src base dst"
  shows "sync_cross_server env ss sp ds dp delete preserve s =
    bindR (copy_files env c1 c2 base dp preserve dst src (s\<lparr>ft_world := w2\<rparr>)) (\<lambda>(copied, skipped) s.
    bindR (if delete then delete_files env c2 dp src (map fst dst) s else (s, Inr [])) (\<lambda>deleted s.
      (file_log ''ssh_sync'' ss ''ok''
         [(''copied'', JInt (int (length copied))), (''skipped'', JInt (int skipped)),
          (''deleted'', JInt (int (length deleted)))] s,
       Inr (sync_reply ss sp ds dp ''sftp-diff'' copied skipped deleted (src = [])))))"
proof -
  obtain w1 where "fe_get env ss (ft_world s) = (w1, Inr c1)" "fe_get env ds w1 = (w2, Inr c2)"
    "fe_sftp env c1 w2 = Inr ()" "fe_sftp env c2 w2 = Inr ()"
    "sync_source env c1 sp w2 = Inr (Some (src, base))" "sftp_list_tree env c2 dp w2 = Inr dst"
    using assms by (auto simp: sync_sees_def)
  then show ?thesis by (simp add: sync_cross_server_def act_def ask_def)
qed



text \<open>
  An error while the source is listed counts as an empty source: when the source directory cannot be
  read, a sync that may delete removes every file of the destination and reports success.
\<close>

lemma sync_unreadable_source_deletes:
  assumes "fe_get env ss (ft_world s) = (w1, Inr c1)" and "fe_get env ds w1 = (w2, Inr c2)"
    and "fe_sftp env c1 w2 = Inr ()" and "fe_sftp env c2 w2 = Inr ()" and "\<not> has_glob sp"
    and "fe_isdir env c1 sp w2 = Inr True" and "fe_readdir env c1 sp w2 = Inl AsyncsshSFTPError" and "fe_depth env \<noteq> 0"
    and "sftp_list_tree env c2 dp w2 = Inr dst" and "\<And>p w. \<exists>w'. fe_remove env c2 p w = (w', Inr ())"
  shows "\<exists>s'. sync_cross_server env ss sp ds dp True preserve s
    = (s', Inr (sync_reply ss sp ds dp ''sftp-diff'' [] 0 (map fst dst) True))"
proof -
  obtain depth where "fe_depth env = Suc depth" using assms(8) by (cases "fe_depth env") auto
  then have "sftp_list_tree env c1 sp w2 = Inr []" using assms(6,7) by (simp add: sftp_list_tree_def is_file_error_def)
  then have "sync_sees env ss sp ds dp s (c1, c2, w2) [] (rstrip_slash sp) dst"
    using assms(1-5,9) by (auto simp: sync_sees_def sync_source_def)
  note u = sync_unfold [OF this, of True preserve]
  have "\<exists>s1. delete_files env c2 dp [] (map fst dst) (s\<lparr>ft_world := w2\<rparr>) = (s1, Inr (map fst dst))"
    by (rule delete_files_all) (simp_all add: assms(10) list_all_iff)
  then show ?thesis unfolding u by auto
qed

lemma basename_ends:
  assumes "posix_basename p \<noteq> []"
  obtains q c where "p = q @ [c]" "c \<noteq> CHR ''/''"
  using assms by (cases p rule: rev_cases) (auto simp: posix_basename_def split: if_splits)

lemma basename_rstrip: "posix_basename p \<noteq> [] \<Longrightarrow> rstrip_slash p = p"
  by (erule basename_ends) (simp add: rstrip_slash_def)

lemma single_file_path:
  assumes "posix_basename p \<noteq> []"
  shows "posix_join (rstrip_slash p) (posix_basename p) = p @ ''/'' @ posix_basename p"
proof -
  note strip = basename_rstrip [OF assms]
  obtain q c where p: "p = q @ [c]" "c \<noteq> CHR ''/''" by (rule basename_ends [OF assms])
  have "CHR ''/'' \<notin> set (posix_basename p)" by (auto simp: posix_basename_def dest: set_takeWhileD)
  then have "\<not> startswith (posix_basename p) ''/''" by (cases "posix_basename p") auto
  then show ?thesis unfolding strip using p by (simp add: posix_join_def)
qed

text \<open>
  A single file cannot be synced to another server: the file is listed under its base name, but the name
  is joined to the path of the file itself, so that the copy asks for \<open>path/name\<close>, which does not exist.
\<close>

lemma sync_single_file_fails:
  assumes "fe_get env ss (ft_world s) = (w1, Inr c1)" and "fe_get env ds w1 = (w2, Inr c2)"
    and "fe_sftp env c1 w2 = Inr ()" and "fe_sftp env c2 w2 = Inr ()" and "\<not> has_glob sp" and "posix_basename sp \<noteq> []"
    and "fe_isdir env c1 sp w2 = Inr False" and "fe_stat env c1 sp w2 = Inr attrs"
    and "sftp_list_tree env c2 dp w2 = Inr []" and "\<And>p w. \<exists>w'. fe_mkdir env c2 p w = (w', Inr ())"
    and "\<And>p q rc pr w. p \<noteq> sp \<Longrightarrow> snd (fe_scp env (Some c1, p) q rc pr w) = Inl AsyncsshSFTPError"
  shows "snd (sync_cross_server env ss sp ds dp delete preserve s) = Inl AsyncsshSFTPError"
proof -
  have "sync_sees env ss sp ds dp s (c1, c2, w2) [(posix_basename sp, attrs)] (rstrip_slash sp) []"
    using assms(1-5,7-9) by (auto simp: sync_sees_def sync_source_def sftp_list_tree_def)
  note u = sync_unfold [OF this, of delete preserve]
  have base: "rstrip_slash sp \<noteq> []"
    using basename_rstrip [OF assms(6)] assms(6) by (auto simp: posix_basename_def)
  have bad: "snd (fe_scp env (Some c1, sp @ ''/'' @ posix_basename sp) q rc pr w) = Inl AsyncsshSFTPError" for q rc pr w
    by (rule assms(11)) simp
  obtain w3 where mk: "fe_mkdir env c2 (posix_dirname (posix_join dp (posix_basename sp))) w2 = (w3, Inr ())"
    using assms(10) by blast
  obtain w4 where scp: "fe_scp env (Some c1, sp @ ''/'' @ posix_basename sp) (Some c2, posix_join dp (posix_basename sp))
      False preserve w3 = (w4, Inl AsyncsshSFTPError)"
    by (metis bad prod.collapse)
  have "copy_files env c1 c2 (rstrip_slash sp) dp preserve [] [(posix_basename sp, attrs)] (s\<lparr>ft_world := w2\<rparr>)
      = (s\<lparr>ft_world := w4\<rparr>, Inl AsyncsshSFTPError)"
    using base mk scp by (simp add: needs_copy_def Let_def act_def single_file_path [OF assms(6)])
  then show ?thesis unfolding u by simp
qed

text \<open>
  The names a host lists are joined to the destination path as they are: a host that lists an absolute
  name decides itself where on the other host the sync writes.
\<close>

lemma absolute_name_escapes:
  assumes "fe_isdir env c p w = Inr True" and "fe_readdir env c p w = Inr [(n, a)]" and "startswith n ''/''"
    and "\<not> is_dir_attrs a" and "fe_depth env \<noteq> 0"
  shows "sftp_list_tree env c p w = Inr [(n, a)] \<and> posix_join dst_path n = n"
proof -
  obtain depth where "fe_depth env = Suc depth" using assms(5) by (cases "fe_depth env") auto
  moreover have "n \<noteq> ''.''" "n \<noteq> ''..''" using assms(3) by (auto simp: startswith_def)
  ultimately show ?thesis using assms by (simp add: sftp_list_tree_def posix_join_def dict_set_def)
qed

subsection \<open>A world of flat directories\<close>

text \<open>Hosts 1 and 2 with their files; a directory is what has files directly below it.\<close>

type_synonym flat_world = "(nat \<times> string \<times> file_attrs) list"

definition flat_children :: "nat \<Rightarrow> string \<Rightarrow> flat_world \<Rightarrow> (string \<times> file_attrs) list" where
  "flat_children c p w = map (\<lambda>(c', q, a). (drop (length p + 1) q, a))
     (filter (\<lambda>(c', q, a). c' = c \<and> startswith q (p @ ''/'') \<and> CHR ''/'' \<notin> set (drop (length p + 1) q)) w)"

definition flat_stat :: "nat \<Rightarrow> string \<Rightarrow> flat_world \<Rightarrow> file_attrs result" where
  "flat_stat c p w = (case find (\<lambda>(c', q, a). c' = c \<and> q = p) w of None \<Rightarrow> Inl AsyncsshSFTPError | Some (c', q, a) \<Rightarrow> Inr a)"

definition flat_env :: "flat_world file_env" where
  "flat_env =
     \<lparr>fe_get = \<lambda>server w. (w, if server = ''a'' then Inr 1 else if server = ''b'' then Inr 2 else Inl SshConnectionError),
      fe_run = \<lambda>c cmd w. (w, Inr ([], [], Some 0)),
      fe_scp = \<lambda>src dst rc pr w.
        (case (fst src, fst dst) of
           (Some c1, Some c2) \<Rightarrow>
             (case flat_stat c1 (snd src) w of
                Inl e \<Rightarrow> (w, Inl e)
              | Inr a \<Rightarrow> (filter (\<lambda>(c, q, a). \<not> (c = c2 \<and> q = snd dst)) w @ [(c2, snd dst, a)], Inr ()))
         | _ \<Rightarrow> (w, Inr ())),
      fe_sftp = \<lambda>c w. Inr (), fe_readdir = \<lambda>c p w. Inr (flat_children c p w),
      fe_isdir = \<lambda>c p w. Inr (flat_children c p w \<noteq> []), fe_stat = flat_stat,
      fe_glob = \<lambda>c p w. Inr [], fe_mkdir = \<lambda>c p w. (w, Inr ()),
      fe_remove = \<lambda>c p w. (filter (\<lambda>(c', q, a). \<not> (c' = c \<and> q = p)) w, Inr ()),
      fe_depth = 1, fe_expanduser = \<lambda>p. p, fe_str = \<lambda>e. []\<rparr>"

lemma flat_acts:
  "fe_mkdir flat_env c p w = (w, Inr ())"
  "fe_remove flat_env c p w = (filter (\<lambda>(c', q, a). \<not> (c' = c \<and> q = p)) w, Inr ())"
  "fe_scp flat_env (Some c1, p) (Some c2, q) rc pr w =
     (case flat_stat c1 p w of
        Inl e \<Rightarrow> (w, Inl e)
      | Inr a \<Rightarrow> (filter (\<lambda>(c, q', a). \<not> (c = c2 \<and> q' = q)) w @ [(c2, q, a)], Inr ()))"
  by (simp_all add: flat_env_def split: sum.split)

definition flat_attrs :: "int \<Rightarrow> int \<Rightarrow> file_attrs" where
  "flat_attrs n t = \<lparr>fa_size = Some n, fa_mtime = Some t, fa_permissions = None\<rparr>"

definition flat_state :: "flat_world file_state" where
  "flat_state = \<lparr>ft_world =
      [(1, ''/d/n'', flat_attrs 3 100), (1, ''/d/s'', flat_attrs 4 101), (1, ''/d/c'', flat_attrs 5 102),
       (2, ''/e/s'', flat_attrs 4 100), (2, ''/e/c'', flat_attrs 6 102), (2, ''/e/o'', flat_attrs 7 90)],
     ft_audit = AuditLog_init False True []\<rparr>"

definition flat_src :: tree_files where
  "flat_src = [(''n'', flat_attrs 3 100), (''s'', flat_attrs 4 101), (''c'', flat_attrs 5 102)]"

definition flat_dst :: tree_files where
  "flat_dst = [(''s'', flat_attrs 4 100), (''c'', flat_attrs 6 102), (''o'', flat_attrs 7 90)]"

lemma flat_sees: "sync_sees flat_env ''a'' ''/d'' ''b'' ''/e'' flat_state (1, 2, ft_world flat_state) flat_src ''/d'' flat_dst"
proof -
  have "sftp_list_tree flat_env 1 ''/d'' (ft_world flat_state) = Inr flat_src"
    by (simp add: sftp_list_tree_def flat_env_def flat_state_def flat_children_def startswith_def
        flat_attrs_def is_dir_attrs_def posix_join_def flat_src_def dict_set_def)
  moreover have "sftp_list_tree flat_env 2 ''/e'' (ft_world flat_state) = Inr flat_dst"
    by (simp add: sftp_list_tree_def flat_env_def flat_state_def flat_children_def startswith_def
        flat_attrs_def is_dir_attrs_def posix_join_def flat_dst_def dict_set_def)
  ultimately show ?thesis
    by (simp add: sync_sees_def sync_source_def has_glob_def rstrip_slash_def) (simp add: flat_env_def)
qed

lemma file_tools_audited_witness:
  "audited flat_state (ssh_get flat_env synced_registry ''a'' ''/d/n'' ''/tmp/n'' False False flat_state)
   \<and> audited flat_state (ssh_put flat_env synced_registry ''a'' ''/tmp/n'' ''/d/n'' False False flat_state)
   \<and> audited flat_state (ssh_transfer flat_env synced_registry ''a'' ''/d/n'' ''b'' ''/e/n'' False False flat_state)"
proof -
  have "\<not> isl (reg_get synced_registry ''a'')" "\<not> isl (reg_get synced_registry ''b'')" by code_simp+
  then obtain cfg dst_cfg where "reg_get synced_registry ''a'' = Inr cfg" "reg_get synced_registry ''b'' = Inr dst_cfg"
    by (metis sum.collapse(2))
  then show ?thesis by (rule file_tools_audited)
qed

text \<open>A directory with a file and a subdirectory.\<close>

definition dir_attrs :: file_attrs where
  "dir_attrs = \<lparr>fa_size = None, fa_mtime = None, fa_permissions = Some 0x41ED\<rparr>"

definition nested_tree :: file_tree where
  "nested_tree = Dir dir_attrs [(''f'', File (flat_attrs 1 1)), (''s'', Dir dir_attrs [(''g'', File (flat_attrs 2 2))])]"

definition nested_env :: "flat_world file_env" where
  "nested_env = flat_env\<lparr>fe_depth := 2, fe_isdir := \<lambda>c p w. Inr True,
     fe_readdir := \<lambda>c p w. Inr (if p = ''/d'' then [(''f'', flat_attrs 1 1), (''s'', dir_attrs)] else [(''g'', flat_attrs 2 2)])\<rparr>"



end
