(* ===== verification/Jump.thy ===== *)
theory Jump
  imports Registry Audit_Log
begin

section \<open>Jump chains (\<open>_hop_name\<close>, \<open>_parse_hop\<close>, \<open>_build_chain\<close>, \<open>teardown_jump\<close>)\<close>

text \<open>
  The part of \<open>tools/registry_tools.py\<close> that builds and removes jump chains in the registry.
  A chain of \<open>n\<close> elements becomes \<open>n\<close> server entries, each tunnelling through the one before;
  the last is filed under the user's alias. The loop that registers the hops takes the add/remove
  pair as a parameter, as the code does, and its lemmas are proved in \<open>server_table\<close>.
\<close>

subsection \<open>\<open>repr\<close> of a string\<close>

definition hex_digit :: "nat \<Rightarrow> char" where
  "hex_digit n = (if n < 10 then char_of (48 + n) else char_of (87 + n))"

definition repr_char :: "char \<Rightarrow> char \<Rightarrow> string" where
  "repr_char q c =
     (if c = q \<or> code c = 92 then [CHR 0x5C, c]
      else if code c = 9 then [CHR 0x5C, CHR ''t'']
      else if code c = 10 then [CHR 0x5C, CHR ''n'']
      else if code c = 13 then [CHR 0x5C, CHR ''r'']
      else if 32 \<le> code c \<and> code c \<le> 126 \<or> 161 \<le> code c \<and> code c \<noteq> 173 then [c]
      else [CHR 0x5C, CHR ''x'', hex_digit (code c div 16), hex_digit (code c mod 16)])"

definition py_repr :: "string \<Rightarrow> string" where
  "py_repr s =
     (let q = (if CHR 0x27 \<in> set s \<and> CHR 0x22 \<notin> set s then CHR 0x22 else CHR 0x27)
      in [q] @ concat (map (repr_char q) s) @ [q])"

subsection \<open>Operations\<close>

definition hop_name :: "string \<Rightarrow> nat \<Rightarrow> nat \<Rightarrow> string" where
  "hop_name alias index hops_n =
     (if Suc index = hops_n then alias else ''_'' @ alias @ ''_hop'' @ show_nat index)"

definition parse_hop :: "string \<Rightarrow> (string \<times> string option \<times> int option) result" where
  "parse_hop element =
     (let (server_part, _, addr0) = partition_at (CHR ''@'') element;
          server_name = strip server_part;
          addr = strip addr0
      in if addr = [] then Inr (server_name, None, None)
         else
           (let (host_str, sep, port_str) = rpartition_at (CHR '':'') addr
            in if sep \<and> str_isdigit port_str then
                 (case py_int port_str of
                    None \<Rightarrow> Inl PyValueError
                  | Some p \<Rightarrow> Inr (server_name, Some (strip host_str), Some p))
               else Inr (server_name, Some addr, None)))"

text \<open>\<open>x or d\<close> for an optional string and an optional integer: empty and zero are false.\<close>

definition or_str :: "string option \<Rightarrow> string \<Rightarrow> string" where
  "or_str x d = (case x of None \<Rightarrow> d | Some s \<Rightarrow> if s = [] then d else s)"

definition or_int :: "int option \<Rightarrow> int \<Rightarrow> int" where
  "or_int x d = (case x of None \<Rightarrow> d | Some i \<Rightarrow> if i = 0 then d else i)"

definition hop_note :: "string \<Rightarrow> string option \<Rightarrow> nat \<Rightarrow> nat \<Rightarrow> string \<Rightarrow> string" where
  "hop_note name note i hops_n server_name =
     (case note of
        Some (c # cs) \<Rightarrow>
          if Suc i = hops_n then c # cs
          else ''jump chain '' @ py_repr name @ '' hop '' @ show_nat i @ '' via '' @ server_name
      | _ \<Rightarrow> ''jump chain '' @ py_repr name @ '' hop '' @ show_nat i @ '' via '' @ server_name)"

definition make_hop ::
    "string \<Rightarrow> string option \<Rightarrow> nat \<Rightarrow> nat \<Rightarrow> string option \<Rightarrow> string \<Rightarrow> string option \<Rightarrow> int option
      \<Rightarrow> server_config \<Rightarrow> server_config" where
  "make_hop name note hops_n i prev_name server_name host_override port_override base =
     base\<lparr>sc_name := hop_name name i hops_n,
          sc_host := or_str host_override (sc_host base),
          sc_port := or_int port_override (sc_port base),
          sc_jump_host := prev_name,
          sc_note := Some (hop_note name note i hops_n server_name)\<rparr>"

text \<open>
  The first loop of \<open>_build_chain\<close>. \<open>Inr (Inl s)\<close> is the early return for the unregistered
  server \<open>s\<close>; otherwise the hops, each with the registered server's name and host.
\<close>

fun build_hops ::
    "registry \<Rightarrow> string \<Rightarrow> string option \<Rightarrow> nat \<Rightarrow> nat \<Rightarrow> string option \<Rightarrow> string list
      \<Rightarrow> (string + (server_config \<times> string \<times> string) list) result" where
  "build_hops r name note hops_n i prev_name [] = Inr (Inr [])"
| "build_hops r name note hops_n i prev_name (element # chain) =
     (case parse_hop element of
        Inl e \<Rightarrow> Inl e
      | Inr (server_name, host_override, port_override) \<Rightarrow>
          (case reg_get r server_name of
             Inl _ \<Rightarrow> Inr (Inl server_name)
           | Inr base \<Rightarrow>
               let hop = make_hop name note hops_n i prev_name server_name host_override
                           port_override base
               in (case build_hops r name note hops_n (Suc i) (Some (hop_name name i hops_n)) chain of
                     Inr (Inr hops) \<Rightarrow> Inr (Inr ((hop, server_name, sc_host base) # hops))
                   | other \<Rightarrow> other)))"

text \<open>\<open>for done in reversed(added): with suppress(McpSshError): remove(done)\<close>.\<close>

fun remove_suppressed ::
    "(string \<Rightarrow> 'r \<Rightarrow> 'r \<times> unit result) \<Rightarrow> string list \<Rightarrow> 'r \<Rightarrow> 'r \<times> unit result" where
  "remove_suppressed remove [] r = (r, Inr ())"
| "remove_suppressed remove (n # ns) r =
     (case remove n r of
        (r', Inl e) \<Rightarrow> if is_McpSshError e then remove_suppressed remove ns r' else (r', Inl e)
      | (r', Inr _) \<Rightarrow> remove_suppressed remove ns r')"

text \<open>The registration loop: the name whose \<open>add\<close> failed, after the rollback, or \<open>None\<close>.\<close>

fun add_hops ::
    "(server_config \<Rightarrow> 'r \<Rightarrow> 'r \<times> unit result) \<Rightarrow> (string \<Rightarrow> 'r \<Rightarrow> 'r \<times> unit result)
      \<Rightarrow> server_config list \<Rightarrow> string list \<Rightarrow> 'r \<Rightarrow> 'r \<times> string option result" where
  "add_hops add remove [] added r = (r, Inr None)"
| "add_hops add remove (cfg # cfgs) added r =
     (case add cfg r of
        (r', Inr _) \<Rightarrow> add_hops add remove cfgs (added @ [sc_name cfg]) r'
      | (r', Inl e) \<Rightarrow>
          if is_McpSshError e then
            (case remove_suppressed remove (rev added) r' of
               (r'', Inr _) \<Rightarrow> (r'', Inr (Some (sc_name cfg)))
             | (r'', Inl e') \<Rightarrow> (r'', Inl e'))
          else (r', Inl e))"

definition hop_target :: "server_config \<Rightarrow> string" where
  "hop_target h = sc_user h @ ''@'' @ sc_host h @ '':'' @ show_int (sc_port h)"

definition hop_summary :: "server_config \<times> string \<times> string \<Rightarrow> json" where
  "hop_summary x =
     (case x of (h, server_name, registered_host) \<Rightarrow>
        JObj [(''name'', JStr (sc_name h)), (''node'', JStr server_name),
              (''target'', JStr (hop_target h)), (''via'', JStr (sc_host h)),
              (''via_source'', JStr (if sc_host h = registered_host then ''registered'' else ''harvested'')),
              (''jump_host'', JOptStr (sc_jump_host h))])"

definition build_chain ::
    "(nat \<Rightarrow> write_fate) \<Rightarrow> string \<Rightarrow> string list \<Rightarrow> bool \<Rightarrow> string option
      \<Rightarrow> registry \<Rightarrow> audit_state \<Rightarrow> registry \<times> audit_state \<times> reply result" where
  "build_chain fate name chain persist note r a =
     (case reg_get r name of
        Inr _ \<Rightarrow> (r, a, Inr (err_reply ''server_already_exists'' [(''server'', JStr name)]))
      | Inl _ \<Rightarrow>
          (case build_hops r name note (length chain) 0 None chain of
             Inl e \<Rightarrow> (r, a, Inl e)
           | Inr (Inl s) \<Rightarrow> (r, a, Inr (err_reply ''server_not_found'' [(''server'', JStr s)]))
           | Inr (Inr hops) \<Rightarrow>
               let add = (if persist then reg_add fate else reg_add_ephemeral);
                   remove = (if persist then reg_remove fate else reg_remove_ephemeral)
               in (case add_hops add remove (map fst hops) [] r of
                     (r', Inl e) \<Rightarrow> (r', a, Inl e)
                   | (r', Inr (Some s)) \<Rightarrow>
                       (r', a, Inr (err_reply ''registry_error'' [(''server'', JStr s)]))
                   | (r', Inr None) \<Rightarrow>
                       (r',
                        audit_log ((AuditEvent ''setup_jump'' ''created''
                           [(''persist'', JBool persist),
                            (''hops'', JStrs (map (\<lambda>h. hop_target (fst h)) hops))])
                          \<lparr>ae_server := Some name\<rparr>) a,
                        Inr [(''jump'', JStr name), (''persist'', JBool persist),
                             (''ephemeral'', JBool (\<not> persist)),
                             (''hops'', JArr (map hop_summary hops))]))))"

text \<open>One round of the removal loops: ephemeral first, then file-backed, errors passed over.\<close>

definition remove_either :: "(nat \<Rightarrow> write_fate) \<Rightarrow> string \<Rightarrow> registry \<Rightarrow> registry \<times> bool" where
  "remove_either fate n r =
     (case reg_remove_ephemeral n r of
        (r1, Inr _) \<Rightarrow> (r1, True)
      | (r1, Inl _) \<Rightarrow>
          (case reg_remove fate n r1 of
             (r2, Inr _) \<Rightarrow> (r2, True)
           | (r2, Inl _) \<Rightarrow> (r2, False)))"

fun remove_each :: "(nat \<Rightarrow> write_fate) \<Rightarrow> string list \<Rightarrow> registry \<Rightarrow> registry \<times> string list" where
  "remove_each fate [] r = (r, [])"
| "remove_each fate (n # ns) r =
     (let (r1, ok) = remove_either fate n r;
          (r2, removed) = remove_each fate ns r1
      in (r2, if ok then n # removed else removed))"

definition hop_prefix :: "string \<Rightarrow> string" where
  "hop_prefix name = ''_'' @ name @ ''_hop''"

definition jump_targets :: "string \<Rightarrow> registry \<Rightarrow> string list" where
  "jump_targets name r =
     map sc_name (filter (\<lambda>cfg. sc_name cfg = name \<or> startswith (sc_name cfg) (hop_prefix name))
       (reg_list_all r))"

definition teardown_jump ::
    "(nat \<Rightarrow> write_fate) \<Rightarrow> string \<Rightarrow> registry \<Rightarrow> audit_state \<Rightarrow> registry \<times> audit_state \<times> reply" where
  "teardown_jump fate name r a =
     (let targets = jump_targets name r
      in if targets = [] then (r, a, err_reply ''server_not_found'' [(''server'', JStr name)])
         else
           (let (r', removed) = remove_each fate targets r
            in (r',
                audit_log ((AuditEvent ''teardown_jump'' ''removed'' [(''removed'', JStrs removed)])
                  \<lparr>ae_server := Some name\<rparr>) a,
                [(''torn_down'', JStr name), (''removed'', JStrs removed)])))"

subsection \<open>Registering the hops, for any add/remove pair\<close>

context server_table
begin

lemma remove_suppressed_spec:
  assumes "steady r" and "remove_suppressed remove ns r = (r', res)"
  shows "res = Inr () \<and> own r' = fold dict_del ns (own r) \<and> other r' = other r"
  using assms
proof (induction ns arbitrary: r)
  case Nil
  then show ?case by simp
next
  case (Cons n ns)
  obtain r1 w where rm: "remove n r = (r1, w)" by (rule prod.exhaust)
  have st: "steady r1" using remove_steady [OF Cons.prems(1), of n] rm by simp
  have step: "own r1 = dict_del n (own r) \<and> other r1 = other r \<and> (\<forall>e. w = Inl e \<longrightarrow> is_McpSshError e)"
  proof (cases w)
    case (Inl e)
    then have "map_of (own r) n = None"
      using remove_works [OF Cons.prems(1), of n] rm by (cases "map_of (own r) n") auto
    with Inl rm remove_fail [of n r r1 e] show ?thesis by (simp add: dict_del_fresh)
  next
    case (Inr u)
    with rm remove_ok [of n r r1 u] show ?thesis by simp
  qed
  have "remove_suppressed remove ns r1 = (r', res)"
    using Cons.prems(2) rm step by (auto split: sum.splits if_splits)
  from Cons.IH [OF st this] step show ?case by simp
qed

lemma add_hops_success:
  assumes "add_hops add remove cs added r = (r', Inr None)"
  shows "own r' = own r @ map (\<lambda>c. (sc_name c, c)) cs \<and> other r' = other r
    \<and> distinct (map sc_name cs)
    \<and> (\<forall>c \<in> set cs. map_of (own r) (sc_name c) = None \<and> map_of (other r) (sc_name c) = None)"
  using assms
proof (induction cs arbitrary: added r)
  case Nil
  then show ?case by simp
next
  case (Cons c cs)
  obtain r1 w where ad: "add c r = (r1, w)" by (rule prod.exhaust)
  with Cons.prems obtain u where w: "w = Inr u"
    by (cases w) (auto split: sum.splits if_splits prod.splits)
  from ad w add_ok [of c r r1 u] have own: "own r1 = own r @ [(sc_name c, c)]" "other r1 = other r"
    and fresh: "map_of (own r) (sc_name c) = None" "map_of (other r) (sc_name c) = None"
    by (simp_all add: dict_set_fresh)
  have "add_hops add remove cs (added @ [sc_name c]) r1 = (r', Inr None)"
    using Cons.prems ad w by simp
  from Cons.IH [OF this] own fresh show ?case
    by (auto simp: map_of_append map_add_None split: if_splits)
qed

lemma add_hops_failure:
  assumes "add_hops add remove cs added r = (r', res)" and "res \<noteq> Inr None"
    and "steady r" and "fold dict_del (rev added) (own r) = own0"
  shows "(\<exists>s. res = Inr (Some s)) \<and> own r' = own0 \<and> other r' = other r"
  using assms
proof (induction cs arbitrary: added r)
  case Nil
  then show ?case by simp
next
  case (Cons c cs)
  obtain r1 w where ad: "add c r = (r1, w)" by (rule prod.exhaust)
  have st: "steady r1" using add_steady [OF Cons.prems(3), of c] ad by simp
  show ?case
  proof (cases w)
    case (Inl e)
    with ad add_fail [of c r r1 e] have un: "is_McpSshError e" "own r1 = own r" "other r1 = other r"
      by auto
    obtain r2 v where rs: "remove_suppressed remove (rev added) r1 = (r2, v)" by (rule prod.exhaust)
    from remove_suppressed_spec [OF st rs] un Cons.prems(4)
    have "v = Inr ()" "own r2 = own0" "other r2 = other r" by simp_all
    with Cons.prems(1) ad Inl un(1) rs show ?thesis by auto
  next
    case (Inr u)
    with ad add_ok [of c r r1 u] have own: "own r1 = dict_set (sc_name c) c (own r)"
      "other r1 = other r" and fresh: "map_of (own r) (sc_name c) = None" by auto
    have "fold dict_del (rev (added @ [sc_name c])) (own r1) = own0"
      using own(1) fresh Cons.prems(4) by simp
    moreover have "add_hops add remove cs (added @ [sc_name c]) r1 = (r', res)"
      using Cons.prems(1) ad Inr by simp
    ultimately show ?thesis using Cons.IH [OF _ Cons.prems(2) st] own(2) by simp
  qed
qed

end

context server_table
begin

lemma remove_suppressed_steady: "steady r \<Longrightarrow> steady (fst (remove_suppressed remove ns r))"
proof (induction ns arbitrary: r)
  case Nil
  then show ?case by simp
next
  case (Cons n ns)
  obtain r1 w where rm: "remove n r = (r1, w)" by (rule prod.exhaust)
  then have "steady r1" using remove_steady [OF Cons.prems, of n] by simp
  with rm Cons.IH show ?case by (cases w) simp_all
qed

lemma add_hops_steady: "steady r \<Longrightarrow> steady (fst (add_hops add remove cs added r))"
proof (induction cs arbitrary: added r)
  case Nil
  then show ?case by simp
next
  case (Cons c cs)
  obtain r1 w where ad: "add c r = (r1, w)" by (rule prod.exhaust)
  then have st: "steady r1" using add_steady [OF Cons.prems, of c] by simp
  obtain r2 v where rs: "remove_suppressed remove (rev added) r1 = (r2, v)" by (rule prod.exhaust)
  then have "steady r2" using remove_suppressed_steady [OF st, of "rev added"] by simp
  with ad rs st Cons.IH [OF st] show ?case by (cases w; cases v) simp_all
qed

end

subsection \<open>The shape of the hops\<close>

lemma make_hop_sel [simp]:
  "sc_name (make_hop name note m i prev srv ho po base) = hop_name name i m"
  "sc_jump_host (make_hop name note m i prev srv ho po base) = prev"
  "sc_user (make_hop name note m i prev srv ho po base) = sc_user base"
  "sc_auth_type (make_hop name note m i prev srv ho po base) = sc_auth_type base"
  "sc_key_path (make_hop name note m i prev srv ho po base) = sc_key_path base"
  "sc_host (make_hop name note m i prev srv ho po base) = or_str ho (sc_host base)"
  "sc_port (make_hop name note m i prev srv ho po base) = or_int po (sc_port base)"
  by (simp_all add: make_hop_def)

definition hop_prev :: "string \<Rightarrow> nat \<Rightarrow> nat \<Rightarrow> string option" where
  "hop_prev name i m = (case i of 0 \<Rightarrow> None | Suc k \<Rightarrow> Some (hop_name name k m))"

text \<open>The hop that element \<open>i\<close> of the chain asks for.\<close>

definition hop_of_element ::
    "registry \<Rightarrow> string \<Rightarrow> string option \<Rightarrow> nat \<Rightarrow> nat \<Rightarrow> string
      \<Rightarrow> (server_config \<times> string \<times> string) option" where
  "hop_of_element r name note m i element =
     (case parse_hop element of
        Inl _ \<Rightarrow> None
      | Inr (srv, ho, po) \<Rightarrow>
          (case reg_get r srv of
             Inl _ \<Rightarrow> None
           | Inr base \<Rightarrow>
               Some (make_hop name note m i (hop_prev name i m) srv ho po base, srv, sc_host base)))"

lemma build_hops_elements:
  assumes "build_hops r name note m i (hop_prev name i m) chain = Inr (Inr hops)"
  shows "length hops = length chain \<and>
    (\<forall>j < length chain. hop_of_element r name note m (i + j) (chain ! j) = Some (hops ! j))"
  using assms
proof (induction chain arbitrary: i hops)
  case Nil
  then show ?case by simp
next
  case (Cons el chain)
  from Cons.prems obtain srv ho po base rest where
    p: "parse_hop el = Inr (srv, ho, po)" "reg_get r srv = Inr base"
    and rest: "build_hops r name note m (Suc i) (Some (hop_name name i m)) chain = Inr (Inr rest)"
    and hops: "hops = (make_hop name note m i (hop_prev name i m) srv ho po base, srv, sc_host base) # rest"
    by (auto simp: Let_def split: sum.splits prod.splits)
  have "hop_prev name (Suc i) m = Some (hop_name name i m)" by (simp add: hop_prev_def)
  with rest have IH: "length rest = length chain"
    "\<forall>j < length chain. hop_of_element r name note m (Suc i + j) (chain ! j) = Some (rest ! j)"
    using Cons.IH [of "Suc i" rest] by auto
  have "hop_of_element r name note m (i + j) ((el # chain) ! j) = Some (hops ! j)"
    if "j < length (el # chain)" for j
  proof (cases j)
    case 0
    with p hops show ?thesis by (simp add: hop_of_element_def)
  next
    case (Suc k)
    with that IH(2) hops show ?thesis by auto
  qed
  with IH(1) hops show ?case by simp
qed

lemma hop_of_element_sel:
  "hop_of_element r name note m i el = Some h
     \<Longrightarrow> sc_name (fst h) = hop_name name i m \<and> sc_jump_host (fst h) = hop_prev name i m"
  by (auto simp: hop_of_element_def split: sum.splits prod.splits)

lemma hop_name_last: "chain \<noteq> [] \<Longrightarrow> hop_name name (length chain - 1) (length chain) = name"
  by (simp add: hop_name_def)

subsection \<open>What a successful call leaves in the registry\<close>

definition reg_jump :: "registry \<Rightarrow> string \<Rightarrow> string option" where
  "reg_jump r n = (case reg_get r n of Inr c \<Rightarrow> sc_jump_host c | Inl _ \<Rightarrow> None)"

text \<open>The table a call with this \<open>persist\<close> flag writes, and the one it leaves alone.\<close>

definition target_table :: "bool \<Rightarrow> registry \<Rightarrow> (string, server_config) dict" where
  "target_table persist r = (if persist then rg_servers r else rg_ephemeral r)"

lemma not_error_success [simp]:
  "\<not> is_error ((''jump'', x) # (''persist'', y) # (''ephemeral'', z) # (''hops'', w) # [])"
  by (simp add: is_error_def)

lemma build_chain_success:
  assumes "build_chain fate name chain persist note r a = (r', a', Inr rep)" and "\<not> is_error rep"
  obtains hops where "reg_get r name = Inl ServerNotFound"
    and "length hops = length chain"
    and "\<forall>j < length chain. hop_of_element r name note (length chain) j (chain ! j) = Some (hops ! j)"
    and "target_table persist r' = target_table persist r @ map (\<lambda>h. (sc_name (fst h), fst h)) hops"
    and "target_table (\<not> persist) r' = target_table (\<not> persist) r"
    and "distinct (map (\<lambda>h. sc_name (fst h)) hops)"
    and "\<forall>h \<in> set hops. map_of (target_table persist r) (sc_name (fst h)) = None
           \<and> map_of (target_table (\<not> persist) r) (sc_name (fst h)) = None"
proof -
  from assms obtain hops where
    g: "reg_get r name = Inl ServerNotFound"
    and b: "build_hops r name note (length chain) 0 None chain = Inr (Inr hops)"
    and ad: "add_hops (if persist then reg_add fate else reg_add_ephemeral)
          (if persist then reg_remove fate else reg_remove_ephemeral) (map fst hops) [] r = (r', Inr None)"
    by (auto simp: build_chain_def Let_def reg_get_Inl_iff
          split: sum.splits option.splits prod.splits)
  have el: "length hops = length chain"
    "\<forall>j < length chain. hop_of_element r name note (length chain) j (chain ! j) = Some (hops ! j)"
    using build_hops_elements [of r name "note" "length chain" 0 chain hops] b
    by (simp_all add: hop_prev_def)
  have "target_table persist r' = target_table persist r @ map (\<lambda>h. (sc_name (fst h), fst h)) hops
    \<and> target_table (\<not> persist) r' = target_table (\<not> persist) r
    \<and> distinct (map (\<lambda>h. sc_name (fst h)) hops)
    \<and> (\<forall>h \<in> set hops. map_of (target_table persist r) (sc_name (fst h)) = None
           \<and> map_of (target_table (\<not> persist) r) (sc_name (fst h)) = None)"
  proof (cases persist)
    case True
    with ad file_table.add_hops_success [of fate "map fst hops" "[]" r r'] show ?thesis
      by (simp add: target_table_def comp_def)
  next
    case False
    with ad mem_table.add_hops_success [of "map fst hops" "[]" r r'] show ?thesis
      by (simp add: target_table_def comp_def)
  qed
  with g el that show thesis by blast
qed

lemma target_table_get:
  "map_of (target_table persist r) n = Some c \<Longrightarrow> map_of (target_table (\<not> persist) r) n = None
     \<Longrightarrow> reg_get r n = Inr c"
  by (cases persist) (simp_all add: target_table_def reg_get_def)

lemma build_chain_lookup:
  assumes "build_chain fate name chain persist note r a = (r', a', Inr rep)" and "\<not> is_error rep"
    and "j < length chain"
  shows "\<exists>h. hop_of_element r name note (length chain) j (chain ! j) = Some h
    \<and> reg_get r' (hop_name name j (length chain)) = Inr (fst h)"
proof -
  obtain hops where "reg_get r name = Inl ServerNotFound"
    and len: "length hops = length chain"
    and el: "\<forall>j < length chain. hop_of_element r name note (length chain) j (chain ! j) = Some (hops ! j)"
    and own: "target_table persist r' = target_table persist r @ map (\<lambda>h. (sc_name (fst h), fst h)) hops"
    and oth: "target_table (\<not> persist) r' = target_table (\<not> persist) r"
    and dis: "distinct (map (\<lambda>h. sc_name (fst h)) hops)"
    and fr: "\<forall>h \<in> set hops. map_of (target_table persist r) (sc_name (fst h)) = None
           \<and> map_of (target_table (\<not> persist) r) (sc_name (fst h)) = None"
    by (rule build_chain_success [OF assms(1,2)])
  let ?h = "hops ! j" and ?n = "hop_name name j (length chain)"
  have mem: "?h \<in> set hops" using assms(3) len by simp
  have nm: "sc_name (fst ?h) = ?n" using hop_of_element_sel el assms(3) by blast
  have "map_of (map (\<lambda>h. (sc_name (fst h), fst h)) hops) ?n = Some (fst ?h)"
    using mem nm dis by (intro map_of_is_SomeI) (force simp: comp_def)+
  with fr mem nm own have "map_of (target_table persist r') ?n = Some (fst ?h)"
    by (auto simp: map_add_def)
  moreover have "map_of (target_table (\<not> persist) r') ?n = None" using fr mem nm oth by auto
  ultimately show ?thesis using el assms(3) target_table_get by blast
qed

lemma build_chain_jump:
  assumes "build_chain fate name chain persist note r a = (r', a', Inr rep)" and "\<not> is_error rep"
    and "j < length chain"
  shows "reg_jump r' (hop_name name j (length chain)) = hop_prev name j (length chain)"
  using build_chain_lookup [OF assms] hop_of_element_sel by (fastforce simp: reg_jump_def)

text \<open>C13: After a successful \<open>_build_chain\<close> of \<open>n\<close> elements, following \<open>jump_host\<close> from the
  alias visits exactly the registered hops \<open>n-1, \<dots>, 0\<close> in that order and then stops at the
  directly dialled first hop, so resolving the alias needs exactly \<open>n-1\<close> tunnels.\<close>

theorem jump_chain_route:
  assumes "build_chain fate name chain persist note r a = (r', a', Inr rep)" and "\<not> is_error rep"
    and "k < length chain"
  shows "chain_at (reg_jump r') name k = Some (hop_name name (length chain - 1 - k) (length chain))
    \<and> chain_ends (reg_jump r') name (length chain - 1)"
proof -
  let ?n = "length chain" and ?f = "reg_jump r'"
  have ne: "chain \<noteq> []" using assms(3) by auto
  note step = build_chain_jump [OF assms(1,2)]
  have at: "k < ?n \<Longrightarrow> chain_at ?f name k = Some (hop_name name (?n - 1 - k) ?n)" for k
  proof (induction k)
    case 0
    then show ?case using hop_name_last [OF ne] by simp
  next
    case (Suc k)
    then have "?n - 1 - k = Suc (?n - 1 - Suc k)" by simp
    with Suc.prems have "?f (hop_name name (?n - 1 - k) ?n) = Some (hop_name name (?n - 1 - Suc k) ?n)"
      using step [of "?n - 1 - k"] by (simp add: hop_prev_def)
    with Suc show ?case by (subst chain_at_Suc_last) simp
  qed
  have "chain_at ?f name (Suc (?n - 1)) = Option.bind (Some (hop_name name 0 ?n)) ?f"
    using at [of "?n - 1"] ne by (subst chain_at_Suc_last) simp
  also have "\<dots> = None" using step [of 0] ne by (simp add: hop_prev_def)
  finally have "chain_ends ?f name (?n - 1)" unfolding chain_ends_iff .
  with at assms(3) show ?thesis by blast
qed

lemma build_chain_rollback:
  assumes "build_chain fate name chain persist note r a = (r', a', res)"
    and "\<And>rep. res = Inr rep \<Longrightarrow> is_error rep"
    and "persist \<Longrightarrow> writes_ok_from fate r"
  shows "rg_servers r' = rg_servers r \<and> rg_ephemeral r' = rg_ephemeral r \<and> a' = a"
proof (cases "\<exists>hops. reg_get r name = Inl ServerNotFound
    \<and> build_hops r name note (length chain) 0 None chain = Inr (Inr hops)")
  case False
  with assms(1) show ?thesis
    by (auto simp: build_chain_def reg_get_Inl_iff split: sum.splits)
next
  case True
  then obtain hops where h: "reg_get r name = Inl ServerNotFound"
    "build_hops r name note (length chain) 0 None chain = Inr (Inr hops)" by blast
  let ?add = "if persist then reg_add fate else reg_add_ephemeral"
  let ?remove = "if persist then reg_remove fate else reg_remove_ephemeral"
  obtain r1 w where ad: "add_hops ?add ?remove (map fst hops) [] r = (r1, w)" by (rule prod.exhaust)
  have nn: "w \<noteq> Inr None"
    using assms(1,2) h ad by (auto simp: build_chain_def Let_def)
  have "(\<exists>s. w = Inr (Some s)) \<and> rg_servers r1 = rg_servers r \<and> rg_ephemeral r1 = rg_ephemeral r"
  proof (cases persist)
    case True
    with ad nn assms(3) file_table.add_hops_failure [of fate "map fst hops" "[]" r r1 w "rg_servers r"]
    show ?thesis by simp
  next
    case False
    with ad nn mem_table.add_hops_failure [of "map fst hops" "[]" r r1 w "rg_ephemeral r"]
    show ?thesis by simp
  qed
  with assms(1) h ad show ?thesis by (auto simp: build_chain_def Let_def)
qed


subsection \<open>Tearing a chain down\<close>

definition writable :: "bool \<Rightarrow> (nat \<Rightarrow> write_fate) \<Rightarrow> registry \<Rightarrow> bool" where
  "writable persist fate r \<longleftrightarrow> (persist \<longrightarrow> writes_ok_from fate r)"

lemma remove_either_target:
  assumes "map_of (target_table persist r) n \<noteq> None"
    and "map_of (target_table (\<not> persist) r) n = None" and "writable persist fate r"
    and "remove_either fate n r = (r', ok)"
  shows "ok \<and> target_table persist r' = dict_del n (target_table persist r)
    \<and> target_table (\<not> persist) r' = target_table (\<not> persist) r \<and> writable persist fate r'"
proof (cases persist)
  case False
  with assms show ?thesis
    by (auto simp: target_table_def remove_either_def reg_remove_ephemeral_def writable_def)
next
  case True
  obtain r1 w where rm: "reg_remove fate n r = (r1, w)" by (rule prod.exhaust)
  have "snd (reg_remove fate n r) = Inr ()"
    using True assms(1,3) by (intro file_table.remove_works) (auto simp: target_table_def writable_def)
  with rm have w: "w = Inr ()" by simp
  have mem: "reg_remove_ephemeral n r = (r, Inl ServerNotFound)"
    using True assms(2) by (simp add: target_table_def reg_remove_ephemeral_def)
  from mem rm w assms(4) have r': "r' = r1" "ok" by (auto simp: remove_either_def)
  have "writes_ok_from fate r1"
    using file_table.remove_steady [of fate r n] True assms(3) rm by (simp add: writable_def)
  with r' True file_table.remove_ok [of fate n r r1 "()"] rm w show ?thesis
    by (simp add: target_table_def writable_def)
qed

lemma remove_each_target:
  assumes "distinct ns" and "\<forall>n \<in> set ns. map_of (target_table persist r) n \<noteq> None"
    and "\<forall>n \<in> set ns. map_of (target_table (\<not> persist) r) n = None" and "writable persist fate r"
    and "remove_each fate ns r = (r', removed)"
  shows "removed = ns \<and> target_table persist r' = fold dict_del ns (target_table persist r)
    \<and> target_table (\<not> persist) r' = target_table (\<not> persist) r"
  using assms
proof (induction ns arbitrary: r removed)
  case Nil
  then show ?case by simp
next
  case (Cons n ns)
  obtain r1 ok where e: "remove_either fate n r = (r1, ok)" by (rule prod.exhaust)
  obtain rm where rest: "remove_each fate ns r1 = (r', rm)" and removed: "removed = (if ok then n # rm else rm)"
    using Cons.prems(5) e by (auto simp: Let_def split: prod.splits)
  from remove_either_target [OF _ _ Cons.prems(4) e] Cons.prems(2,3)
  have one: "ok" "target_table persist r1 = dict_del n (target_table persist r)"
    "target_table (\<not> persist) r1 = target_table (\<not> persist) r" "writable persist fate r1" by auto
  have "rm = ns \<and> target_table persist r' = fold dict_del ns (target_table persist r1)
    \<and> target_table (\<not> persist) r' = target_table (\<not> persist) r1"
    using Cons.prems(1-3) one(2,3) by (intro Cons.IH [OF _ _ _ one(4) rest]) auto
  with one removed show ?case by simp
qed

definition jump_matches :: "string \<Rightarrow> string \<Rightarrow> bool" where
  "jump_matches name n \<longleftrightarrow> n = name \<or> startswith n (hop_prefix name)"

lemma jump_matches_hop: "jump_matches name (hop_name name i m)"
  by (simp add: jump_matches_def hop_name_def hop_prefix_def)

lemma jump_targets_alt: "jump_targets name r = filter (jump_matches name) (map sc_name (reg_list_all r))"
  by (simp add: jump_targets_def jump_matches_def [abs_def] filter_map comp_def)

lemma registry_names: "registry_wf r \<Longrightarrow>
  map sc_name (reg_list_all r) = map fst (rg_servers r) @ map fst (rg_ephemeral r)"
  by (simp add: registry_wf_def reg_list_all_def named_dict_keys)

lemma build_chain_wf:
  assumes "build_chain fate name chain persist note r a = (r', a', Inr rep)" and "\<not> is_error rep"
    and "registry_wf r"
  shows "registry_wf r'"
proof -
  obtain hops where "reg_get r name = Inl ServerNotFound"
    and "length hops = length chain"
    and "\<forall>j < length chain. hop_of_element r name note (length chain) j (chain ! j) = Some (hops ! j)"
    and own: "target_table persist r' = target_table persist r @ map (\<lambda>h. (sc_name (fst h), fst h)) hops"
    and oth: "target_table (\<not> persist) r' = target_table (\<not> persist) r"
    and dis: "distinct (map (\<lambda>h. sc_name (fst h)) hops)"
    and fr: "\<forall>h \<in> set hops. map_of (target_table persist r) (sc_name (fst h)) = None
           \<and> map_of (target_table (\<not> persist) r) (sc_name (fst h)) = None"
    by (rule build_chain_success [OF assms(1,2)])
  have "named_dict (target_table persist r)" "named_dict (target_table (\<not> persist) r)"
    using assms(3) by (auto simp: registry_wf_def target_table_def)
  moreover have "named_dict (d @ map (\<lambda>h. (sc_name (fst h), fst h)) hops)"
    if "named_dict d" "\<forall>h \<in> set hops. map_of d (sc_name (fst h)) = None" for d
    using that dis
    by (auto simp: named_dict_def dict_ok_def list_all_iff map_of_eq_None_iff comp_def image_iff) force
  ultimately have "named_dict (target_table persist r')" "named_dict (target_table (\<not> persist) r')"
    using own oth fr by auto
  then show ?thesis by (cases persist) (auto simp: registry_wf_def target_table_def)
qed

lemma chain_names:
  assumes "length hops = length chain"
    and "\<forall>j < length chain. hop_of_element r name note (length chain) j (chain ! j) = Some (hops ! j)"
  shows "map (\<lambda>h. sc_name (fst h)) hops = map (\<lambda>i. hop_name name i (length chain)) [0..<length chain]"
    (is "?ns = ?hs")
proof (rule nth_equalityI)
  show "length ?ns = length ?hs" using assms(1) by simp
  fix i assume "i < length ?ns"
  with assms have i: "i < length chain" "hop_of_element r name note (length chain) i (chain ! i) = Some (hops ! i)"
    by auto
  from hop_of_element_sel [OF i(2)] i(1) assms(1) show "?ns ! i = ?hs ! i" by simp
qed

lemma no_name_matches:
  assumes "registry_wf r" and "\<forall>c \<in> set (reg_list_all r). \<not> startswith (sc_name c) (hop_prefix name)"
    and "reg_get r name = Inl ServerNotFound" and "k \<in> fst ` set (rg_servers r) \<union> fst ` set (rg_ephemeral r)"
  shows "\<not> jump_matches name k"
proof -
  have "sc_name ` set (reg_list_all r) = fst ` set (rg_servers r) \<union> fst ` set (rg_ephemeral r)"
    using arg_cong [OF registry_names [OF assms(1)], of set] by simp
  with assms(4) have "k \<in> sc_name ` set (reg_list_all r)" by simp
  then have "\<not> startswith k (hop_prefix name)" using assms(2) by blast
  moreover have "k \<noteq> name" using assms(3,4) by (auto simp: reg_get_Inl_iff map_of_eq_None_iff)
  ultimately show ?thesis by (simp add: jump_matches_def)
qed

lemma setup_teardown_restores:
  assumes "build_chain fate name chain persist note r a = (r', a', Inr rep)" and "\<not> is_error rep"
    and "chain \<noteq> []" and "registry_wf r"
    and "\<forall>c \<in> set (reg_list_all r). \<not> startswith (sc_name c) (hop_prefix name)"
    and "persist \<Longrightarrow> writes_ok_from fate r'"
    and "teardown_jump fate name r' a' = (r'', a'', rep')"
  shows "rg_servers r'' = rg_servers r \<and> rg_ephemeral r'' = rg_ephemeral r
    \<and> rep' = [(''torn_down'', JStr name), (''removed'', JStrs (map (\<lambda>i. hop_name name i (length chain)) [0..<length chain]))]"
proof -
  obtain hops where nameless: "reg_get r name = Inl ServerNotFound"
    and len: "length hops = length chain"
    and el: "\<forall>j < length chain. hop_of_element r name note (length chain) j (chain ! j) = Some (hops ! j)"
    and own: "target_table persist r' = target_table persist r @ map (\<lambda>h. (sc_name (fst h), fst h)) hops"
    and oth: "target_table (\<not> persist) r' = target_table (\<not> persist) r"
    and dis: "distinct (map (\<lambda>h. sc_name (fst h)) hops)"
    and fr: "\<forall>h \<in> set hops. map_of (target_table persist r) (sc_name (fst h)) = None
           \<and> map_of (target_table (\<not> persist) r) (sc_name (fst h)) = None"
    by (rule build_chain_success [OF assms(1,2)])
  let ?ns = "map (\<lambda>h. sc_name (fst h)) hops"
  note names = chain_names [OF len el]
  have hopm: "filter (jump_matches name) ?ns = ?ns"
    by (rule filter_True) (simp add: names jump_matches_hop)
  have nomatch: "\<not> jump_matches name k" if "k \<in> fst ` set (rg_servers r) \<union> fst ` set (rg_ephemeral r)" for k
    by (rule no_name_matches [OF assms(4,5) nameless that])
  then have old: "filter (jump_matches name) (map fst (rg_servers r)) = []"
    "filter (jump_matches name) (map fst (rg_ephemeral r)) = []"
    by (auto simp: filter_empty_conv)
  have tgt: "jump_targets name r' = ?ns"
    using registry_names [OF build_chain_wf [OF assms(1,2,4)]] own oth hopm old
    by (cases persist) (auto simp: jump_targets_alt target_table_def comp_def)
  have ne: "?ns \<noteq> []" using len assms(3) by auto
  obtain r1 rm where re: "remove_each fate ?ns r' = (r1, rm)" by (rule prod.exhaust)
  have "rm = ?ns \<and> target_table persist r1 = fold dict_del ?ns (target_table persist r')
    \<and> target_table (\<not> persist) r1 = target_table (\<not> persist) r'"
  proof (rule remove_each_target [OF dis _ _ _ re])
    show "\<forall>n \<in> set ?ns. map_of (target_table persist r') n \<noteq> None"
      unfolding own map_of_eq_None_iff by (auto simp: image_Un image_image)
    show "\<forall>n \<in> set ?ns. map_of (target_table (\<not> persist) r') n = None" using oth fr by auto
    show "writable persist fate r'" using assms(6) by (simp add: writable_def)
  qed
  moreover have "fold dict_del ?ns (target_table persist r') = target_table persist r"
    using fr by (force simp: fold_dict_del own filter_id_conv map_of_eq_None_iff)
  ultimately have "target_table persist r1 = target_table persist r"
    "target_table (\<not> persist) r1 = target_table (\<not> persist) r" "rm = ?ns" using oth by auto
  moreover have "r'' = r1" "rep' = [(''torn_down'', JStr name), (''removed'', JStrs rm)]"
    using assms(7) tgt ne re by (auto simp: teardown_jump_def Let_def)
  ultimately show ?thesis using names by (cases persist) (auto simp: target_table_def)
qed


subsection \<open>Concrete runs\<close>

definition example_registry :: registry where
  "example_registry =
     \<lparr>rg_config = AppConfig\<lparr>ac_servers :=
        [(''a'', (ServerConfig ''a'' ''10.0.0.1'' ''root'' AT_key)\<lparr>sc_key_path := Some ''k''\<rparr>),
         (''b'', ServerConfig ''b'' ''10.0.0.2'' ''bob'' AT_agent)]\<rparr>,
      rg_ephemeral = [], rg_path = ''servers.toml'', rg_fs = Map.empty, rg_writes = 0\<rparr>"

definition example_audit :: audit_state where
  "example_audit = AuditLog_init True True []"

definition example_chain where
  "example_chain = build_chain (\<lambda>_. W_ok) ''j'' [''a'', ''b@192.168.0.9:2222''] False None
     example_registry example_audit"

lemma example_chain_ok:
  obtains r' a' rep where "build_chain (\<lambda>_. W_ok) ''j'' [''a'', ''b@192.168.0.9:2222''] False None
     example_registry example_audit = (r', a', Inr rep)" and "\<not> is_error rep"
proof -
  have "case snd (snd example_chain) of Inl _ \<Rightarrow> False | Inr rep \<Rightarrow> \<not> is_error rep" by code_simp
  then obtain rep where "snd (snd example_chain) = Inr rep" "\<not> is_error rep"
    by (auto split: sum.splits)
  then show thesis
    using that [of "fst example_chain" "fst (snd example_chain)" rep]
    by (simp add: example_chain_def prod_eq_iff)
qed

theorem jump_chain_route_witness:
  "\<exists>r' a' rep. build_chain (\<lambda>_. W_ok) ''j'' [''a'', ''b@192.168.0.9:2222''] False None
      example_registry example_audit = (r', a', Inr rep)
    \<and> chain_at (reg_jump r') ''j'' 1 = Some ''_j_hop0'' \<and> chain_ends (reg_jump r') ''j'' 1"
proof -
  obtain r' a' rep where b: "build_chain (\<lambda>_. W_ok) ''j'' [''a'', ''b@192.168.0.9:2222''] False None
     example_registry example_audit = (r', a', Inr rep)" "\<not> is_error rep" by (rule example_chain_ok)
  have h: "hop_name ''j'' 0 (Suc (Suc 0)) = ''_j_hop0''" by code_simp
  from jump_chain_route [OF b, of 1] b(1) h show ?thesis by auto
qed


text \<open>A registry where the second of three hops collides, so that the first is rolled back.\<close>

definition example_registry2 :: registry where
  "example_registry2 = example_registry
     \<lparr>rg_ephemeral := [(''_j_hop1'', ServerConfig ''_j_hop1'' ''10.9.9.9'' ''eve'' AT_agent)]\<rparr>"


end
