(* ===== verification/Pathfind.thy ===== *)
theory Pathfind
  imports Models "HOL-Library.Product_Lexorder" "HOL-Library.List_Lexorder" "HOL-Library.Char_ord"
    "HOL-Library.Multiset" "HOL-Library.While_Combinator"
begin

section \<open>Path finding over the reachability matrix (\<open>topology.py\<close>)\<close>

text \<open>
  The matrix records of \<open>topology.py\<close> and \<open>find_path\<close>, Dijkstra's algorithm with the cost
  (number of hops, summed latency). A latency is an \<open>int\<close>, in hundredths of a millisecond
  (\<open>probe_address\<close> rounds to two decimals), so that sums are exact. The heap is used through
  \<open>heappush\<close> and \<open>heappop\<close> only: the search takes them as arguments, the locale \<open>min_heap\<close> states
  what \<open>heapq\<close> promises, and \<open>heap_list\<close> interprets it. The loop is a \<open>while_option\<close>, so that a
  search that does not end would be \<open>None\<close>.
\<close>

subsection \<open>Records\<close>

datatype address_state = AS_reachable | AS_refused | AS_forwarding_disabled | AS_filtered

datatype source_state = SS_ok | SS_source_unreachable | SS_forwarding_disabled

record address_probe =
  ap_addr :: string
  ap_port :: int
  ap_state :: address_state
  ap_latency_ms :: "int option"
  ap_is_ssh :: bool

record topology_edge =
  te_from_node :: string
  te_to_node :: string
  te_reachable :: bool
  te_via :: "string option"
  te_addresses :: "address_probe list"
  te_source_state :: source_state

record topology_node =
  tn_name :: string
  tn_host :: string
  tn_port :: int
  tn_candidate_addrs :: "string list"
  tn_harvested :: bool
  tn_harvest_failed :: bool
  tn_source_only :: bool

record topology_result =
  tr_scanned_at :: int
  tr_nodes :: "topology_node list"
  tr_edges :: "topology_edge list"
  tr_adjacency :: "(string, string list) dict"

definition LOCAL_NODE :: string where
  "LOCAL_NODE = ''local''"

subsection \<open>The graph\<close>

text \<open>\<open>_edge_latency\<close>: the first probe of the winning address that has a latency.\<close>

definition edge_latency :: "topology_edge \<Rightarrow> int" where
  "edge_latency edge =
     (case find (\<lambda>p. Some (ap_addr p) = te_via edge \<and> ap_latency_ms p \<noteq> None) (te_addresses edge) of
        Some p \<Rightarrow> the (ap_latency_ms p)
      | None \<Rightarrow> 0)"

type_synonym hop_graph = "(string, (string \<times> string \<times> int) list) dict"

definition graph_add :: "topology_edge \<Rightarrow> hop_graph \<Rightarrow> hop_graph" where
  "graph_add edge graph =
     (case te_via edge of
        None \<Rightarrow> graph
      | Some via \<Rightarrow>
          if \<not> te_reachable edge \<or> te_source_state edge \<noteq> SS_ok then graph
          else
            let row = (case map_of graph (te_from_node edge) of None \<Rightarrow> [] | Some r \<Rightarrow> r)
            in dict_set (te_from_node edge) (row @ [(te_to_node edge, via, edge_latency edge)]) graph)"

definition path_graph :: "topology_edge list \<Rightarrow> hop_graph" where
  "path_graph edges = fold graph_add edges []"

definition graph_row :: "hop_graph \<Rightarrow> string \<Rightarrow> (string \<times> string \<times> int) list" where
  "graph_row graph node = (case map_of graph node of None \<Rightarrow> [] | Some r \<Rightarrow> r)"

subsection \<open>Heap entries\<close>

type_synonym hop_path = "(string \<times> string) list"

datatype heap_entry =
  Heap_Entry (he_hops: nat) (he_lat: int) (he_node: string) (he_path: hop_path)

definition he_key :: "heap_entry \<Rightarrow> nat \<times> int \<times> string \<times> hop_path" where
  "he_key e = (he_hops e, he_lat e, he_node e, he_path e)"

lemma he_key_inj: "he_key a = he_key b \<Longrightarrow> a = b"
  by (cases a; cases b) (simp add: he_key_def)

text \<open>Python compares the tuples from the left.\<close>

instantiation heap_entry :: linorder
begin

definition less_eq_heap_entry :: "heap_entry \<Rightarrow> heap_entry \<Rightarrow> bool" where
  "less_eq_heap_entry a b \<longleftrightarrow> he_key a \<le> he_key b"

definition less_heap_entry :: "heap_entry \<Rightarrow> heap_entry \<Rightarrow> bool" where
  "less_heap_entry a b \<longleftrightarrow> he_key a < he_key b"

instance
  by standard (auto simp: less_eq_heap_entry_def less_heap_entry_def intro: he_key_inj)

end

definition he_cost :: "heap_entry \<Rightarrow> nat \<times> int" where
  "he_cost e = (he_hops e, he_lat e)"

lemma le_he_cost: "a \<le> b \<Longrightarrow> he_cost a \<le> he_cost b"
  by (auto simp: less_eq_heap_entry_def he_key_def he_cost_def)

subsection \<open>The search\<close>

record 'h path_state =
  ps_heap :: 'h
  ps_best :: "(string, nat \<times> int) dict"
  ps_found :: "hop_path option"

definition relax ::
    "(heap_entry \<Rightarrow> 'h \<Rightarrow> 'h) \<Rightarrow> nat \<Rightarrow> int \<Rightarrow> hop_path \<Rightarrow> string \<times> string \<times> int
      \<Rightarrow> 'h \<times> (string, nat \<times> int) dict \<Rightarrow> 'h \<times> (string, nat \<times> int) dict" where
  "relax push hops lat_sum path out hb =
     (case (out, hb) of
        ((to_node, via, lat), (heap, best)) \<Rightarrow>
          if to_node = LOCAL_NODE then (heap, best)
          else
            let cost = (Suc hops, lat_sum + lat)
            in if (case map_of best to_node of None \<Rightarrow> True | Some b \<Rightarrow> cost < b)
               then (push (Heap_Entry (Suc hops) (lat_sum + lat) to_node (path @ [(to_node, via)])) heap,
                     dict_set to_node cost best)
               else (heap, best))"

definition path_step ::
    "(heap_entry \<Rightarrow> 'h \<Rightarrow> 'h) \<Rightarrow> ('h \<Rightarrow> (heap_entry \<times> 'h) option) \<Rightarrow> hop_graph \<Rightarrow> string
      \<Rightarrow> 'h path_state \<Rightarrow> 'h path_state" where
  "path_step push pop graph target s =
     (case pop (ps_heap s) of
        None \<Rightarrow> s
      | Some (Heap_Entry hops lat_sum node path, heap) \<Rightarrow>
          if node = target then s\<lparr>ps_heap := heap, ps_found := Some path\<rparr>
          else
            let (heap', best') = fold (relax push hops lat_sum path) (graph_row graph node) (heap, ps_best s)
            in s\<lparr>ps_heap := heap', ps_best := best'\<rparr>)"

definition path_running :: "('h \<Rightarrow> (heap_entry \<times> 'h) option) \<Rightarrow> 'h path_state \<Rightarrow> bool" where
  "path_running pop s \<longleftrightarrow> ps_found s = None \<and> pop (ps_heap s) \<noteq> None"

definition path_start :: "(heap_entry \<Rightarrow> 'h \<Rightarrow> 'h) \<Rightarrow> 'h \<Rightarrow> 'h path_state" where
  "path_start push heap0 =
     \<lparr>ps_heap = push (Heap_Entry 0 0 LOCAL_NODE []) heap0, ps_best = [(LOCAL_NODE, (0, 0))],
      ps_found = None\<rparr>"

text \<open>The outer option is the loop's: \<open>None\<close> would be a search that never returns.\<close>

definition search_path ::
    "(heap_entry \<Rightarrow> 'h \<Rightarrow> 'h) \<Rightarrow> ('h \<Rightarrow> (heap_entry \<times> 'h) option) \<Rightarrow> 'h \<Rightarrow> hop_graph \<Rightarrow> string
      \<Rightarrow> hop_path option option" where
  "search_path push pop heap0 graph target =
     map_option ps_found
       (while_option (path_running pop) (path_step push pop graph target) (path_start push heap0))"

text \<open>\<open>heapq\<close> on a list: what matters is which element \<open>heappop\<close> returns.\<close>

definition heappush :: "heap_entry \<Rightarrow> heap_entry list \<Rightarrow> heap_entry list" where
  "heappush e h = e # h"

definition heappop :: "heap_entry list \<Rightarrow> (heap_entry \<times> heap_entry list) option" where
  "heappop h =
     (case h of [] \<Rightarrow> None
      | e # es \<Rightarrow> let m = fold min es e in Some (m, remove1 m h))"

definition find_path :: "topology_result \<Rightarrow> string \<Rightarrow> hop_path option option" where
  "find_path topology target =
     search_path heappush heappop [] (path_graph (tr_edges topology)) target"

subsection \<open>Walks\<close>

text \<open>The edges a path may use, and the walks from \<open>local\<close> with their costs.\<close>

definition usable_edges :: "topology_edge list \<Rightarrow> (string \<times> string \<times> string \<times> int) list" where
  "usable_edges edges =
     map (\<lambda>e. (te_from_node e, te_to_node e, the (te_via e), edge_latency e))
       (filter (\<lambda>e. te_reachable e \<and> te_via e \<noteq> None \<and> te_source_state e = SS_ok) edges)"

inductive walk :: "(string \<times> string \<times> string \<times> int) set \<Rightarrow> string \<Rightarrow> hop_path \<Rightarrow> nat \<times> int \<Rightarrow> bool"
  for G where
  walk_start: "walk G LOCAL_NODE [] (0, 0)"
| walk_step: "walk G u p (h, l) \<Longrightarrow> (u, v, via, lat) \<in> G \<Longrightarrow> v \<noteq> LOCAL_NODE
    \<Longrightarrow> walk G v (p @ [(v, via)]) (Suc h, l + lat)"

inductive_simps walk_Nil: "walk G v [] c"

lemma walk_length: "walk G v p c \<Longrightarrow> fst c = length p"
  by (induction rule: walk.induct) auto

lemma graph_row_add:
  "graph_row (graph_add e g) n =
     graph_row g n @ map snd (filter (\<lambda>t. fst t = n) (usable_edges [e]))"
  by (auto simp: graph_add_def graph_row_def usable_edges_def Let_def split: option.splits)

lemma graph_row_path_graph:
  "graph_row (path_graph edges) n = map snd (filter (\<lambda>t. fst t = n) (usable_edges edges))"
proof -
  have "graph_row (fold graph_add edges g) n
      = graph_row g n @ map snd (filter (\<lambda>t. fst t = n) (usable_edges edges))" for g
  proof (induction edges arbitrary: g)
    case Nil
    then show ?case by (simp add: usable_edges_def)
  next
    case (Cons e edges)
    then show ?case by (simp add: graph_row_add) (simp add: usable_edges_def)
  qed
  then show ?thesis by (simp add: path_graph_def graph_row_def)
qed

subsection \<open>The invariant of the search\<close>

type_synonym best_map = "string \<Rightarrow> (nat \<times> int) option"

text \<open>\<open>known_at best v c\<close>: the best known cost of \<open>v\<close> is at most \<open>c\<close>.\<close>

definition known_at :: "best_map \<Rightarrow> string \<Rightarrow> nat \<times> int \<Rightarrow> bool" where
  "known_at best v c \<longleftrightarrow> (\<exists>b. best v = Some b \<and> b \<le> c)"

definition best_le :: "best_map \<Rightarrow> best_map \<Rightarrow> bool" where
  "best_le best best' \<longleftrightarrow> (\<forall>v c. best v = Some c \<longrightarrow> known_at best' v c)"

lemma known_at_trans: "known_at best v c \<Longrightarrow> c \<le> d \<Longrightarrow> known_at best v d"
  unfolding known_at_def by force

lemma known_at_mono: "known_at best v c \<Longrightarrow> best_le best best' \<Longrightarrow> known_at best' v c"
  unfolding known_at_def best_le_def by (meson order_trans)

lemma best_le_refl: "best_le best best"
  by (auto simp: best_le_def known_at_def)

lemma best_le_upd:
  "(case best v of None \<Rightarrow> True | Some b \<Rightarrow> c < b) \<Longrightarrow> best_le best (best(v \<mapsto> c))"
  unfolding best_le_def known_at_def
  by (metis fun_upd_apply less_imp_le option.inject option.simps(5) order_refl)

text \<open>
  A path whose every node is known at a cost that ends no later than its place in the path: no
  relaxation can lead back to a node of such a path, so paths stay simple.
\<close>

definition settled_path :: "best_map \<Rightarrow> hop_path \<Rightarrow> bool" where
  "settled_path best p \<longleftrightarrow> distinct (map fst p)
     \<and> (\<forall>i < length p. \<exists>b. best (fst (p ! i)) = Some b \<and> fst b \<le> Suc i)"

lemma settled_path_mono: "settled_path best p \<Longrightarrow> best_le best best' \<Longrightarrow> settled_path best' p"
  unfolding settled_path_def best_le_def known_at_def less_eq_prod_def
  by (metis (no_types, lifting) less_imp_le order_trans)

lemma settled_path_append:
  assumes "settled_path best p" and "best' = best(v \<mapsto> (Suc (length p), l))"
    and "case best v of None \<Rightarrow> True | Some b \<Rightarrow> (Suc (length p), l) < b"
  shows "settled_path best' (p @ [(v, via)])"
proof -
  have "v \<noteq> fst (p ! i)" if i: "i < length p" for i
  proof
    assume "v = fst (p ! i)"
    with assms(1) i obtain b where "best v = Some b" "fst b \<le> Suc i" by (auto simp: settled_path_def)
    with assms(3) i show False by (cases b) auto
  qed
  then have "v \<notin> set (map fst p)" by (auto simp: in_set_conv_nth) (metis fst_conv)
  then have "distinct (map fst (p @ [(v, via)]))" using assms(1) by (auto simp: settled_path_def)
  moreover have "\<exists>b. best' (fst ((p @ [(v, via)]) ! i)) = Some b \<and> fst b \<le> Suc i"
    if "i < length (p @ [(v, via)])" for i
    using that assms(1,2) \<open>\<And>i. i < length p \<Longrightarrow> v \<noteq> fst (p ! i)\<close> [of i]
    by (cases "i < length p") (auto simp: settled_path_def nth_append less_Suc_eq)
  ultimately show ?thesis unfolding settled_path_def by blast
qed

definition entry_ok :: "(string \<times> string \<times> string \<times> int) set \<Rightarrow> best_map \<Rightarrow> heap_entry \<Rightarrow> bool" where
  "entry_ok G best e \<longleftrightarrow> walk G (he_node e) (he_path e) (he_cost e)
     \<and> known_at best (he_node e) (he_cost e) \<and> settled_path best (he_path e)"

lemma entry_ok_mono: "entry_ok G best e \<Longrightarrow> best_le best best' \<Longrightarrow> entry_ok G best' e"
  unfolding entry_ok_def using known_at_mono settled_path_mono by blast

definition add_edge :: "nat \<times> int \<Rightarrow> int \<Rightarrow> nat \<times> int" where
  "add_edge c lat = (Suc (fst c), snd c + lat)"

lemma add_edge_mono: "c \<le> d \<Longrightarrow> add_edge c lat \<le> add_edge d lat"
  by (cases c; cases d) (auto simp: add_edge_def)

lemma add_edge_greater: "c < add_edge c lat"
  by (cases c) (simp add: add_edge_def)

text \<open>All edges out of \<open>v\<close> were relaxed from the cost \<open>c\<close>.\<close>

definition expanded :: "(string \<times> string \<times> string \<times> int) set \<Rightarrow> best_map \<Rightarrow> string \<Rightarrow> nat \<times> int \<Rightarrow> bool" where
  "expanded G best v c \<longleftrightarrow>
     (\<forall>w via lat. (v, w, via, lat) \<in> G \<longrightarrow> w \<noteq> LOCAL_NODE \<longrightarrow> known_at best w (add_edge c lat))"

lemma expanded_mono: "expanded G best v c \<Longrightarrow> best_le best best' \<Longrightarrow> expanded G best' v c"
  unfolding expanded_def using known_at_mono by blast

definition queued :: "heap_entry multiset \<Rightarrow> string \<Rightarrow> nat \<times> int \<Rightarrow> bool" where
  "queued H v c \<longleftrightarrow> (\<exists>e \<in># H. he_node e = v \<and> he_cost e = c)"

text \<open>
  While the edges of the node \<open>cur = (node, cost)\<close> are being relaxed, that node need not be queued
  or expanded; between two steps there is no such node.
\<close>

definition search_inv ::
    "(string \<times> string \<times> string \<times> int) set \<Rightarrow> string \<Rightarrow> (string \<times> (nat \<times> int)) option
      \<Rightarrow> heap_entry multiset \<Rightarrow> best_map \<Rightarrow> bool" where
  "search_inv G target cur H best \<longleftrightarrow> best LOCAL_NODE = Some (0, 0)
     \<and> (\<forall>e \<in># H. entry_ok G best e)
     \<and> (\<forall>v c. best v = Some c \<longrightarrow> queued H v c \<or> cur = Some (v, c)
          \<or> v \<noteq> target \<and> expanded G best v c)"

lemma queued_add: "queued H v c \<Longrightarrow> queued (add_mset e H) v c"
  by (auto simp: queued_def)

lemma search_inv_close:
  "search_inv G target (Some (u, c)) H best \<Longrightarrow> u \<noteq> target \<Longrightarrow> expanded G best u c
     \<Longrightarrow> search_inv G target None H best"
  unfolding search_inv_def by blast

lemma search_inv_start:
  "search_inv G target None {#Heap_Entry 0 0 LOCAL_NODE []#} [LOCAL_NODE \<mapsto> (0, 0)]"
  by (auto simp: search_inv_def entry_ok_def he_cost_def walk_start known_at_def settled_path_def queued_def
      split: if_splits)

text \<open>The heart of the proof: the entry of least cost is no dearer than any walk to the target.\<close>

lemma search_inv_frontier:
  assumes "search_inv G target None H best" and "walk G v p c"
  shows "(\<exists>e \<in># H. he_cost e \<le> c) \<or> v \<noteq> target \<and> (\<exists>b. best v = Some b \<and> b \<le> c \<and> expanded G best v b)"
  using assms(2)
proof (induction rule: walk.induct)
  case walk_start
  have "best LOCAL_NODE = Some (0, 0)" using assms(1) by (simp add: search_inv_def)
  then show ?case using assms(1) unfolding search_inv_def queued_def by fastforce
next
  case (walk_step u p h l v via lat)
  have le: "(h, l) \<le> (Suc h, l + lat)" by simp
  from walk_step.IH show ?case
  proof
    assume "\<exists>e \<in># H. he_cost e \<le> (h, l)"
    then show ?thesis using le order_trans by blast
  next
    assume "u \<noteq> target \<and> (\<exists>b. best u = Some b \<and> b \<le> (h, l) \<and> expanded G best u b)"
    then obtain b where b: "b \<le> (h, l)" "expanded G best u b" by blast
    then have "known_at best v (add_edge b lat)"
      using walk_step.hyps(2,3) unfolding expanded_def by blast
    moreover have "add_edge b lat \<le> (Suc h, l + lat)"
      using add_edge_mono [OF b(1), of lat] by (simp add: add_edge_def)
    ultimately obtain d where "best v = Some d" "d \<le> (Suc h, l + lat)"
      using known_at_trans unfolding known_at_def by blast
    then show ?thesis using assms(1) unfolding search_inv_def queued_def by blast
  qed
qed

text \<open>The row the search reads holds exactly the edges out of the node.\<close>

definition row_of :: "(string \<times> string \<times> string \<times> int) set \<Rightarrow> hop_graph \<Rightarrow> bool" where
  "row_of G graph \<longleftrightarrow> (\<forall>u. set (graph_row graph u) = {(v, via, lat). (u, v, via, lat) \<in> G})"

text \<open>
  Termination: an entry with \<open>h\<close> hops weighs \<open>(D + 1) ^ (N - h)\<close>, where rows have at most \<open>D\<close>
  edges and simple paths at most \<open>N\<close> hops; a step replaces one entry by at most \<open>D\<close> of the next
  level.
\<close>

definition weight :: "nat \<Rightarrow> nat \<Rightarrow> heap_entry multiset \<Rightarrow> nat" where
  "weight D N H = sum_mset (image_mset (\<lambda>e. (D + 1) ^ (N - he_hops e)) H)"

lemma weight_level:
  assumes "\<forall>e \<in># M. he_hops e = Suc h" and "size M \<le> D" and "M \<noteq> {#} \<Longrightarrow> Suc h \<le> N"
  shows "weight D N M < (D + 1) ^ (N - h)"
proof (cases "M = {#}")
  case True
  then show ?thesis by (simp add: weight_def)
next
  case False
  have "image_mset (\<lambda>e. (D + 1) ^ (N - he_hops e)) M = image_mset (\<lambda>e. (D + 1) ^ (N - Suc h)) M"
    using assms(1) by (intro image_mset_cong) simp
  then have "weight D N M = size M * (D + 1) ^ (N - Suc h)"
    unfolding weight_def by (simp only: sum_mset_constant) simp
  also have "\<dots> \<le> D * (D + 1) ^ (N - Suc h)" using assms(2) by simp
  also have "\<dots> < (D + 1) * (D + 1) ^ (N - Suc h)" by simp
  also have "\<dots> = (D + 1) ^ (N - h)"
    using assms(3) [OF False] by (metis Suc_diff_Suc Suc_le_lessD power_Suc)
  finally show ?thesis .
qed

lemma entry_hops_bound:
  assumes "entry_ok G best e" and "finite G"
  shows "he_hops e \<le> card ((\<lambda>(u, v, via, lat). v) ` G)"
proof -
  have nodes: "fst ` set p \<subseteq> (\<lambda>(u, v, via, lat). v) ` G" if "walk G v p c" for v p c
    using that by (induction rule: walk.induct) force+
  have "he_hops e = length (he_path e)"
    using assms(1) walk_length [of G "he_node e" "he_path e" "he_cost e"] by (simp add: entry_ok_def he_cost_def)
  also have "\<dots> = card (fst ` set (he_path e))"
    using assms(1) distinct_card [of "map fst (he_path e)"] by (simp add: entry_ok_def settled_path_def)
  also have "\<dots> \<le> card ((\<lambda>(u, v, via, lat). v) ` G)"
  proof (rule card_mono [OF finite_imageI [OF assms(2)] nodes])
    show "walk G (he_node e) (he_path e) (he_cost e)" using assms(1) by (simp add: entry_ok_def)
  qed
  finally show ?thesis .
qed

subsection \<open>The search, over any heap that pops a least element\<close>

locale min_heap =
  fixes push :: "heap_entry \<Rightarrow> 'h \<Rightarrow> 'h"
    and pop :: "'h \<Rightarrow> (heap_entry \<times> 'h) option"
    and heap0 :: 'h
    and items :: "'h \<Rightarrow> heap_entry multiset"
  assumes items_empty: "items heap0 = {#}"
    and items_push: "items (push e h) = add_mset e (items h)"
    and pop_None: "pop h = None \<longleftrightarrow> items h = {#}"
    and pop_items: "pop h = Some (e, h') \<Longrightarrow> items h = add_mset e (items h')"
    and pop_least: "pop h = Some (e, h') \<Longrightarrow> x \<in># items h \<Longrightarrow> e \<le> x"
begin

abbreviation hb_items :: "'h \<times> (string, nat \<times> int) dict \<Rightarrow> heap_entry multiset" where
  "hb_items hb \<equiv> items (fst hb)"

abbreviation hb_best :: "'h \<times> (string, nat \<times> int) dict \<Rightarrow> best_map" where
  "hb_best hb \<equiv> map_of (snd hb)"

text \<open>A better cost for a node joins the map and its entry the heap.\<close>

lemma search_inv_better:
  assumes inv: "search_inv G target cur H best" and v: "v \<noteq> LOCAL_NODE" and le: "best_le best (best(v \<mapsto> c))"
    and eo: "entry_ok G (best(v \<mapsto> c)) e" and e: "he_node e = v" "he_cost e = c"
  shows "search_inv G target cur (add_mset e H) (best(v \<mapsto> c))"
  unfolding search_inv_def
proof (intro conjI allI impI)
  let ?best' = "best(v \<mapsto> c)"
  show "?best' LOCAL_NODE = Some (0, 0)" using inv v by (auto simp: search_inv_def)
  have "entry_ok G ?best' x" if "x \<in># H" for x
    using inv that entry_ok_mono [OF _ le] by (simp add: search_inv_def)
  with eo show "\<forall>x \<in># add_mset e H. entry_ok G ?best' x" by auto
  fix w d assume w: "?best' w = Some d"
  show "queued (add_mset e H) w d \<or> cur = Some (w, d) \<or> w \<noteq> target \<and> expanded G ?best' w d"
  proof (cases "w = v")
    case True
    with w e show ?thesis by (auto simp: queued_def)
  next
    case False
    with w have "best w = Some d" by simp
    then have "queued H w d \<or> cur = Some (w, d) \<or> w \<noteq> target \<and> expanded G best w d"
      using inv unfolding search_inv_def by blast
    then show ?thesis using expanded_mono [OF _ le, of G w d] queued_add by blast
  qed
qed

text \<open>One relaxation of an edge of \<open>cur\<close>.\<close>

lemma relax_inv:
  assumes inv: "search_inv G target (Some (u, (h, l))) (hb_items hb) (hb_best hb)"
    and edge: "(u, v, via, lat) \<in> G"
    and wk: "walk G u p (h, l)" and sp: "settled_path (hb_best hb) p"
  shows "search_inv G target (Some (u, (h, l))) (hb_items (relax push h l p (v, via, lat) hb))
      (hb_best (relax push h l p (v, via, lat) hb))
    \<and> best_le (hb_best hb) (hb_best (relax push h l p (v, via, lat) hb))
    \<and> (v \<noteq> LOCAL_NODE \<longrightarrow> known_at (hb_best (relax push h l p (v, via, lat) hb)) v (Suc h, l + lat))
    \<and> (hb_items (relax push h l p (v, via, lat) hb) = hb_items hb
       \<or> (\<exists>e. hb_items (relax push h l p (v, via, lat) hb) = add_mset e (hb_items hb)
             \<and> he_hops e = Suc h))"
proof -
  obtain heap best where hb: "hb = (heap, best)" by (rule prod.exhaust)
  let ?c = "(Suc h, l + lat)"
  let ?better = "case map_of best v of None \<Rightarrow> True | Some b \<Rightarrow> ?c < b"
  show ?thesis
  proof (cases "v \<noteq> LOCAL_NODE \<and> ?better")
    case False
    then have r: "relax push h l p (v, via, lat) hb = hb" by (auto simp: relax_def hb Let_def)
    have "v \<noteq> LOCAL_NODE \<Longrightarrow> known_at (map_of best) v ?c"
      using False by (auto simp: known_at_def not_less split: option.splits)
    with inv r best_le_refl show ?thesis by (simp add: hb)
  next
    case True
    let ?e = "Heap_Entry (Suc h) (l + lat) v (p @ [(v, via)])"
    let ?best' = "(map_of best)(v \<mapsto> ?c)"
    have r: "relax push h l p (v, via, lat) hb = (push ?e heap, dict_set v ?c best)"
      using True by (simp add: relax_def hb Let_def)
    have le: "best_le (map_of best) ?best'" using True by (intro best_le_upd) simp
    have hp: "h = length p" using walk_length [OF wk] by simp
    have "settled_path ?best' (p @ [(v, via)])"
      by (rule settled_path_append [OF sp [unfolded hb snd_conv], of _ _ "l + lat"])
        (use True [unfolded hp] in \<open>simp_all add: hp\<close>)
    then have eo: "entry_ok G ?best' ?e"
      using walk_step [OF wk edge] True by (simp add: entry_ok_def he_cost_def known_at_def)
    have "search_inv G target (Some (u, (h, l))) (add_mset ?e (items heap)) ?best'"
      using search_inv_better [OF inv [unfolded hb fst_conv snd_conv] _ le eo] True by (simp add: he_cost_def)
    with r le show ?thesis by (auto simp: hb items_push known_at_def)
  qed
qed

text \<open>All edges of a row.\<close>

lemma relax_row:
  assumes "search_inv G target (Some (u, (h, l))) (hb_items hb) (hb_best hb)"
    and "\<forall>(v, via, lat) \<in> set outs. (u, v, via, lat) \<in> G"
    and "walk G u p (h, l)" and "settled_path (hb_best hb) p"
  shows "search_inv G target (Some (u, (h, l))) (hb_items (fold (relax push h l p) outs hb))
      (hb_best (fold (relax push h l p) outs hb))
    \<and> best_le (hb_best hb) (hb_best (fold (relax push h l p) outs hb))
    \<and> (\<forall>(v, via, lat) \<in> set outs. v \<noteq> LOCAL_NODE \<longrightarrow>
          known_at (hb_best (fold (relax push h l p) outs hb)) v (Suc h, l + lat))
    \<and> (\<exists>M. hb_items (fold (relax push h l p) outs hb) = M + hb_items hb \<and> size M \<le> length outs
          \<and> (\<forall>e \<in># M. he_hops e = Suc h))"
  using assms
proof (induction outs arbitrary: hb)
  case Nil
  then show ?case by (simp add: best_le_refl)
next
  case (Cons x outs)
  obtain v via lat where x: "x = (v, via, lat)" by (rule prod_cases3)
  have edge: "(u, v, via, lat) \<in> G" using Cons.prems(2) x by auto
  let ?hb = "relax push h l p x hb"
  note one = relax_inv [OF Cons.prems(1) edge Cons.prems(3,4), folded x]
  have sp: "settled_path (hb_best ?hb) p" using settled_path_mono [OF Cons.prems(4)] one by blast
  have "\<forall>(v, via, lat) \<in> set outs. (u, v, via, lat) \<in> G" using Cons.prems(2) by simp
  note rest = Cons.IH [OF conjunct1 [OF one] this Cons.prems(3) sp]
  obtain M where M: "hb_items (fold (relax push h l p) outs ?hb) = M + hb_items ?hb" "size M \<le> length outs"
    "\<forall>e \<in># M. he_hops e = Suc h" using rest by blast
  have le: "best_le (hb_best ?hb) (hb_best (fold (relax push h l p) outs ?hb))" using rest by blast
  have "best_le (hb_best hb) (hb_best (fold (relax push h l p) outs ?hb))"
    using one le known_at_mono unfolding best_le_def by blast
  moreover have "v \<noteq> LOCAL_NODE \<longrightarrow> known_at (hb_best (fold (relax push h l p) outs ?hb)) v (Suc h, l + lat)"
    using one known_at_mono [OF _ le] by blast
  moreover have "\<exists>M. hb_items (fold (relax push h l p) outs ?hb) = M + hb_items hb
      \<and> size M \<le> length (x # outs) \<and> (\<forall>e \<in># M. he_hops e = Suc h)"
  proof (cases "hb_items ?hb = hb_items hb")
    case True
    with M show ?thesis by (intro exI [of _ M]) simp
  next
    case False
    then obtain e where "hb_items ?hb = add_mset e (hb_items hb)" "he_hops e = Suc h" using one by blast
    with M show ?thesis by (intro exI [of _ "add_mset e M"]) simp
  qed
  ultimately show ?case using rest by (simp add: x)
qed


definition state_inv :: "(string \<times> string \<times> string \<times> int) set \<Rightarrow> string \<Rightarrow> 'h path_state \<Rightarrow> bool" where
  "state_inv G target s \<longleftrightarrow>
     (case ps_found s of
        None \<Rightarrow> search_inv G target None (items (ps_heap s)) (map_of (ps_best s))
      | Some p \<Rightarrow> \<exists>c. walk G target p c \<and> (\<forall>p' c'. walk G target p' c' \<longrightarrow> c \<le> c'))"

lemma search_inv_pop:
  assumes "search_inv G target None (items heap) best" and "pop heap = Some (e, heap')"
  shows "search_inv G target (Some (he_node e, he_cost e)) (items heap') best"
  using assms(1) pop_items [OF assms(2)] unfolding search_inv_def queued_def by auto

lemma path_step_inv:
  assumes inv: "state_inv G target s" and run: "path_running pop s" and row: "row_of G graph"
  shows "state_inv G target (path_step push pop graph target s)"
proof -
  from run obtain e heap where e: "pop (ps_heap s) = Some (e, heap)" and nf: "ps_found s = None"
    by (auto simp: path_running_def)
  obtain h l u p where ent: "e = Heap_Entry h l u p" by (cases e)
  let ?best = "map_of (ps_best s)"
  have si: "search_inv G target None (items (ps_heap s)) ?best" using inv nf by (simp add: state_inv_def)
  have "e \<in># items (ps_heap s)" using pop_items [OF e] by simp
  then have eo: "entry_ok G ?best e" using si by (simp add: search_inv_def)
  then have wk: "walk G u p (h, l)" and sp: "settled_path ?best p" and kn: "known_at ?best u (h, l)"
    by (simp_all add: entry_ok_def ent he_cost_def)
  show ?thesis
  proof (cases "u = target")
    case True
    have "(h, l) \<le> c'" if w: "walk G target p' c'" for p' c'
    proof -
      obtain x where "x \<in># items (ps_heap s)" "he_cost x \<le> c'"
        using search_inv_frontier [OF si w] by blast
      moreover from this(1) have "he_cost e \<le> he_cost x" using pop_least [OF e] le_he_cost by blast
      ultimately have "he_cost e \<le> c'" using order_trans by blast
      then show ?thesis by (simp add: ent he_cost_def)
    qed
    then have "\<exists>c. walk G target p c \<and> (\<forall>p' c'. walk G target p' c' \<longrightarrow> c \<le> c')"
      using wk True by blast
    then show ?thesis using True e by (simp add: path_step_def ent state_inv_def)
  next
    case False
    let ?hb = "(heap, ps_best s)"
    let ?r = "fold (relax push h l p) (graph_row graph u) ?hb"
    have outs: "\<forall>(v, via, lat) \<in> set (graph_row graph u). (u, v, via, lat) \<in> G"
      using row by (auto simp: row_of_def)
    have si': "search_inv G target (Some (u, (h, l))) (hb_items ?hb) (hb_best ?hb)"
      using search_inv_pop [OF si e] by (simp add: ent he_cost_def)
    have "settled_path (hb_best ?hb) p" using sp by simp
    note rr = relax_row [OF si' outs wk this]
    have ex: "expanded G (hb_best ?r) u (h, l)"
      using rr row unfolding expanded_def row_of_def add_edge_def by fastforce
    have "search_inv G target None (hb_items ?r) (hb_best ?r)"
      by (rule search_inv_close [OF conjunct1 [OF rr] False ex])
    moreover obtain heap' best' where "?r = (heap', best')" by (rule prod.exhaust)
    ultimately show ?thesis using e nf False by (simp add: path_step_def ent state_inv_def)
  qed
qed


lemma path_step_weight:
  assumes inv: "state_inv G target s" and run: "path_running pop s" and row: "row_of G graph"
    and fin: "finite G" and D: "\<forall>u. length (graph_row graph u) \<le> D"
    and N: "N = card ((\<lambda>(u, v, via, lat). v) ` G)"
  shows "ps_found (path_step push pop graph target s) \<noteq> None
    \<or> weight D N (items (ps_heap (path_step push pop graph target s))) < weight D N (items (ps_heap s))"
proof -
  from run obtain e heap where e: "pop (ps_heap s) = Some (e, heap)" and nf: "ps_found s = None"
    by (auto simp: path_running_def)
  obtain h l u p where ent: "e = Heap_Entry h l u p" by (cases e)
  let ?best = "map_of (ps_best s)"
  have si: "search_inv G target None (items (ps_heap s)) ?best" using inv nf by (simp add: state_inv_def)
  have it: "items (ps_heap s) = add_mset e (items heap)" by (rule pop_items [OF e])
  then have eo: "entry_ok G ?best e" using si by (simp add: search_inv_def)
  then have wk: "walk G u p (h, l)" and sp: "settled_path ?best p"
    by (simp_all add: entry_ok_def ent he_cost_def)
  show ?thesis
  proof (cases "u = target")
    case True
    with e show ?thesis by (simp add: path_step_def ent)
  next
    case False
    let ?hb = "(heap, ps_best s)"
    let ?r = "fold (relax push h l p) (graph_row graph u) ?hb"
    have outs: "\<forall>(v, via, lat) \<in> set (graph_row graph u). (u, v, via, lat) \<in> G"
      using row by (auto simp: row_of_def)
    have si': "search_inv G target (Some (u, (h, l))) (hb_items ?hb) (hb_best ?hb)"
      using search_inv_pop [OF si e] by (simp add: ent he_cost_def)
    have "settled_path (hb_best ?hb) p" using sp by simp
    note rr = relax_row [OF si' outs wk this]
    then obtain M where M: "hb_items ?r = M + items heap" "size M \<le> length (graph_row graph u)"
      "\<forall>e \<in># M. he_hops e = Suc h" by auto
    have "Suc h \<le> N" if ne: "M \<noteq> {#}"
    proof -
      obtain x where x: "x \<in># M" using ne by blast
      then have "entry_ok G (hb_best ?r) x" using rr M(1) by (simp add: search_inv_def)
      with entry_hops_bound [OF this fin] M(3) x N show ?thesis by simp
    qed
    then have "weight D N M < (D + 1) ^ (N - h)"
      using weight_level [OF M(3)] M(2) D le_trans by blast
    then have "weight D N (hb_items ?r) < weight D N (items (ps_heap s))"
      unfolding M(1) it by (simp add: weight_def ent)
    moreover obtain heap' best' where "?r = (heap', best')" by (rule prod.exhaust)
    ultimately show ?thesis using e nf False by (simp add: path_step_def ent)
  qed
qed

lemma search_path_correct:
  assumes row: "row_of G graph" and fin: "finite G" and D: "\<forall>u. length (graph_row graph u) \<le> D"
  obtains (found) p c where "search_path push pop heap0 graph target = Some (Some p)"
      "walk G target p c" "\<And>p' c'. walk G target p' c' \<Longrightarrow> c \<le> c'"
  | (none) "search_path push pop heap0 graph target = Some None" "\<And>p' c'. \<not> walk G target p' c'"
proof -
  let ?P = "state_inv G target" and ?b = "path_running pop" and ?c = "path_step push pop graph target"
  let ?N = "card ((\<lambda>(u, v, via, lat). v) ` G)"
  let ?f = "\<lambda>s. if ps_found s \<noteq> None then 0 else Suc (weight D ?N (items (ps_heap s)))"
  have start: "?P (path_start push heap0)"
    using search_inv_start [of G target]
    by (simp add: state_inv_def path_start_def items_push items_empty fun_upd_def)
  have step: "?P (?c s) \<and> ?f (?c s) < ?f s" if "?P s" "?b s" for s
    using path_step_inv [OF that row] path_step_weight [OF that row fin D refl] that(2)
    by (auto simp: path_running_def)
  from measure_while_option_Some [of ?P ?b ?c ?f, OF step start] obtain t where
    t: "while_option ?b ?c (path_start push heap0) = Some t" by blast
  have inv: "?P t" using while_option_rule [of ?P ?b ?c, OF _ t start] step by blast
  have stop: "\<not> ?b t" using while_option_stop [OF t] .
  have res: "search_path push pop heap0 graph target = Some (ps_found t)"
    by (simp add: search_path_def t)
  show thesis
  proof (cases "ps_found t")
    case (Some p)
    with inv obtain c where c: "walk G target p c" "\<forall>p' c'. walk G target p' c' \<longrightarrow> c \<le> c'"
      unfolding state_inv_def by auto
    have "search_path push pop heap0 graph target = Some (Some p)" using res Some by simp
    from found [OF this c(1)] c(2) show thesis by blast
  next
    case None
    then have si: "search_inv G target None (items (ps_heap t)) (map_of (ps_best t))"
      using inv by (simp add: state_inv_def)
    have "items (ps_heap t) = {#}" using stop None pop_None by (simp add: path_running_def)
    then have "\<not> walk G target p' c'" for p' c'
      using search_inv_frontier [OF si, of target p' c'] by auto
    with none res None show thesis by simp
  qed
qed

end

subsection \<open>The list heap\<close>

lemma fold_min_least: "fold min es e \<in> insert e (set es) \<and> (\<forall>x \<in> insert e (set es). fold min es e \<le> x)"
  for e :: "'a :: linorder"
proof (induction es arbitrary: e)
  case Nil
  then show ?case by simp
next
  case (Cons a es)
  from Cons.IH [of "min a e"] show ?case by (auto simp: min_def split: if_splits)
qed

interpretation heap_list: min_heap heappush heappop "[]" mset
proof unfold_locales
  fix h e h' x
  assume p: "heappop h = Some (e, h')"
  then obtain a as where h: "h = a # as" and e: "e = fold min as a" "h' = remove1 e h"
    by (auto simp: heappop_def Let_def split: list.splits)
  have m: "e \<in> set h" and least: "\<forall>x \<in> set h. e \<le> x" using fold_min_least [of as a] h e(1) by auto
  from m show "mset h = add_mset e (mset h')" using e(2) by simp
  show "x \<in># mset h \<Longrightarrow> e \<le> x" using least by simp
qed (simp_all add: heappush_def heappop_def Let_def split: list.split)

subsection \<open>Properties\<close>

lemma row_of_path_graph: "row_of (set (usable_edges edges)) (path_graph edges)"
  by (force simp: row_of_def graph_row_path_graph)

lemma graph_row_length: "\<forall>u. length (graph_row (path_graph edges) u) \<le> length (usable_edges edges)"
  by (simp add: graph_row_path_graph)

lemma find_path_correct:
  obtains (found) p c where "find_path topology target = Some (Some p)"
      "walk (set (usable_edges (tr_edges topology))) target p c"
      "\<And>p' c'. walk (set (usable_edges (tr_edges topology))) target p' c' \<Longrightarrow> c \<le> c'"
  | (none) "find_path topology target = Some None"
      "\<And>p' c'. \<not> walk (set (usable_edges (tr_edges topology))) target p' c'"
  unfolding find_path_def
  by (rule heap_list.search_path_correct [OF row_of_path_graph finite_set graph_row_length]) blast+

text \<open>C19: \<open>find_path\<close> always returns: no matrix, whatever its latencies and however its edges repeat or
  form cycles, keeps the loop going for ever; and it returns \<open>None\<close> exactly when no walk over usable
  edges leads from \<open>local\<close> to the target.\<close>

theorem find_path_returns:
  "\<exists>res. find_path topology target = Some res
     \<and> (res = None \<longleftrightarrow> \<not> (\<exists>p c. walk (set (usable_edges (tr_edges topology))) target p c))"
  by (rule find_path_correct [of topology target]) auto

text \<open>C20: The path \<open>find_path\<close> returns is a walk from \<open>local\<close> to the target over usable edges, each hop
  with the address that won that edge, and no other walk has fewer hops, nor as many hops with a
  smaller sum of latencies.\<close>

theorem find_path_optimal:
  assumes "find_path topology target = Some (Some path)"
  shows "\<exists>lat. walk (set (usable_edges (tr_edges topology))) target path (length path, lat)
    \<and> (\<forall>path' hops' lat'. walk (set (usable_edges (tr_edges topology))) target path' (hops', lat')
         \<longrightarrow> length path < hops' \<or> length path = hops' \<and> lat \<le> lat')"
proof (rule find_path_correct [of topology target])
  fix p c
  assume "find_path topology target = Some (Some p)"
    and w: "walk (set (usable_edges (tr_edges topology))) target p c"
    and opt: "\<And>p' c'. walk (set (usable_edges (tr_edges topology))) target p' c' \<Longrightarrow> c \<le> c'"
  with assms have p: "p = path" by simp
  have c: "c = (length path, snd c)" using walk_length [OF w] p by (cases c) simp
  have "length path < h \<or> length path = h \<and> snd c \<le> l"
    if "walk (set (usable_edges (tr_edges topology))) target p' (h, l)" for p' h l
    using opt [OF that] by (subst (asm) c) auto
  with w p c show ?thesis by metis
qed (use assms in simp)

definition example_edge :: "string \<Rightarrow> string \<Rightarrow> string \<Rightarrow> int \<Rightarrow> topology_edge" where
  "example_edge u v addr lat = \<lparr>te_from_node = u, te_to_node = v, te_reachable = True, te_via = Some addr,
     te_addresses = [\<lparr>ap_addr = addr, ap_port = 22, ap_state = AS_reachable, ap_latency_ms = Some lat,
       ap_is_ssh = True\<rparr>], te_source_state = SS_ok\<rparr>"

definition example_topology :: topology_result where
  "example_topology = \<lparr>tr_scanned_at = 0, tr_nodes = [],
     tr_edges = [example_edge ''local'' ''a'' ''10.0.0.1'' 900, example_edge ''local'' ''b'' ''10.0.0.2'' 100,
       example_edge ''a'' ''b'' ''10.1.0.2'' 10, example_edge ''a'' ''c'' ''10.1.0.3'' 20,
       example_edge ''b'' ''c'' ''10.2.0.3'' 500, example_edge ''c'' ''a'' ''10.3.0.1'' 1], tr_adjacency = []\<rparr>"

lemma find_path_optimal_witness:
  "\<exists>lat. walk (set (usable_edges (tr_edges example_topology))) ''c'' [(''b'', ''10.0.0.2''), (''c'', ''10.2.0.3'')] (2, lat)"
proof -
  have "find_path example_topology ''c'' = Some (Some [(''b'', ''10.0.0.2''), (''c'', ''10.2.0.3'')])"
    by code_simp
  from find_path_optimal [OF this] show ?thesis by (auto simp: numeral_2_eq_2)
qed

end
