(* ===== verification/Topology.thy ===== *)
theory Topology
  imports Pathfind Registry
begin

section \<open>Topology scan (\<open>topology.py\<close>)\<close>

text \<open>
  The harvest parsers, the probes and the scan that fills the reachability matrix. What the network
  answers is the record \<open>scan_env\<close>: the outcome of connecting to a node and running the two harvest
  commands on it, whether a node serves as a source, and how a dial from a source ends. The probes
  run concurrently in the code; their results do not depend on each other, so the rows are maps.
\<close>

subsection \<open>IPv4 addresses (\<open>ipaddress\<close>)\<close>

text \<open>An octet: one to three decimal digits, no leading zero, at most 255.\<close>

definition ipv4_octet :: "string \<Rightarrow> nat option" where
  "ipv4_octet s =
     (if s \<noteq> [] \<and> list_all is_dec s \<and> length s \<le> 3 \<and> (s = ''0'' \<or> hd s \<noteq> CHR ''0'')
      then (case py_nat s of Some n \<Rightarrow> if n \<le> 255 then Some n else None | None \<Rightarrow> None)
      else None)"

definition ipv4_parse :: "string \<Rightarrow> nat list option" where
  "ipv4_parse s =
     (let octets = map ipv4_octet (split_on (CHR ''.'') s)
      in if length octets = 4 \<and> list_all (\<lambda>x. x \<noteq> None) octets then Some (map the octets) else None)"

definition ipv4_loopback :: "nat list \<Rightarrow> bool" where
  "ipv4_loopback ip \<longleftrightarrow> hd ip = 127"

definition ipv4_link_local :: "nat list \<Rightarrow> bool" where
  "ipv4_link_local ip \<longleftrightarrow> hd ip = 169 \<and> ip ! 1 = 254"

subsection \<open>Harvest parsers\<close>

definition skip_iface :: "string \<Rightarrow> bool" where
  "skip_iface name =
     (let lowered = lower name
      in list_ex (\<lambda>p. lowered = p \<or> startswith lowered p) [''lo'', ''docker'', ''br-'', ''veth''])"

text \<open>The callers pass dotted decimals only, so that IPv6 does not arise.\<close>

definition skip_addr :: "string \<Rightarrow> bool" where
  "skip_addr addr =
     (case ipv4_parse addr of None \<Rightarrow> True | Some ip \<Rightarrow> ipv4_loopback ip \<or> ipv4_link_local ip)"

definition keep_addr :: "string \<Rightarrow> string \<Rightarrow> bool" where
  "keep_addr name addr \<longleftrightarrow> \<not> skip_iface name \<and> \<not> skip_addr addr"

text \<open>\<open>^\d+:\s+(\S+)\s+inet\s+([0-9.]+)\<close>: every repetition ends where the next item begins.\<close>

definition linux_addr_match :: "string \<Rightarrow> (string \<times> string) option" where
  "linux_addr_match line =
     (let digits = takeWhile is_dec line; r1 = dropWhile is_dec line
      in if digits = [] \<or> r1 = [] \<or> hd r1 \<noteq> CHR '':'' then None
         else
           let r2 = tl r1; sp = takeWhile is_space r2; r3 = dropWhile is_space r2;
               name = takeWhile (\<lambda>c. \<not> is_space c) r3; r4 = dropWhile (\<lambda>c. \<not> is_space c) r3;
               sp2 = takeWhile is_space r4; r5 = dropWhile is_space r4
           in if sp = [] \<or> name = [] \<or> sp2 = [] \<or> \<not> startswith r5 ''inet'' then None
              else
                let r6 = drop 4 r5; sp3 = takeWhile is_space r6; r7 = dropWhile is_space r6;
                    addr = takeWhile (\<lambda>c. is_dec c \<or> c = CHR ''.'') r7
                in if sp3 = [] \<or> addr = [] then None else Some (name, addr))"

definition add_seen :: "string \<Rightarrow> string list \<Rightarrow> string list" where
  "add_seen x xs = (if x \<in> set xs then xs else xs @ [x])"

definition parse_linux_addrs :: "string \<Rightarrow> string list" where
  "parse_linux_addrs out =
     fold (\<lambda>line addrs.
         case linux_addr_match (strip line) of
           None \<Rightarrow> addrs
         | Some (name, addr) \<Rightarrow> if keep_addr name addr then add_seen addr addrs else addrs)
       (splitlines out) []"

text \<open>\<open>re.split(r"[\s,]+", line)\<close>: empty strings at the ends stay.\<close>

fun split_seps :: "bool \<Rightarrow> string \<Rightarrow> string \<Rightarrow> string list" where
  "split_seps in_sep cur [] = [rev cur]"
| "split_seps in_sep cur (c # cs) =
     (if is_space c \<or> c = CHR '','' then
        (if in_sep then split_seps True cur cs else rev cur # split_seps True [] cs)
      else split_seps False (c # cur) cs)"

definition re_split_seps :: "string \<Rightarrow> string list" where
  "re_split_seps s = split_seps False [] s"

definition windows_line :: "string \<Rightarrow> string list \<Rightarrow> string list" where
  "windows_line raw addrs =
     (let line = strip_char (CHR 0x22) (strip raw)
      in if line = [] then addrs
         else
           (case re_split_seps line of
              [] \<Rightarrow> addrs
            | t # toks \<Rightarrow>
                let name = strip_char (CHR 0x22) t
                in fold (\<lambda>tok0 addrs.
                     let tok = strip_char (CHR 0x22) tok0
                     in if ipv4_parse tok \<noteq> None \<and> keep_addr name tok then add_seen tok addrs else addrs)
                   toks addrs))"

definition parse_windows_addrs :: "string \<Rightarrow> string list" where
  "parse_windows_addrs out = fold windows_line (splitlines out) []"

subsection \<open>Reading command output up to a cap\<close>

definition HARVEST_MAX_BYTES :: nat where
  "HARVEST_MAX_BYTES = 1048576"

definition HARVEST_READ_CHUNK :: nat where
  "HARVEST_READ_CHUNK = 65536"

text \<open>
  The remote process offers its output in pieces; \<open>read(want)\<close> returns at most \<open>want\<close> characters of
  the next piece, and the empty string at the end.
\<close>

function run_capped :: "nat \<Rightarrow> string list \<Rightarrow> string" where
  "run_capped got pieces =
     (if HARVEST_MAX_BYTES \<le> got then []
      else
        (case pieces of
           [] \<Rightarrow> []
         | piece # rest \<Rightarrow>
             let want = min HARVEST_READ_CHUNK (HARVEST_MAX_BYTES - got);
                 data = take want piece
             in if data = [] then []
                else data @ run_capped (got + length data)
                       (if drop want piece = [] then rest else drop want piece # rest)))"
  by pat_completeness auto
termination
  by (relation "measure (\<lambda>(got, pieces). HARVEST_MAX_BYTES - got)") (auto intro!: diff_less_mono2)

declare run_capped.simps [simp del]

text \<open>
  \<open>harvest_addresses\<close>, given how the two commands end: an error of the first that is not caught
  (anything but a timeout, an asyncssh or an OS error) propagates, as does any of the second.
\<close>

definition harvest_addresses :: "string list result \<Rightarrow> string list result \<Rightarrow> string list result" where
  "harvest_addresses linux_run windows_run =
     (let fallback = (case windows_run of
                        Inl e \<Rightarrow> Inl e
                      | Inr pieces \<Rightarrow> Inr (parse_windows_addrs (run_capped 0 pieces)))
      in case linux_run of
           Inl e \<Rightarrow> if is_asyncssh_Error e \<or> is_OSError e then fallback else Inl e
         | Inr pieces \<Rightarrow>
             let addrs = parse_linux_addrs (run_capped 0 pieces)
             in if addrs \<noteq> [] then Inr addrs else fallback)"

subsection \<open>Probes and cells\<close>

fun classify_error :: "py_exn \<Rightarrow> address_state" where
  "classify_error (AsyncsshChannelOpenError c) = (if c = 1 then AS_forwarding_disabled else AS_refused)"
| "classify_error PyTimeoutError = AS_filtered"
| "classify_error _ = AS_refused"

text \<open>A dial that succeeds: its latency in hundredths of a millisecond and what the banner read gave,
  the data or one of the exceptions \<open>_read_banner\<close> catches.\<close>

type_synonym dial_result = "(int \<times> string result) result"

definition read_banner :: "string result \<Rightarrow> bool" where
  "read_banner banner =
     (case banner of Inl _ \<Rightarrow> False | Inr data \<Rightarrow> data \<noteq> [] \<and> startswith data ''SSH-'')"

definition probe_address :: "dial_result \<Rightarrow> string \<Rightarrow> int \<Rightarrow> address_probe" where
  "probe_address dialled addr port =
     (case dialled of
        Inl e \<Rightarrow> \<lparr>ap_addr = addr, ap_port = port, ap_state = classify_error e, ap_latency_ms = None,
                  ap_is_ssh = False\<rparr>
      | Inr (latency, banner) \<Rightarrow>
          \<lparr>ap_addr = addr, ap_port = port, ap_state = AS_reachable, ap_latency_ms = Some latency,
           ap_is_ssh = read_banner banner\<rparr>)"

text \<open>\<open>min(probes, key=latency)\<close> keeps the first of equals; a missing latency counts as infinite.\<close>

definition latency_less :: "address_probe \<Rightarrow> address_probe \<Rightarrow> bool" where
  "latency_less p q =
     (case ap_latency_ms p of
        None \<Rightarrow> False
      | Some a \<Rightarrow> (case ap_latency_ms q of None \<Rightarrow> True | Some b \<Rightarrow> a < b))"

definition best_probe :: "address_probe \<Rightarrow> address_probe list \<Rightarrow> address_probe" where
  "best_probe p ps = fold (\<lambda>q best. if latency_less q best then q else best) ps p"

definition aggregate_cell :: "string \<Rightarrow> string \<Rightarrow> address_probe list \<Rightarrow> topology_edge" where
  "aggregate_cell from_node to_node probes =
     (let reachable = filter (\<lambda>p. ap_state p = AS_reachable) probes
      in \<lparr>te_from_node = from_node, te_to_node = to_node, te_reachable = (reachable \<noteq> []),
          te_via = (case reachable of [] \<Rightarrow> None | p # ps \<Rightarrow> Some (ap_addr (best_probe p ps))),
          te_addresses = probes, te_source_state = SS_ok\<rparr>)"

subsection \<open>Node selection\<close>

text \<open>\<open>^_.+_hop\d+$\<close>: the digits at the end (a line feed may follow), \<open>_hop\<close> before them, and at
  least one character that is no line feed between that and the leading underscore.\<close>

definition is_internal_hop :: "string \<Rightarrow> bool" where
  "is_internal_hop name =
     (let body = (if name \<noteq> [] \<and> code (last name) = 10 then butlast name else name);
          digits = takeWhile is_dec (rev body); front = rev (dropWhile is_dec (rev body));
          mid = drop 1 (take (length front - 4) front)
      in digits \<noteq> [] \<and> length front > 5 \<and> hd front = CHR ''_'' \<and> drop (length front - 4) front = ''_hop''
         \<and> list_all (\<lambda>c. code c \<noteq> 10) mid)"

definition select_nodes :: "server_config list \<Rightarrow> string list option \<Rightarrow> string list option \<Rightarrow> server_config list" where
  "select_nodes servers incl excl =
     filter (\<lambda>cfg. \<not> is_internal_hop (sc_name cfg)
         \<and> (case incl of Some (n # ns) \<Rightarrow> sc_name cfg \<in> set (n # ns) | _ \<Rightarrow> True)
         \<and> (case excl of Some ns \<Rightarrow> sc_name cfg \<notin> set ns | None \<Rightarrow> True)) servers"

subsection \<open>The scan\<close>

record scan_env =
  sv_connect :: "string \<Rightarrow> py_exn option"
  sv_harvest_linux :: "string \<Rightarrow> string list result"
  sv_harvest_windows :: "string \<Rightarrow> string list result"
  sv_source :: "string \<Rightarrow> py_exn option"
  sv_dial :: "string \<Rightarrow> string \<Rightarrow> int \<Rightarrow> dial_result"
  sv_now :: int

definition harvest_node :: "scan_env \<Rightarrow> server_config \<Rightarrow> topology_node" where
  "harvest_node env cfg =
     (let node = \<lparr>tn_name = sc_name cfg, tn_host = sc_host cfg, tn_port = sc_port cfg,
                  tn_candidate_addrs = [sc_host cfg], tn_harvested = False, tn_harvest_failed = False,
                  tn_source_only = False\<rparr>
      in case sv_connect env (sc_name cfg) of
           Some _ \<Rightarrow> node\<lparr>tn_harvest_failed := True\<rparr>
         | None \<Rightarrow>
             (case harvest_addresses (sv_harvest_linux env (sc_name cfg)) (sv_harvest_windows env (sc_name cfg)) of
                Inl _ \<Rightarrow> node\<lparr>tn_harvest_failed := True\<rparr>
              | Inr harvested \<Rightarrow>
                  node\<lparr>tn_candidate_addrs := fold add_seen harvested [sc_host cfg], tn_harvested := True\<rparr>))"

text \<open>\<open>dialer\<close> is \<open>None\<close> for a source that could not be connected. \<open>port_of\<close> has every target.\<close>

definition scan_row ::
    "string \<Rightarrow> (string \<Rightarrow> int \<Rightarrow> dial_result) option \<Rightarrow> topology_node list \<Rightarrow> (string, int) dict
      \<Rightarrow> topology_edge list" where
  "scan_row source dialer targets port_of =
     (let others = filter (\<lambda>t. tn_name t \<noteq> source) targets
      in case dialer of
           None \<Rightarrow>
             map (\<lambda>t. \<lparr>te_from_node = source, te_to_node = tn_name t, te_reachable = False, te_via = None,
                       te_addresses = [], te_source_state = SS_source_unreachable\<rparr>) others
         | Some dial \<Rightarrow>
             let rows = map (\<lambda>t. let port = the (map_of port_of (tn_name t))
                                 in (tn_name t, map (\<lambda>a. probe_address (dial a port) a port) (tn_candidate_addrs t)))
                          others;
                 edges = map (\<lambda>(n, probes). aggregate_cell source n probes) rows
             in if list_ex (\<lambda>(n, probes). list_ex (\<lambda>p. ap_state p = AS_forwarding_disabled) probes) rows
                then map (\<lambda>e. e\<lparr>te_source_state := SS_forwarding_disabled, te_reachable := False,
                                te_via := None\<rparr>) edges
                else edges)"

definition build_adjacency :: "topology_edge list \<Rightarrow> (string, string list) dict" where
  "build_adjacency edges =
     map (\<lambda>(k, v). (k, sort v))
       (fold (\<lambda>e adj. if te_reachable e
                then dict_set (te_from_node e)
                       ((case map_of adj (te_from_node e) of None \<Rightarrow> [] | Some l \<Rightarrow> l) @ [te_to_node e]) adj
                else adj) edges [])"

definition scan_topology ::
    "scan_env \<Rightarrow> server_config list \<Rightarrow> string list option \<Rightarrow> string list option \<Rightarrow> topology_result" where
  "scan_topology env servers incl excl =
     (let configs = select_nodes servers incl excl;
          nodes = map (harvest_node env) configs;
          port_of = fold (\<lambda>n. dict_set (tn_name n) (tn_port n)) nodes [];
          local_edges = scan_row LOCAL_NODE (Some (sv_dial env LOCAL_NODE)) nodes port_of;
          edges = local_edges @ concat (map (\<lambda>n.
              scan_row (tn_name n)
                (case sv_source env (tn_name n) of None \<Rightarrow> Some (sv_dial env (tn_name n)) | Some _ \<Rightarrow> None)
                nodes port_of) nodes)
      in \<lparr>tr_scanned_at = sv_now env, tr_nodes = nodes, tr_edges = edges,
          tr_adjacency = build_adjacency edges\<rparr>)"

definition path_gap_report :: "topology_result \<Rightarrow> string \<Rightarrow> reply" where
  "path_gap_report topology target =
     (let from_local = sort (case map_of (tr_adjacency topology) LOCAL_NODE of None \<Rightarrow> [] | Some l \<Rightarrow> l);
          anywhere = sort (remdups (map te_to_node (filter te_reachable (tr_edges topology))))
      in [(''reachable_from_local'', JStrs from_local), (''reachable_anywhere'', JStrs anywhere),
          (''target_reachable_anywhere'', JBool (target \<in> set anywhere))])"

subsection \<open>Facts\<close>

fun_cases filteredE: "classify_error e = AS_filtered" and forwardingE: "classify_error e = AS_forwarding_disabled"

text \<open>What the state of a probe says about its dial: only a timeout counts as filtered, and only the reason
  code 1 of a refused channel as forwarding switched off.\<close>

lemma probe_address_state:
  "ap_state (probe_address d addr port) = AS_filtered \<longleftrightarrow> d = Inl PyTimeoutError"
  "ap_state (probe_address d addr port) = AS_forwarding_disabled \<longleftrightarrow> d = Inl (AsyncsshChannelOpenError 1)"
  "ap_state (probe_address d addr port) = AS_reachable \<longleftrightarrow> (\<exists>x. d = Inr x)"
proof -
  have "classify_error e \<noteq> AS_reachable" for e by (cases e rule: classify_error.cases) simp_all
  then show "ap_state (probe_address d addr port) = AS_filtered \<longleftrightarrow> d = Inl PyTimeoutError"
    "ap_state (probe_address d addr port) = AS_forwarding_disabled \<longleftrightarrow> d = Inl (AsyncsshChannelOpenError 1)"
    "ap_state (probe_address d addr port) = AS_reachable \<longleftrightarrow> (\<exists>x. d = Inr x)"
    by (auto simp: probe_address_def elim!: filteredE forwardingE split: sum.splits if_splits)
qed

lemma take_drop_pieces:
  "take n (concat pieces) = take n (take k (hd pieces) @ drop k (hd pieces) @ concat (tl pieces))"
  if "pieces \<noteq> []"
  using that by (cases pieces) (simp_all add: append_assoc [symmetric] del: append_assoc)

lemma run_capped_take:
  assumes "[] \<notin> set pieces"
  shows "run_capped got pieces = take (HARVEST_MAX_BYTES - got) (concat pieces)"
  using assms
proof (induction got pieces rule: run_capped.induct)
  case (1 got pieces)
  show ?case
  proof (cases "HARVEST_MAX_BYTES \<le> got \<or> pieces = []")
    case True
    then show ?thesis by (subst run_capped.simps) auto
  next
    case False
    then obtain piece rest where p: "pieces = piece # rest" by (cases pieces) auto
    let ?want = "min HARVEST_READ_CHUNK (HARVEST_MAX_BYTES - got)"
    let ?data = "take ?want piece"
    let ?rest = "if drop ?want piece = [] then rest else drop ?want piece # rest"
    have "0 < HARVEST_READ_CHUNK" by (simp add: HARVEST_READ_CHUNK_def)
    then have d: "?data \<noteq> []" using False p "1.prems" by auto
    have w: "min HARVEST_READ_CHUNK (HARVEST_MAX_BYTES - got) \<noteq> 0"
      using False \<open>0 < HARVEST_READ_CHUNK\<close> by simp
    have le: "length ?data \<le> HARVEST_MAX_BYTES - got" by simp
    have "run_capped got pieces = ?data @ run_capped (got + length ?data) ?rest"
      using False d unfolding p
      by (simp only: run_capped.simps [of got "piece # rest"] Let_def de_Morgan_disj if_False list.case simp_thms)
    also have "run_capped (got + length ?data) ?rest
        = take (HARVEST_MAX_BYTES - (got + length ?data)) (concat ?rest)"
      using "1.IH" [of piece rest ?want ?data] False p d "1.prems" by auto
    also have "concat ?rest = drop ?want piece @ concat rest" by simp
    also have "?data @ take (HARVEST_MAX_BYTES - (got + length ?data)) (drop ?want piece @ concat rest)
        = take (HARVEST_MAX_BYTES - got) (?data @ drop ?want piece @ concat rest)"
      using le by (simp only: take_append) simp
    also have "?data @ drop ?want piece @ concat rest = concat pieces"
      using p by (simp add: append_assoc [symmetric] del: append_assoc)
    finally show ?thesis .
  qed
qed

lemma set_fold_add_seen [simp]: "set (fold add_seen xs ys) = set xs \<union> set ys"
  by (induction xs arbitrary: ys) (auto simp: add_seen_def)

lemma distinct_add_seen [simp]: "distinct xs \<Longrightarrow> distinct (add_seen x xs)"
  by (simp add: add_seen_def)

lemma best_probe_in: "best_probe p ps \<in> insert p (set ps)"
proof (induction ps arbitrary: p)
  case (Cons q ps)
  from Cons.IH [of "if latency_less q p then q else p"] show ?case
    by (auto simp: best_probe_def split: if_splits)
qed (simp add: best_probe_def)

lemma latency_not_less_trans:
  "\<not> latency_less q p \<Longrightarrow> \<not> latency_less r q \<Longrightarrow> \<not> latency_less r p"
  by (auto simp: latency_less_def split: option.splits)

lemma latency_less_asym: "latency_less q p \<Longrightarrow> \<not> latency_less p q"
  by (auto simp: latency_less_def split: option.splits)

lemma best_probe_least: "x \<in> insert p (set ps) \<Longrightarrow> \<not> latency_less x (best_probe p ps)"
proof (induction ps arbitrary: p x)
  case Nil
  then show ?case by (auto simp: best_probe_def dest: latency_less_asym)
next
  case (Cons q ps)
  let ?m = "if latency_less q p then q else p"
  have r: "best_probe p (q # ps) = best_probe ?m ps" by (simp add: best_probe_def)
  have m: "\<not> latency_less ?m (best_probe ?m ps)" using Cons.IH by blast
  have "\<not> latency_less p ?m" "\<not> latency_less q ?m"
    using latency_less_asym by (auto dest: latency_less_asym)
  then have "\<not> latency_less p (best_probe ?m ps)" "\<not> latency_less q (best_probe ?m ps)"
    using latency_not_less_trans [OF m] by blast+
  with Cons r show ?case by auto
qed

lemma port_of_nodes:
  assumes "distinct (map tn_name nodes)" and "n \<in> set nodes"
  shows "map_of (fold (\<lambda>n. dict_set (tn_name n) (tn_port n)) nodes d) (tn_name n) = Some (tn_port n)"
  using assms
proof (induction nodes arbitrary: d)
  case (Cons a nodes)
  have keep: "map_of (fold (\<lambda>n. dict_set (tn_name n) (tn_port n)) nodes d) k = map_of d k"
    if "k \<notin> tn_name ` set nodes" for d k
    using that by (induction nodes arbitrary: d) auto
  show ?case using Cons keep [of "tn_name a" "dict_set (tn_name a) (tn_port a) d"] by auto
qed simp

text \<open>What a row says of a reachable edge.\<close>

definition edge_evidence :: "(string \<Rightarrow> int \<Rightarrow> dial_result) \<Rightarrow> topology_node \<Rightarrow> topology_edge \<Rightarrow> bool" where
  "edge_evidence dial target e \<longleftrightarrow> te_source_state e = SS_ok
     \<and> (\<exists>via lat banner. te_via e = Some via \<and> via \<in> set (tn_candidate_addrs target)
          \<and> dial via (tn_port target) = Inr (lat, banner)
          \<and> (\<forall>a \<in> set (tn_candidate_addrs target). \<forall>l b.
               dial a (tn_port target) = Inr (l, b) \<longrightarrow> lat \<le> l))"

lemma aggregate_reachable:
  assumes "te_reachable (aggregate_cell s n (map (\<lambda>a. probe_address (dial a p) a p) addrs))"
  shows "\<exists>via lat banner.
      te_via (aggregate_cell s n (map (\<lambda>a. probe_address (dial a p) a p) addrs)) = Some via
      \<and> via \<in> set addrs \<and> dial via p = Inr (lat, banner)
      \<and> (\<forall>a \<in> set addrs. \<forall>l b. dial a p = Inr (l, b) \<longrightarrow> lat \<le> l)"
proof -
  let ?probes = "map (\<lambda>a. probe_address (dial a p) a p) addrs"
  obtain q qs where f: "filter (\<lambda>p. ap_state p = AS_reachable) ?probes = q # qs"
    using assms by (cases "filter (\<lambda>p. ap_state p = AS_reachable) ?probes") (auto simp: aggregate_cell_def)
  have ok: "x \<in> set (q # qs) \<longleftrightarrow> (\<exists>a \<in> set addrs. x = probe_address (dial a p) a p \<and> ap_state x = AS_reachable)" for x
    unfolding f [symmetric] by auto
  have reach: "ap_state (probe_address (dial a p) a p) = AS_reachable \<longleftrightarrow> (\<exists>l b. dial a p = Inr (l, b))" for a
    by (simp add: probe_address_state(3))
  let ?b = "best_probe q qs"
  have "?b \<in> set (q # qs)" using best_probe_in [of q qs] by simp
  then obtain a l b where a: "a \<in> set addrs" "?b = probe_address (dial a p) a p" "dial a p = Inr (l, b)"
    using ok reach by metis
  then have b: "ap_addr ?b = a" "ap_latency_ms ?b = Some l" by (simp_all add: probe_address_def)
  have "l \<le> l'" if "a' \<in> set addrs" "dial a' p = Inr (l', b')" for a' l' b'
  proof -
    let ?x = "probe_address (dial a' p) a' p"
    have "?x \<in> set (q # qs)" using that ok reach by blast
    then have "\<not> latency_less ?x ?b" using best_probe_least [of ?x q qs] by simp
    then show ?thesis using b that by (simp add: latency_less_def probe_address_def)
  qed
  with a b f show ?thesis by (auto simp: aggregate_cell_def)
qed

lemma harvest_node_sel [simp]:
  "tn_name (harvest_node env cfg) = sc_name cfg" "tn_port (harvest_node env cfg) = sc_port cfg"
  "tn_host (harvest_node env cfg) = sc_host cfg"
  by (simp_all add: harvest_node_def Let_def split: option.split sum.split)

lemma scan_row_ends:
  "map (\<lambda>e. (te_from_node e, te_to_node e)) (scan_row s dialer targets port_of)
     = map (\<lambda>t. (s, t)) (filter (\<lambda>t. t \<noteq> s) (map tn_name targets))"
  by (cases dialer) (simp_all add: scan_row_def Let_def o_def aggregate_cell_def filter_map case_prod_beta)

lemma scan_row_reachable:
  assumes "e \<in> set (scan_row s dialer targets port_of)" and "te_reachable e"
  shows "\<exists>dial t. dialer = Some dial \<and> t \<in> set targets \<and> tn_name t \<noteq> s
    \<and> e = aggregate_cell s (tn_name t) (map (\<lambda>a. probe_address (dial a (the (map_of port_of (tn_name t)))) a
            (the (map_of port_of (tn_name t)))) (tn_candidate_addrs t))
    \<and> (\<forall>t' \<in> set targets. tn_name t' \<noteq> s \<longrightarrow> (\<forall>a \<in> set (tn_candidate_addrs t').
          ap_state (probe_address (dial a (the (map_of port_of (tn_name t')))) a
            (the (map_of port_of (tn_name t')))) \<noteq> AS_forwarding_disabled))"
proof (cases dialer)
  case None
  with assms show ?thesis by (auto simp: scan_row_def Let_def)
next
  case (Some dial)
  let ?others = "filter (\<lambda>t. tn_name t \<noteq> s) targets"
  let ?probes = "\<lambda>t. map (\<lambda>a. probe_address (dial a (the (map_of port_of (tn_name t)))) a
            (the (map_of port_of (tn_name t)))) (tn_candidate_addrs t)"
  let ?bad = "list_ex (\<lambda>t. list_ex (\<lambda>p. ap_state p = AS_forwarding_disabled) (?probes t)) ?others"
  have r: "scan_row s dialer targets port_of =
     (let edges = map (\<lambda>t. aggregate_cell s (tn_name t) (?probes t)) ?others
      in if ?bad then map (\<lambda>e. e\<lparr>te_source_state := SS_forwarding_disabled, te_reachable := False,
                                te_via := None\<rparr>) edges else edges)"
    by (auto simp: scan_row_def Some Let_def o_def case_prod_beta list_ex_iff)
  have nb: "\<not> ?bad" using assms r by (auto simp: Let_def split: if_splits)
  have "scan_row s dialer targets port_of = map (\<lambda>t. aggregate_cell s (tn_name t) (?probes t)) ?others"
    using nb unfolding r Let_def by (rule if_not_P)
  with assms(1) obtain t where t: "t \<in> set targets" "tn_name t \<noteq> s" "e = aggregate_cell s (tn_name t) (?probes t)"
    by auto
  have "\<forall>t' \<in> set targets. tn_name t' \<noteq> s \<longrightarrow> (\<forall>a \<in> set (tn_candidate_addrs t').
      ap_state (probe_address (dial a (the (map_of port_of (tn_name t')))) a
        (the (map_of port_of (tn_name t')))) \<noteq> AS_forwarding_disabled)"
    using nb by (auto simp: list_ex_iff)
  with t Some show ?thesis by blast
qed

definition clean_addrs :: "string list \<Rightarrow> bool" where
  "clean_addrs xs \<longleftrightarrow> distinct xs \<and> (\<forall>a \<in> set xs. \<not> skip_addr a)"

lemma clean_addrs_Nil: "clean_addrs []"
  by (simp add: clean_addrs_def)

lemma clean_add: "clean_addrs xs \<Longrightarrow> \<not> skip_addr a \<Longrightarrow> clean_addrs (add_seen a xs)"
  by (auto simp: clean_addrs_def add_seen_def)

lemma clean_fold:
  assumes "\<And>x xs. clean_addrs xs \<Longrightarrow> clean_addrs (f x xs)" and "clean_addrs xs"
  shows "clean_addrs (fold f ys xs)"
  using assms(2) by (induction ys arbitrary: xs) (simp_all add: assms(1))

lemma clean_windows_line: "clean_addrs xs \<Longrightarrow> clean_addrs (windows_line raw xs)"
  unfolding windows_line_def Let_def
  by (auto split: list.split intro!: clean_fold intro: clean_add simp: keep_addr_def)

subsection \<open>Properties\<close>

text \<open>The scan covers the whole matrix: its edges are, in this order, one from \<open>local\<close> and one from
  each selected server to each other selected server, whatever the network answers.\<close>

theorem scan_matrix_complete:
  "map (\<lambda>e. (te_from_node e, te_to_node e)) (tr_edges (scan_topology env servers incl excl))
     = concat (map (\<lambda>s. map (\<lambda>t. (s, t)) (filter (\<lambda>t. t \<noteq> s) (map sc_name (select_nodes servers incl excl))))
         (LOCAL_NODE # map sc_name (select_nodes servers incl excl)))"
  by (simp add: scan_topology_def Let_def map_concat scan_row_ends o_def)

text \<open>C21: An edge marked reachable is backed by evidence: the source could be dialled from, \<open>via\<close> is a
  candidate address of the target at which a dial to the target's port succeeded, no other candidate
  answered faster, and no dial of that source was refused for disabled forwarding.\<close>

theorem scan_edge_sound:
  assumes "e \<in> set (tr_edges (scan_topology env servers incl excl))" and "te_reachable e"
    and "distinct (map sc_name (select_nodes servers incl excl))"
  shows "\<exists>t \<in> set (tr_nodes (scan_topology env servers incl excl)). te_to_node e = tn_name t
    \<and> edge_evidence (sv_dial env (te_from_node e)) t e
    \<and> (te_from_node e = LOCAL_NODE \<or> sv_source env (te_from_node e) = None)"
proof -
  let ?nodes = "map (harvest_node env) (select_nodes servers incl excl)"
  let ?ports = "fold (\<lambda>n. dict_set (tn_name n) (tn_port n)) ?nodes []"
  have nodes: "tr_nodes (scan_topology env servers incl excl) = ?nodes"
    by (simp add: scan_topology_def Let_def)
  have port: "the (map_of ?ports (tn_name t)) = tn_port t" if "t \<in> set ?nodes" for t
    using port_of_nodes [of ?nodes t "[]"] that assms(3) by (simp add: o_def)
  obtain s dialer where row: "e \<in> set (scan_row s dialer ?nodes ?ports)"
    and src: "\<And>dial. dialer = Some dial \<Longrightarrow> dial = sv_dial env s \<and> (s = LOCAL_NODE \<or> sv_source env s = None)"
    using assms(1) by (auto simp: scan_topology_def Let_def split: option.splits)
  from scan_row_reachable [OF row assms(2)] obtain dial t where t: "dialer = Some dial" "t \<in> set ?nodes"
    and e: "e = aggregate_cell s (tn_name t) (map (\<lambda>a. probe_address (dial a (the (map_of ?ports (tn_name t)))) a
            (the (map_of ?ports (tn_name t)))) (tn_candidate_addrs t))" by blast
  note e' = e [unfolded port [OF t(2)]]
  have ends: "te_from_node e = s" "te_to_node e = tn_name t" "te_source_state e = SS_ok"
    using e' by (simp_all add: aggregate_cell_def Let_def)
  from aggregate_reachable [of s "tn_name t" dial "tn_port t" "tn_candidate_addrs t"] assms(2) e'
  have "edge_evidence dial t e" using ends unfolding edge_evidence_def by auto
  with src [OF t(1)] t ends show ?thesis unfolding nodes by auto
qed

definition example_scan :: scan_env where
  "example_scan =
     \<lparr>sv_connect = (\<lambda>n. Some PyOSError), sv_harvest_linux = (\<lambda>n. Inr []),
      sv_harvest_windows = (\<lambda>n. Inr []), sv_source = (\<lambda>n. None),
      sv_dial = (\<lambda>s a p. if a = ''h2'' then Inr (50, Inr ''SSH-2.0'') else Inl PyTimeoutError),
      sv_now = 0\<rparr>"

definition example_servers :: "server_config list" where
  "example_servers = [ServerConfig ''a'' ''h1'' ''u'' AT_agent, ServerConfig ''b'' ''h2'' ''u'' AT_agent]"

lemma scan_edge_sound_witness:
  "\<exists>e t. te_from_node e = ''a'' \<and> te_to_node e = ''b'' \<and> edge_evidence (sv_dial example_scan ''a'') t e"
proof -
  let ?es = "tr_edges (scan_topology example_scan example_servers None None)"
  have "length ?es = 4 \<and> te_from_node (?es ! 2) = ''a'' \<and> te_to_node (?es ! 2) = ''b'' \<and> te_reachable (?es ! 2)"
    by code_simp
  moreover have "distinct (map sc_name (select_nodes example_servers None None))" by code_simp
  ultimately show ?thesis
    using scan_edge_sound [of "?es ! 2" example_scan example_servers None None] by (metis nth_mem numeral_less_iff semiring_norm(76) semiring_norm(78))
qed

text \<open>However much a host streams and in whatever pieces, \<open>_run_capped\<close> returns exactly the first
  \<open>_HARVEST_MAX_BYTES\<close> characters of its output (a piece that is empty is the end of the stream).\<close>

theorem run_capped_prefix:
  assumes "[] \<notin> set pieces"
  shows "run_capped 0 pieces = take HARVEST_MAX_BYTES (concat pieces)
    \<and> length (run_capped 0 pieces) \<le> HARVEST_MAX_BYTES"
  using run_capped_take [OF assms, of 0] by simp

lemma run_capped_prefix_witness: "run_capped 0 [''ab'', ''c''] = ''abc''"
  using run_capped_prefix [of "[''ab'', ''c'']"] by (simp add: HARVEST_MAX_BYTES_def)

text \<open>Both harvest parsers return each address once, and only valid IPv4 addresses that are neither
  loopback nor link-local.\<close>

theorem harvested_addresses_clean:
  "distinct (parse_linux_addrs out) \<and> distinct (parse_windows_addrs out)
   \<and> list_all (\<lambda>a. ipv4_parse a \<noteq> None \<and> \<not> ipv4_loopback (the (ipv4_parse a))
        \<and> \<not> ipv4_link_local (the (ipv4_parse a))) (parse_linux_addrs out @ parse_windows_addrs out)"
proof -
  have "clean_addrs (parse_linux_addrs out)" "clean_addrs (parse_windows_addrs out)"
    unfolding parse_linux_addrs_def parse_windows_addrs_def
    by (intro clean_fold clean_addrs_Nil clean_windows_line;
        auto simp: keep_addr_def intro: clean_add split: option.split)+
  then show ?thesis by (auto simp: clean_addrs_def list_all_iff skip_addr_def split: option.splits)
qed

end
