(* ===== verification/Registry_Tools.thy ===== *)
theory Registry_Tools
  imports Jump Pool Topology State_Store
begin

section \<open>Registry tools (\<open>tools/registry_tools.py\<close>)\<close>

text \<open>
  The tools that register, list and remove servers and build jump chains, manually or by path
  finding over the cached topology. The pool resolves names through the live registry, so that
  \<open>live_env\<close> sets its lookup to \<open>reg_get\<close> of the registry at the time of the call. Times are counts
  of seconds.
\<close>

subsection \<open>Listing\<close>

definition ljust :: "nat \<Rightarrow> string \<Rightarrow> string" where
  "ljust w s = s @ replicate (w - length s) (CHR '' '')"

definition server_row :: "(string \<Rightarrow> connection_status result) \<Rightarrow> server_config \<Rightarrow> string list" where
  "server_row status cfg =
     [sc_name cfg,
      sc_user cfg @ ''@'' @ sc_host cfg @ (if sc_port cfg \<noteq> 22 then '':'' @ show_int (sc_port cfg) else []),
      auth_value (sc_auth_type cfg),
      (case status (sc_name cfg) of Inr s \<Rightarrow> conn_status_value s | Inl _ \<Rightarrow> ''unknown''),
      (case sc_note cfg of Some (c # cs) \<Rightarrow> ''# '' @ c # cs | _ \<Rightarrow> [])]"

definition row_line :: "nat list \<Rightarrow> string list \<Rightarrow> string" where
  "row_line w r =
     join ''  '' (map (\<lambda>i. ljust (w ! i) (r ! i)) [0..<4]) @ (if r ! 4 \<noteq> [] then ''  '' @ r ! 4 else [])"

definition ssh_list_servers :: "(string \<Rightarrow> connection_status result) \<Rightarrow> registry \<Rightarrow> string" where
  "ssh_list_servers status r =
     (let servers = reg_list_all r
      in if servers = [] then ''no servers registered''
         else
           let rows = map (server_row status) servers;
               w = map (\<lambda>i. Max (set (map (\<lambda>r. length (r ! i)) rows))) [0..<5]
           in join [nl] (map (row_line w) rows))"

subsection \<open>Registering\<close>

record register_args =
  ra_name :: string
  ra_host :: string
  ra_user :: string
  ra_auth_type :: string
  ra_port :: int
  ra_key_path :: "string option"
  ra_cert_path :: "string option"
  ra_password_env :: "string option"
  ra_jump_host :: "string option"
  ra_host_key_policy :: "string option"
  ra_default_cwd :: "string option"
  ra_default_env :: "(string, string) dict option"
  ra_max_sessions :: "int option"
  ra_keepalive_interval :: "int option"
  ra_note :: "string option"

text \<open>The \<open>ServerConfig\<close> the arguments describe; \<open>None\<close> when an enum value is unknown.\<close>

definition config_of_args :: "register_args \<Rightarrow> server_config option" where
  "config_of_args x =
     (case AuthType (ra_auth_type x) of
        None \<Rightarrow> None
      | Some auth \<Rightarrow>
          (case (case ra_host_key_policy x of
                   Some (c # cs) \<Rightarrow> map_option Some (HostKeyPolicy (c # cs))
                 | _ \<Rightarrow> Some None) of
             None \<Rightarrow> None
           | Some policy \<Rightarrow>
               Some \<lparr>sc_name = ra_name x, sc_host = ra_host x, sc_port = ra_port x, sc_user = ra_user x,
                     sc_auth_type = auth, sc_key_path = ra_key_path x, sc_cert_path = ra_cert_path x,
                     sc_password_env = ra_password_env x, sc_jump_host = ra_jump_host x,
                     sc_host_key_policy = policy, sc_default_cwd = ra_default_cwd x,
                     sc_default_env = (case ra_default_env x of None \<Rightarrow> [] | Some d \<Rightarrow> d),
                     sc_max_sessions = ra_max_sessions x,
                     sc_keepalive_interval = ra_keepalive_interval x, sc_note = ra_note x\<rparr>))"

definition ssh_register_server ::
    "(nat \<Rightarrow> write_fate) \<Rightarrow> register_args \<Rightarrow> registry \<Rightarrow> audit_state \<Rightarrow> registry \<times> audit_state \<times> reply" where
  "ssh_register_server fate x r a =
     (case reg_get r (ra_name x) of
        Inr _ \<Rightarrow> (r, a, err_reply ''server_already_exists'' [(''server'', JStr (ra_name x))])
      | Inl _ \<Rightarrow>
          (case config_of_args x of
             None \<Rightarrow> (r, a, err_reply ''invalid_config'' [])
           | Some cfg \<Rightarrow>
               (case reg_add fate cfg r of
                  (r', Inl _) \<Rightarrow> (r', a, err_reply ''registry_error'' [])
                | (r', Inr _) \<Rightarrow>
                    (r',
                     audit_log ((AuditEvent ''ssh_register_server'' ''registered''
                        [(''host'', JStr (ra_host x)), (''port'', JInt (ra_port x)),
                         (''user'', JStr (ra_user x)), (''auth_type'', JStr (ra_auth_type x))])
                       \<lparr>ae_server := Some (ra_name x)\<rparr>) a,
                     [(''registered'', JBool True), (''server'', JStr (ra_name x)),
                      (''host'', JStr (ra_host x)), (''port'', JInt (ra_port x)),
                      (''user'', JStr (ra_user x)), (''auth_type'', JStr (ra_auth_type x))]))))"

definition ssh_deregister_server ::
    "(nat \<Rightarrow> write_fate) \<Rightarrow> (string \<Rightarrow> connection_status result) \<Rightarrow> string \<Rightarrow> registry \<Rightarrow> audit_state
      \<Rightarrow> registry \<times> audit_state \<times> reply" where
  "ssh_deregister_server fate status name r a =
     (case reg_get r name of
        Inl _ \<Rightarrow> (r, a, err_reply ''server_not_found'' [(''server'', JStr name)])
      | Inr _ \<Rightarrow>
          let warn = (status name = Inr CS_connected)
          in (case reg_remove fate name r of
                (r', Inl _) \<Rightarrow> (r', a, err_reply ''registry_error'' [])
              | (r', Inr _) \<Rightarrow>
                  (r',
                   audit_log ((AuditEvent ''ssh_deregister_server'' ''deregistered'' [(''warning'', JBool warn)])
                     \<lparr>ae_server := Some name\<rparr>) a,
                   [(''deregistered'', JBool True), (''server'', JStr name)]
                     @ (if warn then [(''warning'', JBool True)] else []))))"

subsection \<open>Recording a host key\<close>

definition live_env :: "pool_env \<Rightarrow> registry \<Rightarrow> pool_env" where
  "live_env env r = env\<lparr>pe_lookup := reg_get r\<rparr>"

text \<open>\<open>host_key\<close> is what \<open>get_server_host_key\<close> gives for a connection, exported and stripped; an
  append that fails ends in \<open>unexpected_error\<close>.\<close>

definition ssh_add_known_host ::
    "nat \<Rightarrow> pool_env \<Rightarrow> (nat \<Rightarrow> string option) \<Rightarrow> string \<Rightarrow> registry \<Rightarrow> pool \<Rightarrow> audit_state
      \<Rightarrow> pool \<times> audit_state \<times> reply" where
  "ssh_add_known_host depth env host_key name r p a =
     (case reg_get r name of
        Inl _ \<Rightarrow> (p, a, err_reply ''server_not_found'' [(''server'', JStr name)])
      | Inr cfg \<Rightarrow>
          (case get_connection depth (live_env env r) name p of
             (p', Inl e) \<Rightarrow>
               (p', a, err_reply (if is_McpSshError e then ''connection_error'' else ''unexpected_error'')
                         [(''server'', JStr name)])
           | (p', Inr conn) \<Rightarrow>
               (case host_key conn of
                  None \<Rightarrow> (p', a, err_reply ''no_host_key'' [(''server'', JStr name)])
                | Some key_line \<Rightarrow>
                    let already = (case pl_known_hosts p' of
                                     None \<Rightarrow> False
                                   | Some s \<Rightarrow> contains key_line (universal_newlines s))
                    in if \<not> already \<and> pe_append_fails env conn
                       then (p', a, err_reply ''unexpected_error'' [(''server'', JStr name)])
                       else
                         (p'\<lparr>pl_known_hosts := append_host_key (pl_known_hosts p') (sc_host cfg) (Some key_line)\<rparr>,
                          audit_log ((AuditEvent ''ssh_add_known_host''
                              (if already then ''key_already_known'' else ''key_recorded'')
                              [(''host'', JStr (sc_host cfg)), (''already_present'', JBool already)])
                            \<lparr>ae_server := Some name\<rparr>) a,
                          [(''server'', JStr name), (''host'', JStr (sc_host cfg)),
                           (''key_already_known'', JBool already),
                           (''known_hosts_file'',
                            JStr (pe_expanduser env (gs_known_hosts_file (ac_settings (rg_config r)))))]))))"

text \<open>
  Showing it: \<open>match\<close> is \<open>asyncssh.read_known_hosts\<close> on the text of the file followed by
  \<open>known.match\<close>: the host keys and the CA keys, each with its algorithm and, unless
  \<open>get_fingerprint\<close> raises, its fingerprint.
\<close>

type_synonym shown_key = "string \<times> string option"

definition show_key :: "shown_key \<Rightarrow> json" where
  "show_key k = JObj
     [(''algorithm'', JStr (fst k)),
      (''fingerprint'', JStr (case snd k of Some fp \<Rightarrow> fp | None \<Rightarrow> ''(unavailable)''))]"

definition ssh_show_known_host ::
    "(string \<Rightarrow> string \<Rightarrow> string \<Rightarrow> int \<Rightarrow> (shown_key list \<times> shown_key list) result) \<Rightarrow> (string \<Rightarrow> string) \<Rightarrow> string
      \<Rightarrow> registry \<Rightarrow> pool \<Rightarrow> reply result" where
  "ssh_show_known_host match expanduser name r p =
     (case reg_get r name of
        Inl _ \<Rightarrow> Inr (err_reply ''server_not_found'' [(''server'', JStr name)])
      | Inr cfg \<Rightarrow>
          let head = [(''server'', JStr name), (''host'', JStr (sc_host cfg))];
              unknown = head @ [(''known'', JBool False)]
          in (case pl_known_hosts p of
                None \<Rightarrow> Inr unknown
              | Some known \<Rightarrow>
                  (case match known (sc_host cfg) (sc_host cfg) (sc_port cfg) of
                     Inl e \<Rightarrow> if is_OSError e then Inr unknown else Inl e
                   | Inr (host_keys, ca_keys) \<Rightarrow>
                       if host_keys @ ca_keys = [] then Inr unknown
                       else Inr (head @
                         [(''known'', JBool True),
                          (''known_hosts_file'', JStr (expanduser (gs_known_hosts_file (ac_settings (rg_config r))))),
                          (''keys'', JArr (map show_key (host_keys @ ca_keys)))]))))"

subsection \<open>Jump chains over the topology\<close>

text \<open>The world of the tools: everything the server's components keep.\<close>

record world =
  wd_registry :: registry
  wd_pool :: pool
  wd_state :: "topology_result state_store"
  wd_audit :: audit_state

record tool_env =
  tv_fate :: "nat \<Rightarrow> write_fate"
  tv_pool :: pool_env
  tv_depth :: nat
  tv_codec :: "topology_result codec"
  tv_state_writes :: "nat \<Rightarrow> bool"
  tv_now :: int

text \<open>What \<open>ssh_scan_topology\<close> replies with is the dumped matrix; here the codec's dump of it.\<close>

definition ssh_scan_topology ::
    "tool_env \<Rightarrow> scan_env result \<Rightarrow> string list option \<Rightarrow> string list option \<Rightarrow> world \<Rightarrow> world \<times> json result" where
  "ssh_scan_topology env scan incl excl w =
     (case scan of
        Inl e \<Rightarrow> (w, Inr (JObj (err_reply (if is_McpSshError e then ''scan_error'' else ''unexpected_error'') [])))
      | Inr sv \<Rightarrow>
          let topology = scan_topology sv (reg_list_all (wd_registry w)) incl excl
          in (case set_topology (tv_state_writes env) (tv_codec env) topology (wd_state w) of
                (s', Inl e) \<Rightarrow> (w\<lparr>wd_state := s'\<rparr>, Inl e)
              | (s', Inr _) \<Rightarrow>
                  (w\<lparr>wd_state := s',
                     wd_audit := audit_log (AuditEvent ''ssh_scan_topology'' ''scanned''
                       [(''nodes'', JInt (int (length (tr_nodes topology)))),
                        (''edges'', JInt (int (length (tr_edges topology))))]) (wd_audit w)\<rparr>,
                   Inr (cd_dump_topology (tv_codec env) topology))))"

text \<open>The matrix to search: a fresh scan, or the cached one if there is one and it is young enough.\<close>

definition auto_topology ::
    "tool_env \<Rightarrow> scan_env \<Rightarrow> int option \<Rightarrow> bool \<Rightarrow> world \<Rightarrow> world \<times> (reply + topology_result) result" where
  "auto_topology env sv max_age force_rescan w =
     (if force_rescan then
        let topology = scan_topology sv (reg_list_all (wd_registry w)) None None
        in (case set_topology (tv_state_writes env) (tv_codec env) topology (wd_state w) of
              (s', Inl e) \<Rightarrow> (w\<lparr>wd_state := s'\<rparr>, Inl e)
            | (s', Inr _) \<Rightarrow> (w\<lparr>wd_state := s'\<rparr>, Inr (Inr topology)))
      else
        (case get_topology (wd_state w) of
           None \<Rightarrow> (w, Inr (Inl (err_reply ''no_topology'' [])))
         | Some topology \<Rightarrow>
             (case max_age of
                Some limit \<Rightarrow>
                  if tv_now env - tr_scanned_at topology > limit
                  then (w, Inr (Inl (err_reply ''stale_topology'' [(''scanned_at'', JInt (tr_scanned_at topology))])))
                  else (w, Inr (Inr topology))
              | None \<Rightarrow> (w, Inr (Inr topology)))))"

definition chain_of_path :: "hop_path \<Rightarrow> string list" where
  "chain_of_path path = map (\<lambda>(node, via). node @ ''@'' @ via) path"

text \<open>From the matrix on; \<open>find_path\<close> always returns, so that its outer option is opened by \<open>the\<close>.\<close>

definition auto_build ::
    "tool_env \<Rightarrow> string \<Rightarrow> string \<Rightarrow> bool \<Rightarrow> string option \<Rightarrow> topology_result \<Rightarrow> world \<Rightarrow> world \<times> reply result" where
  "auto_build env name target persist note topology w =
     (case the (find_path topology target) of
        None \<Rightarrow>
          (w, Inr (err_reply ''no_path'' [(''target'', JStr target),
                 (''gap'', JObj (path_gap_report topology target))]))
      | Some path \<Rightarrow>
          let chain = chain_of_path path
          in (case build_chain (tv_fate env) name chain persist note (wd_registry w) (wd_audit w) of
                (r1, a1, Inl e) \<Rightarrow> (w\<lparr>wd_registry := r1, wd_audit := a1\<rparr>, Inl e)
              | (r1, a1, Inr built) \<Rightarrow>
                  if is_error built then (w\<lparr>wd_registry := r1, wd_audit := a1\<rparr>, Inr built)
                  else
                    (case get_connection (tv_depth env) (live_env (tv_pool env) r1) name (wd_pool w) of
                       (p1, Inl e) \<Rightarrow>
                         (let (r2, a2, _) = teardown_jump (tv_fate env) name r1 a1
                          in (w\<lparr>wd_registry := r2, wd_audit := a2, wd_pool := p1\<rparr>,
                              Inr (err_reply ''verify_failed'' [(''jump'', JStr name), (''target'', JStr target),
                                     (''chain'', JStrs chain)])))
                     | (p1, Inr _) \<Rightarrow>
                         (w\<lparr>wd_registry := r1, wd_pool := p1,
                            wd_audit := audit_log ((AuditEvent ''setup_jump'' ''auto_chained''
                                [(''target'', JStr target), (''chain'', JStrs chain)])
                              \<lparr>ae_server := Some name\<rparr>) a1\<rparr>,
                          Inr (built @ [(''target'', JStr target), (''auto_chain'', JStrs chain),
                                        (''verified'', JBool True)])))))"

definition setup_jump_auto ::
    "tool_env \<Rightarrow> scan_env \<Rightarrow> string \<Rightarrow> string \<Rightarrow> bool \<Rightarrow> string option \<Rightarrow> int option \<Rightarrow> bool \<Rightarrow> world
      \<Rightarrow> world \<times> reply result" where
  "setup_jump_auto env sv name target persist note max_age force_rescan w =
     (case reg_get (wd_registry w) target of
        Inl _ \<Rightarrow> (w, Inr (err_reply ''server_not_found'' [(''server'', JStr target)]))
      | Inr _ \<Rightarrow>
          (case auto_topology env sv max_age force_rescan w of
             (w1, Inl e) \<Rightarrow> (w1, Inl e)
           | (w1, Inr (Inl rep)) \<Rightarrow> (w1, Inr rep)
           | (w1, Inr (Inr topology)) \<Rightarrow> auto_build env name target persist note topology w1))"

definition setup_jump ::
    "tool_env \<Rightarrow> scan_env \<Rightarrow> string \<Rightarrow> string list option \<Rightarrow> bool \<Rightarrow> string option \<Rightarrow> string option
      \<Rightarrow> int option \<Rightarrow> bool \<Rightarrow> world \<Rightarrow> world \<times> reply result" where
  "setup_jump env sv name chain persist note target max_age force_rescan w =
     (case target of
        Some t \<Rightarrow> setup_jump_auto env sv name t persist note max_age force_rescan w
      | None \<Rightarrow>
          (case chain of
             Some (x # xs) \<Rightarrow>
               (let (r', a', res) = build_chain (tv_fate env) name (x # xs) persist note (wd_registry w) (wd_audit w)
                in (w\<lparr>wd_registry := r', wd_audit := a'\<rparr>, res))
           | _ \<Rightarrow> (w, Inr (err_reply ''invalid_chain'' []))))"

subsection \<open>Facts\<close>

text \<open>Names and addresses that survive being written as \<open>node@via\<close> and parsed again.\<close>

definition plain_hop :: "string \<times> string \<Rightarrow> bool" where
  "plain_hop h \<longleftrightarrow> CHR ''@'' \<notin> set (fst h) \<and> strip (fst h) = fst h
     \<and> snd h \<noteq> [] \<and> strip (snd h) = snd h \<and> CHR '':'' \<notin> set (snd h)"

lemma parse_hop_plain: "plain_hop (node, via) \<Longrightarrow> parse_hop (node @ ''@'' @ via) = Inr (node, Some via, None)"
  using partition_present [of "CHR ''@''" node via] rpartition_absent [of "CHR '':''" via]
  by (simp add: plain_hop_def parse_hop_def)

text \<open>An address that ends in a colon and a number, as IPv6 addresses do, is read as host and port.\<close>

lemma parse_hop_ipv6:
  assumes "CHR ''@'' \<notin> set node" and "strip node = node"
    and "strip (pre @ CHR '':'' # show_nat k) = pre @ CHR '':'' # show_nat k"
  shows "parse_hop (node @ ''@'' @ pre @ CHR '':'' # show_nat k) = Inr (node, Some (strip pre), Some (int k))"
proof -
  have "CHR '':'' \<notin> set (show_nat k)" by (rule show_nat_notin) code_simp
  moreover have "str_isdigit (show_nat k)"
    using show_nat_dec [of k] show_nat_ne [of k]
    by (auto simp: str_isdigit_def is_digit_char_def list_all_iff)
  moreover have "py_int (show_nat k) = Some (int k)"
    using py_int_show_int [of "int k"] by (simp add: show_int_def)
  ultimately show ?thesis
    using assms partition_present [of "CHR ''@''" node "pre @ CHR '':'' # show_nat k"]
      rpartition_present [of "CHR '':''" "show_nat k" pre]
    by (simp add: parse_hop_def)
qed

lemma is_internal_hop_generated:
  assumes "Suc i \<noteq> m" and "name \<noteq> []" and "\<forall>c \<in> set name. code c \<noteq> 10"
  shows "is_internal_hop (hop_name name i m)"
proof -
  let ?front = "''_'' @ name @ ''_hop''"
  have n: "hop_name name i m = ?front @ show_nat i" using assms(1) by (simp add: hop_name_def)
  have dec: "\<forall>c \<in> set (show_nat i). is_dec c" using show_nat_dec by (simp add: list_all_iff)
  have ne: "show_nat i \<noteq> []" by (rule show_nat_ne)
  then have "is_dec (last (show_nat i))" using dec by simp
  then have "code (last (hop_name name i m)) \<noteq> 10" using ne n by (simp add: is_dec_def)
  then have body: "(if hop_name name i m \<noteq> [] \<and> code (last (hop_name name i m)) = 10
      then butlast (hop_name name i m) else hop_name name i m) = ?front @ show_nat i" using n by simp
  have p: "\<not> is_dec (CHR ''p'')" by code_simp
  have "takeWhile is_dec (rev (?front @ show_nat i)) = rev (show_nat i)"
    "dropWhile is_dec (rev (?front @ show_nat i)) = rev ?front"
    using dec p by (simp_all add: takeWhile_append dropWhile_append)
  with body ne assms(2,3) show ?thesis
    unfolding is_internal_hop_def by (auto simp: Let_def list_all_iff)
qed

lemma build_chain_hosts:
  assumes "build_chain fate name (chain_of_path path) persist note r a = (r', a', Inr rep)"
    and "\<not> is_error rep" and "list_all plain_hop path" and "i < length path"
  shows "\<exists>cfg base. reg_get r' (hop_name name i (length path)) = Inr cfg
    \<and> reg_get r (fst (path ! i)) = Inr base \<and> sc_host cfg = snd (path ! i) \<and> sc_port cfg = sc_port base
    \<and> sc_user cfg = sc_user base \<and> sc_auth_type cfg = sc_auth_type base
    \<and> sc_jump_host cfg = hop_prev name i (length path)"
proof -
  obtain node via where pi: "path ! i = (node, via)" by (rule prod.exhaust)
  with assms(3,4) have pl: "plain_hop (node, via)" by (metis list_all_length)
  have len: "length (chain_of_path path) = length path" by (simp add: chain_of_path_def)
  have el: "chain_of_path path ! i = node @ ''@'' @ via" using assms(4) pi by (simp add: chain_of_path_def)
  from build_chain_lookup [OF assms(1,2), of i] obtain h where
    h: "hop_of_element r name note (length path) i (node @ ''@'' @ via) = Some h"
      "reg_get r' (hop_name name i (length path)) = Inr (fst h)"
    using len el assms(4) by auto
  from h(1) obtain base where "reg_get r node = Inr base"
    "fst h = make_hop name note (length path) i (hop_prev name i (length path)) node (Some via) None base"
    using parse_hop_plain [OF pl] by (auto simp: hop_of_element_def split: sum.splits)
  with h(2) pi pl show ?thesis by (simp add: or_str_def or_int_def plain_hop_def)
qed

subsection \<open>Properties\<close>


definition example_world :: world where
  "example_world =
     \<lparr>wd_registry = \<lparr>rg_config = AppConfig\<lparr>ac_servers :=
          map (\<lambda>n. (n, ServerConfig n (n @ ''.lan'') ''root'' AT_gssapi)) [''a'', ''b'', ''c'']\<rparr>,
        rg_ephemeral = [], rg_path = ''s.toml'', rg_fs = Map.empty, rg_writes = 0\<rparr>,
      wd_pool = ConnectionPool None, wd_state = StateStore SF_missing, wd_audit = AuditLog_init True True []\<rparr>"

definition example_tool_env :: "pool_env \<Rightarrow> tool_env" where
  "example_tool_env pe = \<lparr>tv_fate = (\<lambda>_. W_ok), tv_pool = pe, tv_depth = 9,
     tv_codec = \<lparr>cd_process = (\<lambda>_. None), cd_session = (\<lambda>_. None), cd_topology = (\<lambda>_. None),
       cd_dump_process = (\<lambda>_. JNull), cd_dump_session = (\<lambda>_. JNull), cd_dump_topology = (\<lambda>_. JNull)\<rparr>,
     tv_state_writes = (\<lambda>_. True), tv_now = 0\<rparr>"

definition example_auto :: "pool_env \<Rightarrow> world \<times> reply result" where
  "example_auto pe = auto_build (example_tool_env pe) ''j'' ''c'' False None example_topology example_world"

lemma example_topology_path:
  "find_path example_topology ''c'' = Some (Some [(''b'', ''10.0.0.2''), (''c'', ''10.2.0.3'')])"
  by code_simp


text \<open>A call of the automatic mode that replies with an error or raises leaves both tables of the
  registry as they were: no path, a chain that cannot be registered, and a built chain that fails
  its verification connect alike.\<close>

theorem auto_jump_error_restores:
  assumes "auto_build env name target persist note topology w = (w', res)"
    and "\<And>rep. res = Inr rep \<Longrightarrow> is_error rep" and "target \<noteq> LOCAL_NODE"
    and "registry_wf (wd_registry w)" and "\<forall>i. tv_fate env i = W_ok"
    and "\<forall>c \<in> set (reg_list_all (wd_registry w)). \<not> startswith (sc_name c) (hop_prefix name)"
  shows "rg_servers (wd_registry w') = rg_servers (wd_registry w)
    \<and> rg_ephemeral (wd_registry w') = rg_ephemeral (wd_registry w)"
proof (cases "the (find_path topology target)")
  case None
  with assms(1) show ?thesis by (auto simp: auto_build_def)
next
  case (Some path)
  obtain r1 a1 built where b: "build_chain (tv_fate env) name (chain_of_path path) persist note
      (wd_registry w) (wd_audit w) = (r1, a1, built)" by (rule prod_cases3)
  have writes: "writes_ok_from (tv_fate env) q" for q using assms(5) by (simp add: writes_ok_from_def)
  show ?thesis
  proof (cases "\<exists>rep. built = Inr rep \<and> \<not> is_error rep")
    case False
    then have e: "built = Inr rep \<Longrightarrow> is_error rep" for rep by blast
    have "wd_registry w' = r1"
      using assms(1) Some b e by (cases built) (auto simp: auto_build_def Let_def)
    with build_chain_rollback [OF b e writes] show ?thesis by simp
  next
    case True
    then obtain rep where rep: "built = Inr rep" "\<not> is_error rep" by blast
    obtain p1 g where c: "get_connection (tv_depth env) (live_env (tv_pool env) r1) name (wd_pool w) = (p1, g)"
      by (rule prod.exhaust)
    have "\<exists>e. g = Inl e"
    proof (cases g)
      case (Inr conn)
      with assms(1) Some b rep c have "res = Inr (rep @ [(''target'', JStr target),
          (''auto_chain'', JStrs (chain_of_path path)), (''verified'', JBool True)])"
        by (auto simp: auto_build_def Let_def)
      with assms(2) rep(2) show ?thesis by (simp add: is_error_def map_add_def)
    qed simp
    then obtain e where g: "g = Inl e" by blast
    obtain r2 a2 rep2 where t: "teardown_jump (tv_fate env) name r1 a1 = (r2, a2, rep2)" by (rule prod_cases3)
    have w': "wd_registry w' = r2" using assms(1) Some b rep c g t by (auto simp: auto_build_def Let_def)
    have "path \<noteq> []"
    proof
      assume "path = []"
      moreover obtain q where "find_path topology target = Some q" using find_path_correct by metis
      ultimately have "find_path topology target = Some (Some [])" using Some by simp
      then have "\<exists>c. walk (set (usable_edges (tr_edges topology))) target [] c"
        using find_path_correct [of topology target] by (metis option.inject option.distinct(1))
      then show False using assms(3) by (auto simp: walk_Nil)
    qed
    then have "chain_of_path path \<noteq> []" by (simp add: chain_of_path_def)
    from setup_teardown_restores [OF b [unfolded rep(1)] rep(2) this assms(4,6) writes t] w' show ?thesis
      by simp
  qed
qed

lemma auto_jump_error_restores_witness:
  "rg_ephemeral (wd_registry (fst (example_auto (example_env\<lparr>pe_dial := (\<lambda>n h k. D_raise PyOSError)\<rparr>)))) = []"
proof -
  let ?env = "example_env\<lparr>pe_dial := (\<lambda>n h k. D_raise PyOSError)\<rparr>"
  have "case snd (example_auto ?env) of Inl _ \<Rightarrow> False | Inr rep \<Rightarrow> is_error rep"
    unfolding example_auto_def auto_build_def example_topology_path option.sel by code_simp
  then obtain rep where "snd (example_auto ?env) = Inr rep" and ok: "is_error rep"
    by (auto split: sum.splits)
  then have e: "auto_build (example_tool_env ?env) ''j'' ''c'' False None example_topology example_world
      = (fst (example_auto ?env), Inr rep)"
    unfolding example_auto_def by (metis prod.collapse)
  have "''c'' \<noteq> LOCAL_NODE" "registry_wf (wd_registry example_world)"
    "\<forall>c \<in> set (reg_list_all (wd_registry example_world)). \<not> startswith (sc_name c) (hop_prefix ''j'')"
    by code_simp+
  moreover have "\<forall>i. tv_fate (example_tool_env ?env) i = W_ok" by (simp add: example_tool_env_def)
  moreover have "rg_ephemeral (wd_registry example_world) = []" by (simp add: example_world_def)
  ultimately show ?thesis using auto_jump_error_restores [OF e] ok by simp
qed

text \<open>A server of the memory table cannot be deregistered, whatever its state: the tool asks the file table.\<close>

theorem deregister_ephemeral_fails:
  assumes "dict_has name (rg_ephemeral r)" and "\<not> dict_has name (rg_servers r)"
  shows "ssh_deregister_server fate status name r a = (r, a, err_reply ''registry_error'' [])"
  using assms by (auto simp: ssh_deregister_server_def reg_get_def reg_remove_def dict_has_def Let_def map_of_eq_None_iff
      split: option.split)

end
