(* ===== verification/Candidates.thy ===== *)
theory Candidates
  imports Topology
begin

section \<open>Candidate addresses (\<open>discovery.py\<close>)\<close>

text \<open>
  The parsers that pull probe targets out of a host's files and command output, the filter
  \<open>_valid_candidate\<close>, and the expansion of injected candidates. The regular expressions are
  written as matchers: their repetitions end where the next item begins, so that the greedy match is
  the only one. Networks in CIDR notation are enumerated by the parameter \<open>hosts\<close>, which stands for
  \<open>ipaddress.ip_network(item, strict=False)\<close> and the choice between \<open>net.hosts()\<close> and \<open>iter(net)\<close>;
  \<open>None\<close> is its \<open>ValueError\<close>.
\<close>

subsection \<open>\<open>ipaddress.ip_address\<close>\<close>

definition is_hex :: "char \<Rightarrow> bool" where
  "is_hex c \<longleftrightarrow> is_dec c \<or> 65 \<le> code c \<and> code c \<le> 70 \<or> 97 \<le> code c \<and> code c \<le> 102"

definition hex_val :: "char \<Rightarrow> nat" where
  "hex_val c = (if is_dec c then dec_val c else if code c \<le> 70 then code c - 55 else code c - 87)"

definition hextet :: "string \<Rightarrow> nat option" where
  "hextet s =
     (if s \<noteq> [] \<and> list_all is_hex s \<and> length s \<le> 4 then Some (foldl (\<lambda>n c. 16 * n + hex_val c) 0 s) else None)"

text \<open>All values of a list of results, or none.\<close>

definition all_some :: "'a option list \<Rightarrow> 'a list option" where
  "all_some xs = (if list_all (\<lambda>x. x \<noteq> None) xs then Some (map the xs) else None)"

definition ipv6_parts :: "string list \<Rightarrow> nat list option" where
  "ipv6_parts parts =
     (let n = length parts; skips = filter (\<lambda>i. parts ! i = []) [1..<n - 1]
      in if n < 3 \<or> 9 < n then None
         else
           (case skips of
              [] \<Rightarrow> if n \<noteq> 8 \<or> hd parts = [] \<or> last parts = [] then None else all_some (map hextet parts)
            | [i] \<Rightarrow>
                let hi = (if hd parts = [] then i - 1 else i);
                    lo = (if last parts = [] then n - i - 2 else n - i - 1)
                in if hd parts = [] \<and> hi \<noteq> 0 \<or> last parts = [] \<and> lo \<noteq> 0 \<or> 8 \<le> hi + lo then None
                   else
                     (case (all_some (map hextet (take hi parts)), all_some (map hextet (drop (n - lo) parts))) of
                        (Some a, Some b) \<Rightarrow> Some (a @ replicate (8 - (hi + lo)) 0 @ b)
                      | _ \<Rightarrow> None)
            | _ \<Rightarrow> None))"

text \<open>A dotted IPv4 address may stand for the last two groups.\<close>

definition ipv6_parse :: "string \<Rightarrow> nat list option" where
  "ipv6_parse s =
     (let (addr, scoped, scope) = partition_at CHR ''%'' s; parts = split_on CHR '':'' addr
      in if CHR ''/'' \<in> set s \<or> scoped \<and> (scope = [] \<or> CHR ''%'' \<in> set scope) then None
         else if CHR ''.'' \<in> set (last parts) then
           (case ipv4_parse (last parts) of
              None \<Rightarrow> None
            | Some o4 \<Rightarrow>
                if length parts < 3 then None
                else
                  map_option (\<lambda>h. take 6 h @ [256 * o4 ! 0 + o4 ! 1, 256 * o4 ! 2 + o4 ! 3])
                    (ipv6_parts (butlast parts @ [''0'', ''0''])))
         else ipv6_parts parts)"

text \<open>\<open>ip.is_loopback or ip.is_link_local or ip.is_multicast\<close>; \<open>None\<close> is the \<open>ValueError\<close> of
  \<open>ip_address\<close>.\<close>

definition special_addr :: "string \<Rightarrow> bool option" where
  "special_addr s =
     (case ipv4_parse s of
        Some ip \<Rightarrow> Some (ipv4_loopback ip \<or> ipv4_link_local ip \<or> 224 \<le> hd ip \<and> hd ip \<le> 239)
      | None \<Rightarrow>
          (case ipv6_parse s of
             Some ip \<Rightarrow>
               Some (ip = [0, 0, 0, 0, 0, 0, 0, 1] \<or> 0xFE80 \<le> hd ip \<and> hd ip \<le> 0xFEBF \<or> 0xFF00 \<le> hd ip)
           | None \<Rightarrow> None))"

subsection \<open>The filter\<close>

definition host_char :: "char \<Rightarrow> bool" where
  "host_char c \<longleftrightarrow> is_ascii_alnum c \<or> c \<in> set ''._-''"

definition valid_candidate :: "string \<Rightarrow> bool" where
  "valid_candidate raw =
     (let token = strip raw
      in if token = [] then False
         else
           (case special_addr token of
              Some special \<Rightarrow> \<not> special
            | None \<Rightarrow>
                if startswith token ''-'' \<or> CHR ''/'' \<in> set token \<or> CHR ''*'' \<in> set token then False
                else is_ascii_alnum (hd token) \<and> list_all host_char token \<and> list_ex is_alpha token))"

subsection \<open>The parsers\<close>

text \<open>\<open>^\[([^\]]+)\](?::\d+)?$\<close>\<close>

definition unbracket :: "string \<Rightarrow> string" where
  "unbracket token =
     (case token of
        [] \<Rightarrow> []
      | c # cs \<Rightarrow>
          let (inner, closed, rest) = partition_at CHR '']'' cs
          in if c = CHR ''['' \<and> closed \<and> inner \<noteq> []
               \<and> (rest = [] \<or> hd rest = CHR '':'' \<and> tl rest \<noteq> [] \<and> list_all is_dec (tl rest))
             then inner else token)"

definition known_hosts_line :: "string \<Rightarrow> string list" where
  "known_hosts_line raw =
     (let line = strip raw
      in if line = [] \<or> startswith line ''#'' \<or> startswith line ''|'' then []
         else filter valid_candidate (map (\<lambda>t. unbracket (strip t)) (split_on CHR '','' (hd (split_ws line)))))"

definition parse_known_hosts_candidates :: "string \<Rightarrow> string list" where
  "parse_known_hosts_candidates output = concat (map known_hosts_line (splitlines output))"

text \<open>\<open>line.split(None, 1)\<close> of a stripped line gives its first word and the rest.\<close>

definition ssh_config_line :: "string \<Rightarrow> string list" where
  "ssh_config_line raw =
     (let line = strip raw; key = takeWhile (\<lambda>c. \<not> is_space c) line; val = lstrip (dropWhile (\<lambda>c. \<not> is_space c) line)
      in if line = [] \<or> startswith line ''#'' \<or> val = [] then []
         else if lower key = ''hostname'' then filter valid_candidate (split_ws (strip val))
         else [])"

definition parse_ssh_config_candidates :: "string \<Rightarrow> string list" where
  "parse_ssh_config_candidates output = concat (map ssh_config_line (splitlines output))"

definition etc_hosts_line :: "string \<Rightarrow> string list" where
  "etc_hosts_line raw = filter valid_candidate (split_ws (strip (takeWhile (\<lambda>c. c \<noteq> CHR ''#'') raw)))"

definition parse_etc_hosts_candidates :: "string \<Rightarrow> string list" where
  "parse_etc_hosts_candidates output = concat (map etc_hosts_line (splitlines output))"

text \<open>One to three digits that end before a character that is no digit.\<close>

definition digits_run :: "string \<Rightarrow> (string \<times> string) option" where
  "digits_run s =
     (let d = takeWhile is_dec s
      in if d = [] \<or> 3 < length d then None else Some (d, dropWhile is_dec s))"

text \<open>\<open>n\<close> times \<open>\d{1,3}\.\<close>\<close>

fun dotted_runs :: "nat \<Rightarrow> string \<Rightarrow> (string \<times> string) option" where
  "dotted_runs 0 s = Some ([], s)"
| "dotted_runs (Suc n) s =
     (case digits_run s of
        Some (d, c # r) \<Rightarrow>
          if c = CHR ''.'' then map_option (\<lambda>(m, r'). (d @ ''.'' @ m, r')) (dotted_runs n r) else None
      | _ \<Rightarrow> None)"

text \<open>\<open>\b(\d{1,3}(?:\.\d{1,3}){3})\b\<close> at a position that no word character precedes: the match and
  what follows it.\<close>

definition ipv4_match :: "string \<Rightarrow> (string \<times> string) option" where
  "ipv4_match s =
     (case dotted_runs 3 s of
        None \<Rightarrow> None
      | Some (m, r) \<Rightarrow>
          (case digits_run r of
             Some (d, r') \<Rightarrow> if r' \<noteq> [] \<and> is_word_char (hd r') then None else Some (m @ d, r')
           | None \<Rightarrow> None))"

lemma digits_run_shorter: "digits_run s = Some (d, r) \<Longrightarrow> length r < length s"
  by (cases s) (auto simp: digits_run_def Let_def length_dropWhile_le le_imp_less_Suc split: if_splits)

lemma dotted_runs_le: "dotted_runs n s = Some (m, r) \<Longrightarrow> length r \<le> length s"
  by (induction n s arbitrary: m r rule: dotted_runs.induct)
    (fastforce split: option.splits list.splits if_splits dest!: digits_run_shorter)+

lemma ipv4_match_shorter: "ipv4_match s = Some (m, r) \<Longrightarrow> length r < length s"
  by (fastforce simp: ipv4_match_def split: option.splits if_splits dest: dotted_runs_le digits_run_shorter)

function ipv4_scan :: "bool \<Rightarrow> string \<Rightarrow> string list" where
  "ipv4_scan after_word [] = []"
| "ipv4_scan after_word (c # cs) =
     (case (if after_word then None else ipv4_match (c # cs)) of
        Some (m, r) \<Rightarrow> m # ipv4_scan True r
      | None \<Rightarrow> ipv4_scan (is_word_char c) cs)"
  by pat_completeness auto
termination
  by (relation "measure (length \<circ> snd)") (auto split: if_splits dest!: ipv4_match_shorter)

definition parse_ip_neigh_candidates :: "string \<Rightarrow> string list" where
  "parse_ip_neigh_candidates output = filter valid_candidate (ipv4_scan False output)"

definition parse_sessions_candidates :: "string \<Rightarrow> string list" where
  "parse_sessions_candidates output = filter valid_candidate (ipv4_scan False output)"

text \<open>\<open>re.search(r"\b(?:ssh|scp|sftp)\b", raw)\<close>\<close>

definition whole_word :: "string \<Rightarrow> string \<Rightarrow> bool" where
  "whole_word w s \<longleftrightarrow> startswith s w \<and> (length s = length w \<or> \<not> is_word_char (s ! length w))"

fun mentions_ssh :: "bool \<Rightarrow> string \<Rightarrow> bool" where
  "mentions_ssh after_word [] \<longleftrightarrow> False"
| "mentions_ssh after_word (c # cs) \<longleftrightarrow>
     \<not> after_word \<and> list_ex (\<lambda>w. whole_word w (c # cs)) [''ssh'', ''scp'', ''sftp'']
     \<or> mentions_ssh (is_word_char c) cs"

text \<open>The alternatives of \<open>_SSH_TARGET_RE\<close> at one position, each with what it leaves:
  \<open>user@host\<close>, an address without a boundary behind it, a dotted name.\<close>

definition user_host_match :: "string \<Rightarrow> (string \<times> string) option" where
  "user_host_match s =
     (let u = takeWhile host_char s
      in if u = [] then None
         else
           (case dropWhile host_char s of
              a # c # cs \<Rightarrow>
                if a = CHR ''@'' \<and> is_ascii_alnum c
                then Some (c # takeWhile host_char cs, dropWhile host_char cs) else None
            | _ \<Rightarrow> None))"

definition loose_ipv4_match :: "string \<Rightarrow> (string \<times> string) option" where
  "loose_ipv4_match s =
     (case dotted_runs 3 s of
        None \<Rightarrow> None
      | Some (m, r) \<Rightarrow>
          let d = take 3 (takeWhile is_dec r)
          in if d = [] then None else Some (m @ d, drop (length d) r))"

definition label_char :: "char \<Rightarrow> bool" where
  "label_char c \<longleftrightarrow> is_ascii_alnum c \<or> c = CHR ''_'' \<or> c = CHR ''-''"

function more_labels :: "string \<Rightarrow> string \<times> string" where
  "more_labels s =
     (case s of
        [] \<Rightarrow> ([], [])
      | c # cs \<Rightarrow>
          let l = takeWhile label_char cs
          in if c = CHR ''.'' \<and> l \<noteq> []
             then (case more_labels (dropWhile label_char cs) of (m, r) \<Rightarrow> (''.'' @ l @ m, r))
             else ([], s))"
  by pat_completeness auto
termination
  by (relation "measure length") (auto simp: length_dropWhile_le le_imp_less_Suc)

declare more_labels.simps [simp del]

definition dotted_name_match :: "string \<Rightarrow> (string \<times> string) option" where
  "dotted_name_match s =
     (case s of
        [] \<Rightarrow> None
      | c # cs \<Rightarrow>
          if \<not> is_ascii_alnum c then None
          else
            (case more_labels (dropWhile label_char cs) of
               (m, r) \<Rightarrow> if m = [] then None else Some (c # takeWhile label_char cs @ m, r)))"

definition ssh_target_match :: "bool \<Rightarrow> string \<Rightarrow> (string \<times> string) option" where
  "ssh_target_match after_word s =
     (case user_host_match s of
        Some p \<Rightarrow> Some p
      | None \<Rightarrow>
          if after_word then None
          else (case loose_ipv4_match s of Some p \<Rightarrow> Some p | None \<Rightarrow> dotted_name_match s))"

lemma user_host_match_shorter: "user_host_match s = Some (m, r) \<Longrightarrow> length r < length s \<and> m \<noteq> []"
proof -
  assume a: "user_host_match s = Some (m, r)"
  then obtain x c cs where d: "dropWhile host_char s = x # c # cs" "r = dropWhile host_char cs" "m \<noteq> []"
    by (auto simp: user_host_match_def Let_def split: if_splits list.splits)
  have "length r \<le> length cs" using d(2) by (simp add: length_dropWhile_le)
  moreover have "length (x # c # cs) \<le> length s" using length_dropWhile_le [of host_char s] d(1) by simp
  ultimately show ?thesis using d(3) by simp
qed

lemma loose_ipv4_match_shorter:
  assumes "loose_ipv4_match s = Some (m, r)"
  shows "length r < length s \<and> m \<noteq> []"
proof -
  obtain k q where q: "dotted_runs 3 s = Some (k, q)" "take 3 (takeWhile is_dec q) \<noteq> []"
      "m = k @ take 3 (takeWhile is_dec q)" "r = drop (length (take 3 (takeWhile is_dec q))) q"
    using assms by (auto simp: loose_ipv4_match_def Let_def split: option.splits if_splits)
  then have "q \<noteq> []" by auto
  then have "length r < length q" using q(2,4) by (cases q) auto
  moreover have "length q \<le> length s" using q(1) by (rule dotted_runs_le)
  ultimately show ?thesis using q(2,3) by simp
qed

lemma more_labels_le: "length (snd (more_labels s)) \<le> length s"
proof (induction s rule: more_labels.induct)
  case (1 s)
  show ?case
  proof (cases s)
    case Nil
    then show ?thesis by (simp add: more_labels.simps)
  next
    case (Cons c cs)
    have "length (dropWhile label_char cs) \<le> length cs" by (rule length_dropWhile_le)
    then show ?thesis using 1 [OF Cons refl] Cons
      by (subst more_labels.simps) (auto simp: Let_def split: prod.split)
  qed
qed

lemma dotted_name_match_shorter: "dotted_name_match s = Some (m, r) \<Longrightarrow> length r < length s \<and> m \<noteq> []"
proof -
  assume a: "dotted_name_match s = Some (m, r)"
  then obtain c cs where s: "s = c # cs" by (auto simp: dotted_name_match_def split: list.splits)
  have "length r \<le> length (dropWhile label_char cs)" "m \<noteq> []"
    using a s more_labels_le [of "dropWhile label_char cs"]
    by (auto simp: dotted_name_match_def split: if_splits prod.splits)
  then show ?thesis using s length_dropWhile_le [of label_char cs] by simp
qed

lemma ssh_target_match_shorter: "ssh_target_match w s = Some (m, r) \<Longrightarrow> length r < length s \<and> m \<noteq> []"
  by (auto simp: ssh_target_match_def split: option.splits if_splits
      dest: user_host_match_shorter loose_ipv4_match_shorter dotted_name_match_shorter)

function target_scan :: "bool \<Rightarrow> string \<Rightarrow> string list" where
  "target_scan after_word [] = []"
| "target_scan after_word (c # cs) =
     (case ssh_target_match after_word (c # cs) of
        Some (m, r) \<Rightarrow> m # target_scan (is_word_char (last m)) r
      | None \<Rightarrow> target_scan (is_word_char c) cs)"
  by pat_completeness auto
termination
  by (relation "measure (length \<circ> snd)") (auto dest!: ssh_target_match_shorter)

definition history_line :: "string \<Rightarrow> string list" where
  "history_line raw =
     (if mentions_ssh False raw
      then filter valid_candidate (map (takeWhile (\<lambda>c. c \<noteq> CHR '':'')) (target_scan False raw)) else [])"

definition parse_history_candidates :: "string \<Rightarrow> string list" where
  "parse_history_candidates output = concat (map history_line (splitlines output))"

subsection \<open>Expansion\<close>

definition CIDR_EXPAND_CAP :: nat where
  "CIDR_EXPAND_CAP = 1024"

text \<open>One item adds its addresses that are new, until the cap; \<open>None\<close> as the second part is the early
  return.\<close>

fun add_capped :: "nat \<Rightarrow> string list \<Rightarrow> string list \<Rightarrow> string list \<times> bool" where
  "add_capped cap out [] = (out, False)"
| "add_capped cap out (a # addrs) =
     (if a \<in> set out then add_capped cap out addrs
      else if cap \<le> length (out @ [a]) then (out @ [a], True)
      else add_capped cap (out @ [a]) addrs)"

definition item_addrs :: "(string \<Rightarrow> string list option) \<Rightarrow> string \<Rightarrow> string list" where
  "item_addrs hosts item =
     (if CHR ''/'' \<in> set item then (case hosts item of None \<Rightarrow> [] | Some addrs \<Rightarrow> addrs)
      else if valid_candidate item then [item] else [])"

fun expand_from :: "(string \<Rightarrow> string list option) \<Rightarrow> nat \<Rightarrow> string list \<Rightarrow> string list \<Rightarrow> string list" where
  "expand_from hosts cap out [] = out"
| "expand_from hosts cap out (raw # items) =
     (let item = strip raw
      in if item = [] then expand_from hosts cap out items
         else
           (case add_capped cap out (item_addrs hosts item) of
              (out', full) \<Rightarrow> if full then out' else expand_from hosts cap out' items))"

definition expand_candidates :: "(string \<Rightarrow> string list option) \<Rightarrow> nat \<Rightarrow> string list \<Rightarrow> string list" where
  "expand_candidates hosts cap items = expand_from hosts cap [] items"

text \<open>\<open>user@rest\<close> with both parts present.\<close>

definition injected_user :: "string \<Rightarrow> string option \<times> string" where
  "injected_user s =
     (case partition_at CHR ''@'' s of
        (u, sep, rest) \<Rightarrow> if sep \<and> u \<noteq> [] \<and> rest \<noteq> [] then (Some u, rest) else (None, s))"

definition add_new :: "string list \<Rightarrow> string list \<Rightarrow> string list" where
  "add_new xs acc = fold (\<lambda>x acc. if x \<in> set acc then acc else acc @ [x]) xs acc"

fun parse_injected_from ::
    "(string \<Rightarrow> string list option) \<Rightarrow> string list \<Rightarrow> (string, string) dict \<Rightarrow> string list
      \<Rightarrow> string list \<times> (string, string) dict" where
  "parse_injected_from hosts addrs users [] = (addrs, users)"
| "parse_injected_from hosts addrs users (raw # items) =
     (if strip raw = [] then parse_injected_from hosts addrs users items
      else
        let (user, s) = injected_user (strip raw);
            found = expand_candidates hosts CIDR_EXPAND_CAP [s];
            users' = (case user of None \<Rightarrow> users | Some u \<Rightarrow> fold (\<lambda>a. dict_set a u) found users)
        in parse_injected_from hosts (add_new found addrs) users' items)"

definition parse_injected :: "(string \<Rightarrow> string list option) \<Rightarrow> string list \<Rightarrow> string list \<times> (string, string) dict" where
  "parse_injected hosts items = parse_injected_from hosts [] [] items"

text \<open>\<open>ipaddress.ip_network(f"{ip}/24", strict=False)\<close> of the first IPv4 address.\<close>

definition slash24 :: "nat list \<Rightarrow> string" where
  "slash24 ip = join ''.'' (map show_nat (take 3 ip)) @ ''.0/24''"

definition sweep_cidr_for_host :: "string list \<Rightarrow> string option \<Rightarrow> string option" where
  "sweep_cidr_for_host addrs sweep_cidr =
     (case sweep_cidr of
        Some (c # cs) \<Rightarrow> Some (c # cs)
      | _ \<Rightarrow> map_option (\<lambda>a. slash24 (the (ipv4_parse a))) (find (\<lambda>a. ipv4_parse a \<noteq> None) addrs))"

definition fp_short :: "string \<Rightarrow> string" where
  "fp_short fingerprint =
     (let body = (if CHR '':'' \<in> set fingerprint then tl (dropWhile (\<lambda>c. c \<noteq> CHR '':'') fingerprint) else fingerprint);
          slug = take 8 (lower (filter is_ascii_alnum body))
      in if slug = [] then ''unknown'' else slug)"

end
