(* ===== verification/Discovery.thy ===== *)
theory Discovery
  imports Candidates Audit_Log Jump
begin

section \<open>The discovery engine (\<open>discovery.py\<close>)\<close>

text \<open>
  The breadth-first exploration that connects to candidates, registers each new host by its
  fingerprint and goes on from there. Hosts and files answer through \<open>disc_env\<close>: what a breadcrumb
  command prints, which keys are found, how a connection attempt ends. A connection is a number.
  \<open>asyncio.gather\<close> starts one task per fresh candidate; a task runs without suspending up to its
  connection attempt (\<open>begin_probe\<close>) and again from its end (\<open>finish_probe\<close>), and at most
  \<open>concurrency\<close> tasks are between the two. \<open>dv_schedule\<close> is the order in which the event loop runs
  these halves; it may be any list, moves that are not possible are skipped, and what it leaves over
  runs at the end. Connecting fails by giving \<open>None\<close>, as \<open>connect_candidate\<close> catches it; other
  exceptions of the library are outside the model.
\<close>

subsection \<open>State, parameters, environment\<close>

record frontier_item =
  fi_name :: string
  fi_conn :: "nat option"
  fi_depth :: nat
  fi_is_local :: bool

record discovered_host =
  dh_name :: string
  dh_fingerprint :: string
  dh_addrs :: "string list"
  dh_via :: string
  dh_depth :: nat
  dh_auth_key :: "string option"
  dh_pool_reachable :: bool
  dh_first_seen :: int

record skipped_key =
  sk_host :: string
  sk_path :: string
  sk_reason :: string

record disc_stats =
  st_candidates :: nat
  st_probes :: nat
  st_connects_tried :: nat
  st_connects_ok :: nat
  st_harvested_keys :: nat

record disc_config =
  dc_session :: string
  dc_key_paths :: "string list"
  dc_harvest_keys :: bool
  dc_subnet_sweep :: bool
  dc_sweep_cidr :: "string option"
  dc_port :: int
  dc_max_depth :: int
  dc_max_nodes :: int
  dc_concurrency :: int
  dc_name_prefix :: string
  dc_persist :: bool
  dc_injected :: "string list"
  dc_injected_users :: "(string, string) dict"

text \<open>\<open>ds_dials\<close> is the trace of the connection attempts: the tunnel, the address, the user, the keys.\<close>

record disc_state =
  ds_registry :: registry
  ds_audit :: audit_state
  ds_key_space :: "string list"
  ds_visited_ips :: "string list"
  ds_visited_fps :: "string list"
  ds_discovered :: "discovered_host list"
  ds_graph :: "(string, string list) dict"
  ds_skipped :: "skipped_key list"
  ds_registered :: "string list"
  ds_truncated :: bool
  ds_stats :: disc_stats
  ds_open_conns :: "nat list"
  ds_closed :: "nat list"
  ds_dials :: "(nat option \<times> string \<times> string \<times> string list) list"
  ds_clock :: nat

datatype probe_move = Begin string | Finish string

text \<open>\<open>dv_late n\<close> says whether the deadline has passed at the \<open>n\<close>-th look at the clock.\<close>

record disc_env =
  dv_fate :: "nat \<Rightarrow> write_fate"
  dv_late :: "nat \<Rightarrow> bool"
  dv_connect :: "nat \<Rightarrow> nat option \<Rightarrow> string \<Rightarrow> string \<Rightarrow> string list \<Rightarrow> (nat \<times> string option) option"
  dv_username :: "nat option \<Rightarrow> string"
  dv_keys :: "nat \<Rightarrow> string list \<times> skipped_key list"
  dv_addrs :: "nat \<Rightarrow> string list result"
  dv_crumb :: "nat \<Rightarrow> string \<Rightarrow> string result"
  dv_sweep :: "nat \<Rightarrow> string \<Rightarrow> string result"
  dv_local_file :: "string \<Rightarrow> string option"
  dv_hosts :: "string \<Rightarrow> string list option"
  dv_schedule :: "nat \<Rightarrow> string list \<Rightarrow> probe_move list"
  dv_now :: int

definition DiscoveryEngine :: "registry \<Rightarrow> audit_state \<Rightarrow> string list \<Rightarrow> disc_state" where
  "DiscoveryEngine reg a keys =
     \<lparr>ds_registry = reg, ds_audit = a, ds_key_space = keys, ds_visited_ips = [], ds_visited_fps = [],
      ds_discovered = [], ds_graph = [], ds_skipped = [], ds_registered = [], ds_truncated = False,
      ds_stats = \<lparr>st_candidates = 0, st_probes = 0, st_connects_tried = 0, st_connects_ok = 0,
                  st_harvested_keys = 0\<rparr>,
      ds_open_conns = [], ds_closed = [], ds_dials = [], ds_clock = 0\<rparr>"

definition disc_event :: "string \<Rightarrow> string \<Rightarrow> string \<Rightarrow> string option \<Rightarrow> json_obj \<Rightarrow> audit_event" where
  "disc_event tool session outcome server detail =
     (AuditEvent tool outcome (dict_merge [(''session'', JStr session)] detail))\<lparr>ae_server := server\<rparr>"

definition disc_log :: "audit_event \<Rightarrow> disc_state \<Rightarrow> disc_state" where
  "disc_log e s = s\<lparr>ds_audit := audit_log e (ds_audit s)\<rparr>"

subsection \<open>Harvesting candidates and keys\<close>

definition crumb_sources :: "(string \<times> (string \<Rightarrow> string list)) list" where
  "crumb_sources =
     [(''known_hosts'', parse_known_hosts_candidates), (''ssh_config'', parse_ssh_config_candidates),
      (''etc_hosts'', parse_etc_hosts_candidates), (''ip_neigh'', parse_ip_neigh_candidates),
      (''sessions'', parse_sessions_candidates), (''history'', parse_history_candidates)]"

text \<open>A breadcrumb source that fails is skipped; an error that is not caught leaves the scan, so that the
  environment gives timeouts, asyncssh and OS errors only.\<close>

definition harvest_breadcrumbs :: "disc_env \<Rightarrow> nat \<Rightarrow> string list" where
  "harvest_breadcrumbs env conn =
     fold (\<lambda>(source, parse) out.
       case dv_crumb env conn source of Inl _ \<Rightarrow> out | Inr output \<Rightarrow> add_new (parse output) out) crumb_sources []"

definition local_breadcrumbs :: "disc_env \<Rightarrow> string list" where
  "local_breadcrumbs env =
     fold (\<lambda>(source, parse) out.
       case dv_local_file env source of None \<Rightarrow> out | Some content \<Rightarrow> add_new (parse content) out) (take 3 crumb_sources) []"

definition sweep_cmd :: "string list \<Rightarrow> int \<Rightarrow> string" where
  "sweep_cmd addrs port =
     ''for a in '' @ join '' '' addrs @ ''; do ''
       @ ''timeout 1 bash -c '' @ [CHR 0x22] @ ''echo > /dev/tcp/$a/'' @ show_int port @ [CHR 0x22] @ '' 2>/dev/null ''
       @ ''&& echo $a; done''"

definition sweep_host :: "disc_env \<Rightarrow> nat \<Rightarrow> string \<Rightarrow> int \<Rightarrow> string list" where
  "sweep_host env conn cidr port =
     (let addrs = expand_candidates (dv_hosts env) CIDR_EXPAND_CAP [cidr]
      in if addrs = [] then []
         else
           (case dv_sweep env conn (sweep_cmd addrs port) of
              Inl _ \<Rightarrow> []
            | Inr out \<Rightarrow> filter valid_candidate (map strip (splitlines out))))"

definition harvest_candidates :: "disc_env \<Rightarrow> disc_config \<Rightarrow> frontier_item \<Rightarrow> string list" where
  "harvest_candidates env cfg item =
     (let found =
        (case fi_conn item of
           None \<Rightarrow> local_breadcrumbs env
         | Some conn \<Rightarrow>
             let own = (case dv_addrs env conn of Inl _ \<Rightarrow> [] | Inr xs \<Rightarrow> xs);
                 swept =
                   (if dc_subnet_sweep cfg then
                      (case sweep_cidr_for_host own (dc_sweep_cidr cfg) of
                         Some cidr \<Rightarrow> sweep_host env conn cidr (dc_port cfg) | None \<Rightarrow> [])
                    else [])
             in harvest_breadcrumbs env conn @ swept)
      in add_new (found @ dc_injected cfg) [])"

definition maybe_harvest_keys :: "disc_env \<Rightarrow> disc_config \<Rightarrow> frontier_item \<Rightarrow> disc_state \<Rightarrow> disc_state" where
  "maybe_harvest_keys env cfg item s =
     (case (dc_harvest_keys cfg, fi_conn item) of
        (True, Some conn) \<Rightarrow>
          let (usable, skipped) = dv_keys env conn;
              s' = s\<lparr>ds_key_space := ds_key_space s @ usable,
                     ds_stats := (ds_stats s)\<lparr>st_harvested_keys := st_harvested_keys (ds_stats s) + length usable\<rparr>,
                     ds_skipped := ds_skipped s @ skipped\<rparr>
          in if usable \<noteq> [] \<or> skipped \<noteq> [] then
               disc_log (disc_event ''ssh_discover'' (dc_session cfg) ''keys_harvested'' None
                 [(''host'', JStr (fi_name item)), (''usable_count'', JInt (int (length usable))),
                  (''skipped_encrypted'', JStrs (map sk_path skipped))]) s'
             else s'
      | _ \<Rightarrow> s)"

subsection \<open>Registering a host\<close>

definition name_taken :: "registry \<Rightarrow> string \<Rightarrow> bool" where
  "name_taken r name = (case reg_get r name of Inr _ \<Rightarrow> True | Inl _ \<Rightarrow> False)"

text \<open>\<open>while _name_taken(\<dots>): name = f"{base}-{suffix}"; suffix += 1\<close>. Among one more suffixes than the
  registry has entries one is free, so that the fuel \<open>length (reg_list_all r) + 1\<close> is enough.\<close>

fun free_suffix :: "registry \<Rightarrow> string \<Rightarrow> nat \<Rightarrow> nat \<Rightarrow> string" where
  "free_suffix r base k 0 = base @ ''-'' @ show_nat k"
| "free_suffix r base k (Suc fuel) =
     (let name = base @ ''-'' @ show_nat k
      in if name_taken r name then free_suffix r base (Suc k) fuel else name)"

definition free_name :: "registry \<Rightarrow> string \<Rightarrow> string" where
  "free_name r base =
     (if name_taken r base then free_suffix r base 1 (length (reg_list_all r) + 1) else base)"

definition SESSION_TAG :: string where
  "SESSION_TAG = ''disc-session=''"

definition disc_note :: "string \<Rightarrow> string \<Rightarrow> string" where
  "disc_note session fp = SESSION_TAG @ session @ '' fp='' @ fp"

definition reusable_key_path :: "disc_config \<Rightarrow> string option" where
  "reusable_key_path cfg =
     (if dc_harvest_keys cfg then None else case dc_key_paths cfg of [p] \<Rightarrow> Some p | _ \<Rightarrow> None)"

definition disc_server_config ::
    "disc_config \<Rightarrow> string \<Rightarrow> string \<Rightarrow> string \<Rightarrow> frontier_item \<Rightarrow> string \<Rightarrow> server_config" where
  "disc_server_config cfg name fp addr via username =
     (ServerConfig name addr username AT_key)
       \<lparr>sc_port := dc_port cfg, sc_key_path := reusable_key_path cfg,
        sc_jump_host := (if fi_is_local via then None else Some (fi_name via)),
        sc_host_key_policy := Some HK_tofu, sc_note := Some (disc_note (dc_session cfg) fp)\<rparr>"

definition disc_register ::
    "disc_env \<Rightarrow> disc_config \<Rightarrow> string \<Rightarrow> string \<Rightarrow> frontier_item \<Rightarrow> string \<Rightarrow> disc_state
      \<Rightarrow> disc_state \<times> (string \<times> bool) result" where
  "disc_register env cfg fp addr via username s =
     (let name = free_name (ds_registry s) (dc_name_prefix cfg @ ''-'' @ fp_short fp);
          sc = disc_server_config cfg name fp addr via username
      in case (if dc_persist cfg then reg_add (dv_fate env) sc (ds_registry s)
               else reg_add_ephemeral sc (ds_registry s)) of
           (r, Inl e) \<Rightarrow> (s\<lparr>ds_registry := r\<rparr>, Inl e)
         | (r, Inr _) \<Rightarrow>
             (s\<lparr>ds_registry := r, ds_registered := ds_registered s @ [name]\<rparr>,
              Inr (name, sc_key_path sc \<noteq> None)))"

subsection \<open>One candidate\<close>

definition record_addr :: "string \<Rightarrow> string \<Rightarrow> discovered_host list \<Rightarrow> discovered_host list" where
  "record_addr fp addr hosts =
     (case find (\<lambda>i. dh_fingerprint (hosts ! i) = fp \<and> addr \<notin> set (dh_addrs (hosts ! i))) [0..<length hosts] of
        None \<Rightarrow> hosts
      | Some i \<Rightarrow> hosts[i := (hosts ! i)\<lparr>dh_addrs := dh_addrs (hosts ! i) @ [addr]\<rparr>])"

definition auth_key_hint :: "string list \<Rightarrow> string" where
  "auth_key_hint keys = (if length keys = 1 then ''our-keys[1]'' else ''one-of-'' @ show_nat (length keys) @ ''-keys'')"

definition full_up :: "disc_config \<Rightarrow> disc_state \<Rightarrow> bool" where
  "full_up cfg s \<longleftrightarrow> dc_max_nodes cfg \<le> int (length (ds_discovered s))"

definition look_at_clock :: "disc_env \<Rightarrow> disc_state \<Rightarrow> bool \<times> disc_state" where
  "look_at_clock env s = (dv_late env (ds_clock s), s\<lparr>ds_clock := Suc (ds_clock s)\<rparr>)"

text \<open>A \<open>user@host\<close> candidate connects as its user, any other as the discoverer's.\<close>

definition probe_user :: "disc_env \<Rightarrow> disc_config \<Rightarrow> frontier_item \<Rightarrow> string \<Rightarrow> string" where
  "probe_user env cfg via addr =
     (case map_of (dc_injected_users cfg) addr of Some u \<Rightarrow> u | None \<Rightarrow> dv_username env (fi_conn via))"

text \<open>The first half of a task: \<open>None\<close> when it returns at once, else the answer it will get.\<close>

definition begin_probe ::
    "disc_env \<Rightarrow> disc_config \<Rightarrow> frontier_item \<Rightarrow> string \<Rightarrow> disc_state
      \<Rightarrow> disc_state \<times> (nat \<times> string option) option option" where
  "begin_probe env cfg via addr s =
     (case look_at_clock env s of
        (late, s1) \<Rightarrow>
          if late \<or> full_up cfg s1 then (s1\<lparr>ds_truncated := True\<rparr>, None)
          else
            let s2 = s1\<lparr>ds_stats := (ds_stats s1)\<lparr>st_probes := Suc (st_probes (ds_stats s1)),
                                    st_connects_tried := Suc (st_connects_tried (ds_stats s1))\<rparr>\<rparr>;
                user = probe_user env cfg via addr
            in if ds_key_space s2 = [] then (s2, Some None)
               else
                 (s2\<lparr>ds_dials := ds_dials s2 @ [(fi_conn via, addr, user, ds_key_space s2)]\<rparr>,
                  Some (dv_connect env (length (ds_dials s2)) (fi_conn via) addr user (ds_key_space s2))))"

definition close_conn :: "nat \<Rightarrow> disc_state \<Rightarrow> disc_state" where
  "close_conn c s = s\<lparr>ds_closed := c # ds_closed s\<rparr>"

definition host_entry ::
    "disc_env \<Rightarrow> frontier_item \<Rightarrow> string \<Rightarrow> string \<Rightarrow> string \<Rightarrow> bool \<Rightarrow> disc_state \<Rightarrow> discovered_host" where
  "host_entry env via addr fp name reachable s =
     \<lparr>dh_name = name, dh_fingerprint = fp, dh_addrs = [addr], dh_via = fi_name via,
      dh_depth = fi_depth via + 1, dh_auth_key = Some (auth_key_hint (ds_key_space s)),
      dh_pool_reachable = reachable, dh_first_seen = dv_now env\<rparr>"

definition add_host ::
    "disc_env \<Rightarrow> disc_config \<Rightarrow> frontier_item \<Rightarrow> string \<Rightarrow> nat \<Rightarrow> string \<Rightarrow> string \<Rightarrow> bool \<Rightarrow> disc_state \<Rightarrow> disc_state" where
  "add_host env cfg via addr conn fp name reachable s =
     disc_log (disc_event ''ssh_discover'' (dc_session cfg) ''host_discovered'' (Some name)
         [(''via'', JStr (fi_name via)), (''addr'', JStr addr), (''fingerprint'', JStr fp)])
       (s\<lparr>ds_discovered := ds_discovered s @ [host_entry env via addr fp name reachable s],
          ds_open_conns := ds_open_conns s @ [conn],
          ds_graph := dict_set (fi_name via)
            ((case map_of (ds_graph s) (fi_name via) of None \<Rightarrow> [] | Some r \<Rightarrow> r) @ [name]) (ds_graph s)\<rparr>)"

text \<open>A new fingerprint: register the host, or give the connection up.\<close>

definition accept_host ::
    "disc_env \<Rightarrow> disc_config \<Rightarrow> frontier_item \<Rightarrow> string \<Rightarrow> nat \<Rightarrow> string \<Rightarrow> disc_state
      \<Rightarrow> disc_state \<times> frontier_item option" where
  "accept_host env cfg via addr conn fp s =
     (if full_up cfg s then (close_conn conn (s\<lparr>ds_truncated := True\<rparr>), None)
      else
        (case disc_register env cfg fp addr via (probe_user env cfg via addr) s of
           (s1, Inl e) \<Rightarrow> (close_conn conn s1, None)
         | (s1, Inr (name, reachable)) \<Rightarrow>
             (add_host env cfg via addr conn fp name reachable s1,
              Some \<lparr>fi_name = name, fi_conn = Some conn, fi_depth = fi_depth via + 1, fi_is_local = False\<rparr>)))"

definition finish_probe ::
    "disc_env \<Rightarrow> disc_config \<Rightarrow> frontier_item \<Rightarrow> string \<Rightarrow> (nat \<times> string option) option \<Rightarrow> disc_state
      \<Rightarrow> disc_state \<times> frontier_item option" where
  "finish_probe env cfg via addr answer s =
     (case answer of
        None \<Rightarrow> (s, None)
      | Some (conn, key) \<Rightarrow>
          let s1 = s\<lparr>ds_stats := (ds_stats s)\<lparr>st_connects_ok := Suc (st_connects_ok (ds_stats s))\<rparr>\<rparr>
          in (case key of
                None \<Rightarrow> (close_conn conn s1, None)
              | Some fp \<Rightarrow>
                  if fp \<in> set (ds_visited_fps s1)
                  then (close_conn conn (s1\<lparr>ds_discovered := record_addr fp addr (ds_discovered s1)\<rparr>), None)
                  else accept_host env cfg via addr conn fp (s1\<lparr>ds_visited_fps := fp # ds_visited_fps s1\<rparr>)))"

subsection \<open>All candidates of a host\<close>

text \<open>The candidates nobody has tried, in their order; they count as visited from here on.\<close>

fun reserve :: "string list \<Rightarrow> string list \<Rightarrow> string list \<times> string list" where
  "reserve [] visited = ([], visited)"
| "reserve (c # cs) visited =
     (if c \<in> set visited then reserve cs visited
      else (case reserve cs (c # visited) of (fresh, visited') \<Rightarrow> (c # fresh, visited')))"

text \<open>Tasks that have not begun, tasks that wait for an answer, tasks that are done.\<close>

record probes =
  pb_todo :: "string list"
  pb_waiting :: "(string \<times> (nat \<times> string option) option) list"
  pb_done :: "(string \<times> frontier_item option) list"

definition can_begin :: "disc_config \<Rightarrow> string \<Rightarrow> probes \<Rightarrow> bool" where
  "can_begin cfg a b \<longleftrightarrow> a \<in> set (pb_todo b) \<and> int (length (pb_waiting b)) < max 1 (dc_concurrency cfg)"

definition probe_step ::
    "disc_env \<Rightarrow> disc_config \<Rightarrow> frontier_item \<Rightarrow> probe_move \<Rightarrow> disc_state \<times> probes \<Rightarrow> disc_state \<times> probes" where
  "probe_step env cfg via mv sb =
     (case sb of (s, b) \<Rightarrow>
       (case mv of
          Begin a \<Rightarrow>
            if can_begin cfg a b then
              (case begin_probe env cfg via a s of
                 (s', None) \<Rightarrow> (s', b\<lparr>pb_todo := remove1 a (pb_todo b), pb_done := pb_done b @ [(a, None)]\<rparr>)
               | (s', Some answer) \<Rightarrow>
                   (s', b\<lparr>pb_todo := remove1 a (pb_todo b), pb_waiting := pb_waiting b @ [(a, answer)]\<rparr>))
            else (s, b)
        | Finish a \<Rightarrow>
            (case map_of (pb_waiting b) a of
               None \<Rightarrow> (s, b)
             | Some answer \<Rightarrow>
                 (case finish_probe env cfg via a answer s of
                    (s', item) \<Rightarrow>
                      (s', b\<lparr>pb_waiting := dict_del a (pb_waiting b), pb_done := pb_done b @ [(a, item)]\<rparr>)))))"

definition run_probes ::
    "disc_env \<Rightarrow> disc_config \<Rightarrow> frontier_item \<Rightarrow> probe_move list \<Rightarrow> disc_state \<times> probes \<Rightarrow> disc_state \<times> probes" where
  "run_probes env cfg via moves sb = fold (probe_step env cfg via) moves sb"

definition remaining_moves :: "probes \<Rightarrow> probe_move list" where
  "remaining_moves b =
     map (\<lambda>p. Finish (fst p)) (pb_waiting b) @ concat (map (\<lambda>a. [Begin a, Finish a]) (pb_todo b))"

definition expand ::
    "disc_env \<Rightarrow> disc_config \<Rightarrow> frontier_item \<Rightarrow> string list \<Rightarrow> disc_state \<Rightarrow> disc_state \<times> frontier_item list" where
  "expand env cfg via candidates s =
     (let (fresh, visited) = reserve candidates (ds_visited_ips s);
          s1 = s\<lparr>ds_visited_ips := visited,
                 ds_stats := (ds_stats s)\<lparr>st_candidates := st_candidates (ds_stats s) + length fresh\<rparr>\<rparr>;
          (s2, b2) = run_probes env cfg via (dv_schedule env (ds_clock s) fresh)
                       (s1, \<lparr>pb_todo = fresh, pb_waiting = [], pb_done = []\<rparr>);
          (s3, b3) = run_probes env cfg via (remaining_moves b2) (s2, b2)
      in (s3, concat (map (\<lambda>a. case map_of (pb_done b3) a of Some (Some item) \<Rightarrow> [item] | _ \<Rightarrow> []) fresh)))"

subsection \<open>The main loop\<close>

definition room_left :: "disc_config \<Rightarrow> disc_state \<Rightarrow> nat" where
  "room_left cfg s = nat (dc_max_nodes cfg) - length (ds_discovered s)"

text \<open>What one round with the item \<open>item\<close> does; at the depth limit the item is dropped.\<close>

definition explore ::
    "disc_env \<Rightarrow> disc_config \<Rightarrow> frontier_item \<Rightarrow> disc_state \<Rightarrow> disc_state \<times> frontier_item list" where
  "explore env cfg item s =
     (if dc_max_depth cfg \<le> int (fi_depth item) then (s\<lparr>ds_truncated := True\<rparr>, [])
      else expand env cfg item (harvest_candidates env cfg item) (maybe_harvest_keys env cfg item s))"

lemma length_record_addr [simp]: "length (record_addr fp addr hosts) = length hosts"
  by (simp add: record_addr_def split: option.split)

lemma begin_probe_discovered [simp]: "ds_discovered (fst (begin_probe env cfg via a s)) = ds_discovered s"
  by (simp add: begin_probe_def look_at_clock_def Let_def)

lemma disc_register_discovered [simp]: "ds_discovered (fst (disc_register env cfg fp a via u s)) = ds_discovered s"
  by (simp add: disc_register_def Let_def split: prod.split sum.split)

lemma accept_host_count:
  assumes "accept_host env cfg via a conn fp s = (s', item)"
  shows "length (ds_discovered s') = length (ds_discovered s) + (if item = None then 0 else 1)
    \<and> (item \<noteq> None \<longrightarrow> int (length (ds_discovered s')) \<le> dc_max_nodes cfg)"
proof -
  obtain s1 r where reg: "disc_register env cfg fp a via (probe_user env cfg via a) s = (s1, r)" by (rule prod.exhaust)
  then have "ds_discovered s1 = ds_discovered s"
    using disc_register_discovered [of env cfg fp a via "probe_user env cfg via a" s] by simp
  then show ?thesis using assms reg
    by (auto simp: accept_host_def add_host_def close_conn_def disc_log_def full_up_def
        split: if_splits sum.splits prod.splits)
qed

lemma finish_probe_count:
  assumes "finish_probe env cfg via a answer s = (s', item)"
  shows "length (ds_discovered s') = length (ds_discovered s) + (if item = None then 0 else 1)
    \<and> (item \<noteq> None \<longrightarrow> int (length (ds_discovered s')) \<le> dc_max_nodes cfg)"
  using assms
  by (auto simp: finish_probe_def close_conn_def Let_def split: option.splits prod.splits if_splits
      dest!: accept_host_count)

text \<open>While the tasks of one host run: every task is in one place, and each host that was added is the
  result of one finished task.\<close>

definition probes_wf :: "string list \<Rightarrow> probes \<Rightarrow> bool" where
  "probes_wf fresh b \<longleftrightarrow> distinct (pb_todo b @ map fst (pb_waiting b) @ map fst (pb_done b))
     \<and> set (pb_todo b @ map fst (pb_waiting b) @ map fst (pb_done b)) = set fresh"

definition hits :: "probes \<Rightarrow> nat" where
  "hits b = length (filter (\<lambda>p. snd p \<noteq> None) (pb_done b))"

definition count_ok :: "disc_config \<Rightarrow> nat \<Rightarrow> disc_state \<times> probes \<Rightarrow> bool" where
  "count_ok cfg n sb \<longleftrightarrow> length (ds_discovered (fst sb)) = n + hits (snd sb)
     \<and> (hits (snd sb) = 0 \<or> int (length (ds_discovered (fst sb))) \<le> dc_max_nodes cfg)"

lemma probe_step_wf: "probes_wf fresh (snd sb) \<Longrightarrow> probes_wf fresh (snd (probe_step env cfg via mv sb))"
proof -
  assume wf: "probes_wf fresh (snd sb)"
  obtain s b where sb: "sb = (s, b)" by (rule prod.exhaust)
  show ?thesis
  proof (cases mv)
    case (Begin a)
    obtain s' r where p: "begin_probe env cfg via a s = (s', r)" by (rule prod.exhaust)
    show ?thesis
      using wf sb Begin p
      by (cases r) (auto simp: probe_step_def can_begin_def probes_wf_def distinct_remove1 set_remove1_eq)
  next
    case (Finish a)
    have keys: "map fst (dict_del a d) = filter (\<lambda>k. k \<noteq> a) (map fst d)" for d :: "(string \<times> (nat \<times> string option) option) list"
      by (induction d) (auto simp: dict_del_def)
    have "a \<in> fst ` set (pb_waiting b)" if "map_of (pb_waiting b) a = Some x" for x
      using map_of_SomeD [OF that] by force
    then show ?thesis
      using wf sb Finish
      by (auto simp: probe_step_def probes_wf_def keys split: option.split prod.split)
  qed
qed

lemma probe_step_count: "count_ok cfg n sb \<Longrightarrow> count_ok cfg n (probe_step env cfg via mv sb)"
proof -
  assume c: "count_ok cfg n sb"
  obtain s b where sb: "sb = (s, b)" by (rule prod.exhaust)
  show ?thesis
  proof (cases mv)
    case (Begin a)
    obtain s' r where p: "begin_probe env cfg via a s = (s', r)" by (rule prod.exhaust)
    then have "ds_discovered s' = ds_discovered s" using begin_probe_discovered [of env cfg via a s] by simp
    then show ?thesis
      using c sb Begin p by (cases r) (auto simp: probe_step_def count_ok_def hits_def)
  next
    case (Finish a)
    show ?thesis
    proof (cases "map_of (pb_waiting b) a")
      case None
      then show ?thesis using c sb Finish by (simp add: probe_step_def)
    next
      case (Some answer)
      obtain s' item where f: "finish_probe env cfg via a answer s = (s', item)" by (rule prod.exhaust)
      show ?thesis using c sb Finish Some f finish_probe_count [OF f]
        by (cases item) (auto simp: probe_step_def count_ok_def hits_def)
    qed
  qed
qed

lemma run_probes_keeps:
  assumes "I sb" and "\<And>mv sb. I sb \<Longrightarrow> I (probe_step env cfg via mv sb)"
  shows "I (run_probes env cfg via moves sb)"
  using assms(1) by (induction moves arbitrary: sb) (simp_all add: run_probes_def assms(2))

lemma reserve_spec:
  "reserve cs visited = (fresh, visited') \<Longrightarrow>
     distinct fresh \<and> set fresh \<inter> set visited = {} \<and> set fresh \<subseteq> set cs \<and> set visited' = set visited \<union> set fresh
     \<and> (distinct visited \<longrightarrow> distinct visited')"
proof (induction cs arbitrary: visited fresh)
  case Nil
  then show ?case by simp
next
  case (Cons c cs)
  then show ?case by (fastforce split: if_splits prod.splits)
qed

lemma found_items_le:
  "distinct fresh \<Longrightarrow>
     length (concat (map (\<lambda>a. case map_of d a of Some (Some item) \<Rightarrow> [item] | _ \<Rightarrow> []) fresh))
       \<le> length (filter (\<lambda>p. snd p \<noteq> None) d)"
proof (induction fresh arbitrary: d)
  case Nil
  then show ?case by simp
next
  case (Cons a fresh)
  let ?f = "\<lambda>d a. case map_of d a of Some (Some item) \<Rightarrow> [item] | _ \<Rightarrow> []"
  have same: "map (?f d) fresh = map (?f (dict_del a d)) fresh"
    using Cons.prems by (intro map_cong refl) auto
  have pd: "filter (\<lambda>p. snd p \<noteq> None) (dict_del a d) = filter (\<lambda>p. fst p \<noteq> a) (filter (\<lambda>p. snd p \<noteq> None) d)"
    by (simp add: dict_del_def conj_commute)
  have del: "length (filter (\<lambda>p. snd p \<noteq> None) (dict_del a d)) + length (?f d a)
      \<le> length (filter (\<lambda>p. snd p \<noteq> None) d)"
  proof (cases "\<exists>item. map_of d a = Some (Some item)")
    case True
    then obtain item where m: "(a, Some item) \<in> set d" "map_of d a = Some (Some item)" by (auto dest: map_of_SomeD)
    then have "length (filter (\<lambda>p. fst p \<noteq> a) (filter (\<lambda>p. snd p \<noteq> None) d)) < length (filter (\<lambda>p. snd p \<noteq> None) d)"
      by (intro length_filter_less [of "(a, Some item)"]) auto
    then show ?thesis using m unfolding pd by simp
  next
    case False
    then have "?f d a = []" by (auto split: option.split)
    moreover have "length (filter (\<lambda>p. snd p \<noteq> None) (dict_del a d)) \<le> length (filter (\<lambda>p. snd p \<noteq> None) d)"
      unfolding pd by (rule length_filter_le)
    ultimately show ?thesis by simp
  qed
  have "length (concat (map (?f d) fresh)) \<le> length (filter (\<lambda>p. snd p \<noteq> None) (dict_del a d))"
    unfolding same using Cons.prems by (intro Cons.IH) simp
  then show ?case using del by simp
qed

lemma expand_count:
  assumes "expand env cfg via cands s = (s', items)"
  shows "\<exists>k. length items \<le> k \<and> length (ds_discovered s') = length (ds_discovered s) + k
    \<and> (k = 0 \<or> int (length (ds_discovered s')) \<le> dc_max_nodes cfg)"
proof -
  obtain fresh visited where r: "reserve cands (ds_visited_ips s) = (fresh, visited)" by (rule prod.exhaust)
  define s1 where "s1 = s\<lparr>ds_visited_ips := visited,
      ds_stats := (ds_stats s)\<lparr>st_candidates := st_candidates (ds_stats s) + length fresh\<rparr>\<rparr>"
  obtain s2 b2 where r2: "run_probes env cfg via (dv_schedule env (ds_clock s) fresh)
      (s1, \<lparr>pb_todo = fresh, pb_waiting = [], pb_done = []\<rparr>) = (s2, b2)" by (rule prod.exhaust)
  obtain s3 b3 where r3: "run_probes env cfg via (remaining_moves b2) (s2, b2) = (s3, b3)" by (rule prod.exhaust)
  let ?I = "count_ok cfg (length (ds_discovered s))"
  have "?I (s1, \<lparr>pb_todo = fresh, pb_waiting = [], pb_done = []\<rparr>)"
    by (simp add: count_ok_def hits_def s1_def)
  then have "?I (s2, b2)" using run_probes_keeps [of ?I, OF _ probe_step_count] r2 by metis
  then have "?I (s3, b3)" using run_probes_keeps [of ?I, OF _ probe_step_count] r3 by metis
  moreover have "s' = s3" "length items \<le> hits b3"
    using assms r r2 r3 found_items_le [of fresh "pb_done b3"] reserve_spec [OF r]
    by (auto simp: expand_def s1_def [symmetric] hits_def)
  ultimately show ?thesis by (auto simp: count_ok_def)
qed

lemma maybe_harvest_keys_discovered [simp]: "ds_discovered (maybe_harvest_keys env cfg item s) = ds_discovered s"
  by (auto simp: maybe_harvest_keys_def disc_log_def Let_def split: bool.split option.split prod.split)

lemma explore_count:
  assumes "explore env cfg item s = (s', items)"
  shows "\<exists>k. length items \<le> k \<and> length (ds_discovered s') = length (ds_discovered s) + k
    \<and> (k = 0 \<or> int (length (ds_discovered s')) \<le> dc_max_nodes cfg)"
  using assms expand_count [of env cfg item "harvest_candidates env cfg item" "maybe_harvest_keys env cfg item s"]
  by (auto simp: explore_def split: if_splits)

text \<open>Every round shortens the frontier or uses up room, so that the loop ends whatever hosts answer.\<close>

function disc_loop :: "disc_env \<Rightarrow> disc_config \<Rightarrow> frontier_item list \<Rightarrow> disc_state \<Rightarrow> disc_state" where
  "disc_loop env cfg frontier s =
     (case frontier of
        [] \<Rightarrow> s
      | item # rest \<Rightarrow>
          (case look_at_clock env s of
             (late, s1) \<Rightarrow>
               if late \<or> full_up cfg s1 then s1\<lparr>ds_truncated := True\<rparr>
               else (case explore env cfg item s1 of (s2, items) \<Rightarrow> disc_loop env cfg (rest @ items) s2)))"
  by pat_completeness auto
termination
proof (relation "measure (\<lambda>(env, cfg, frontier, s). length frontier + room_left cfg s)")
  fix env cfg frontier s item rest late s1 s2 items
  assume f: "frontier = item # rest" and c: "(late, s1) = look_at_clock env s"
    and n: "\<not> (late \<or> full_up cfg s1)" and e: "(s2, items) = explore env cfg item s1"
  have "ds_discovered s1 = ds_discovered s" using c by (simp add: look_at_clock_def)
  then have "length items + room_left cfg s2 \<le> room_left cfg s"
    using explore_count [OF e [symmetric]] n by (auto simp: room_left_def full_up_def)
  then show "((env, cfg, rest @ items, s2), (env, cfg, frontier, s))
      \<in> measure (\<lambda>(env, cfg, frontier, s). length frontier + room_left cfg s)"
    using f by simp
qed simp

declare disc_loop.simps [simp del]

text \<open>\<open>run\<close>: the loop, then every connection the engine opened is closed.\<close>

definition disc_run :: "disc_env \<Rightarrow> disc_config \<Rightarrow> frontier_item list \<Rightarrow> disc_state \<Rightarrow> disc_state" where
  "disc_run env cfg seeds s =
     (let s1 = disc_loop env cfg seeds s
      in s1\<lparr>ds_closed := rev (ds_open_conns s1) @ ds_closed s1, ds_open_conns := []\<rparr>)"

record discovery_result =
  dr_session :: string
  dr_discovered :: "discovered_host list"
  dr_graph :: "(string, string list) dict"
  dr_skipped :: "skipped_key list"
  dr_truncated :: bool
  dr_stats :: disc_stats

definition disc_result :: "disc_config \<Rightarrow> disc_state \<Rightarrow> discovery_result" where
  "disc_result cfg s =
     \<lparr>dr_session = dc_session cfg, dr_discovered = ds_discovered s, dr_graph = ds_graph s,
      dr_skipped = ds_skipped s, dr_truncated = ds_truncated s, dr_stats = ds_stats s\<rparr>"

subsection \<open>Seeds and entry points\<close>

definition is_disc_entry :: "server_config \<Rightarrow> bool" where
  "is_disc_entry cfg \<longleftrightarrow> (case sc_note cfg of None \<Rightarrow> False | Some n \<Rightarrow> contains SESSION_TAG n)"

definition local_item :: frontier_item where
  "local_item = \<lparr>fi_name = LOCAL_NODE, fi_conn = None, fi_depth = 0, fi_is_local = True\<rparr>"

text \<open>A seed joins the frontier if the pool connects to it; \<open>get\<close> is the pool's \<open>get_connection\<close>.\<close>

definition seed_item :: "(string \<Rightarrow> 'p \<Rightarrow> 'p \<times> nat result) \<Rightarrow> string \<Rightarrow> 'p \<times> frontier_item list \<Rightarrow> 'p \<times> frontier_item list" where
  "seed_item get name q =
     (case get name (fst q) of
        (p, Inl _) \<Rightarrow> (p, snd q)
      | (p, Inr conn) \<Rightarrow>
          (p, snd q @ [\<lparr>fi_name = name, fi_conn = Some conn, fi_depth = 0, fi_is_local = False\<rparr>]))"

definition build_seed_frontier ::
    "(string \<Rightarrow> 'p \<Rightarrow> 'p \<times> nat result) \<Rightarrow> string list option \<Rightarrow> registry \<Rightarrow> 'p \<Rightarrow> 'p \<times> frontier_item list" where
  "build_seed_frontier get seeds reg p =
     (case seeds of
        None \<Rightarrow>
          fold (\<lambda>cfg q. if startswith (sc_name cfg) ''_'' \<or> is_disc_entry cfg then q else seed_item get (sc_name cfg) q)
            (reg_list_all reg) (p, [local_item])
      | Some names \<Rightarrow>
          fold (\<lambda>name q.
              if name = LOCAL_NODE then (fst q, snd q @ [local_item])
              else (case reg_get reg name of Inl _ \<Rightarrow> q | Inr _ \<Rightarrow> seed_item get name q))
            names (p, []))"

definition disc_completed :: "disc_config \<Rightarrow> disc_state \<Rightarrow> audit_event" where
  "disc_completed cfg s =
     disc_event ''ssh_discover'' (dc_session cfg) ''completed'' None
       [(''discovered'', JInt (int (length (ds_discovered s)))), (''truncated'', JBool (ds_truncated s)),
        (''stats'', JObj
          [(''candidates'', JInt (int (st_candidates (ds_stats s)))), (''probes'', JInt (int (st_probes (ds_stats s)))),
           (''connects_tried'', JInt (int (st_connects_tried (ds_stats s)))),
           (''connects_ok'', JInt (int (st_connects_ok (ds_stats s)))),
           (''harvested_keys'', JInt (int (st_harvested_keys (ds_stats s))))])]"

text \<open>The parameters a caller gives; \<open>load\<close> says which key files could be read, \<open>session\<close> is the new id.\<close>

record disc_args =
  da_seeds :: "string list option"
  da_keys :: "string list option"
  da_harvest_keys :: bool
  da_injected :: "string list option"
  da_subnet_sweep :: bool
  da_sweep_cidr :: "string option"
  da_port :: int
  da_max_depth :: int
  da_max_nodes :: int
  da_concurrency :: int
  da_name_prefix :: string
  da_persist :: bool

definition load_keys :: "(string \<Rightarrow> string) \<Rightarrow> (string \<Rightarrow> string option) \<Rightarrow> string list option \<Rightarrow> string list \<times> string list" where
  "load_keys expanduser read_key keys =
     (let loaded = filter (\<lambda>p. read_key p \<noteq> None) (map expanduser (case keys of None \<Rightarrow> [] | Some ks \<Rightarrow> ks))
      in (map (the \<circ> read_key) loaded, loaded))"

definition disc_config_of :: "disc_env \<Rightarrow> string \<Rightarrow> string list \<Rightarrow> disc_args \<Rightarrow> disc_config" where
  "disc_config_of env session key_paths x =
     (let (addrs, users) = parse_injected (dv_hosts env) (case da_injected x of None \<Rightarrow> [] | Some xs \<Rightarrow> xs)
      in \<lparr>dc_session = session, dc_key_paths = key_paths, dc_harvest_keys = da_harvest_keys x,
          dc_subnet_sweep = da_subnet_sweep x, dc_sweep_cidr = da_sweep_cidr x, dc_port = da_port x,
          dc_max_depth = da_max_depth x, dc_max_nodes = da_max_nodes x, dc_concurrency = da_concurrency x,
          dc_name_prefix = da_name_prefix x, dc_persist = da_persist x, dc_injected = addrs,
          dc_injected_users = users\<rparr>)"

definition discover ::
    "disc_env \<Rightarrow> (string \<Rightarrow> 'p \<Rightarrow> 'p \<times> nat result) \<Rightarrow> (string \<Rightarrow> string) \<Rightarrow> (string \<Rightarrow> string option) \<Rightarrow> string
      \<Rightarrow> disc_args \<Rightarrow> registry \<Rightarrow> 'p \<Rightarrow> audit_state \<Rightarrow> registry \<times> 'p \<times> audit_state \<times> discovery_result" where
  "discover env get expanduser read_key session x reg p a =
     (let (keys, key_paths) = load_keys expanduser read_key (da_keys x);
          cfg = disc_config_of env session key_paths x;
          (p', seeds) = build_seed_frontier get (da_seeds x) reg p;
          s = disc_run env cfg seeds (DiscoveryEngine reg a keys)
      in (ds_registry s, p', audit_log (disc_completed cfg s) (ds_audit s), disc_result cfg s))"

definition disc_targets :: "string \<Rightarrow> registry \<Rightarrow> string list" where
  "disc_targets session reg =
     map sc_name (filter (\<lambda>cfg. case sc_note cfg of None \<Rightarrow> False | Some n \<Rightarrow> contains (SESSION_TAG @ session) n)
       (reg_list_all reg))"

definition teardown_discovery ::
    "(nat \<Rightarrow> write_fate) \<Rightarrow> string \<Rightarrow> registry \<Rightarrow> audit_state \<Rightarrow> registry \<times> audit_state \<times> reply" where
  "teardown_discovery fate session reg a =
     (let targets = disc_targets session reg;
          (reg', removed) = remove_each fate targets reg
      in (reg',
          audit_log (disc_event ''teardown_discovery'' session ''removed'' None [(''removed'', JStrs removed)]) a,
          if targets = [] then err_reply ''session_not_found'' [(''session'', JStr session), (''removed'', JStrs [])]
          else [(''torn_down'', JStr session), (''removed'', JStrs removed)]))"

end
