(* ===== verification/Discovery_Runs.thy ===== *)
theory Discovery_Runs
  imports Discovery
begin

section \<open>What a discovery scan guarantees\<close>

text \<open>
  Invariants of the scan, for every schedule of the tasks and all answers of the hosts. Each is shown
  for the two halves of a task, carried through the tasks of one host by \<open>run_probes_keeps\<close> and
  through the main loop by \<open>disc_loop_keeps\<close>.
\<close>

subsection \<open>Effects of the two halves\<close>

definition dialled :: "disc_state \<Rightarrow> string list" where
  "dialled s = map (\<lambda>(tunnel, addr, user, keys). addr) (ds_dials s)"

lemma begin_probe_effect:
  assumes "begin_probe env cfg via a s = (s', r)"
  shows "ds_registry s' = ds_registry s" "ds_discovered s' = ds_discovered s"
    "ds_visited_ips s' = ds_visited_ips s" "ds_visited_fps s' = ds_visited_fps s"
    "ds_open_conns s' = ds_open_conns s" "ds_closed s' = ds_closed s" "ds_registered s' = ds_registered s"
    "dialled s' = dialled s \<or> dialled s' = dialled s @ [a]"
  using assms by (auto simp: begin_probe_def look_at_clock_def dialled_def Let_def split: if_splits)

lemma disc_register_effect:
  assumes "disc_register env cfg fp a via u s = (s', r)"
  shows "ds_discovered s' = ds_discovered s \<and> ds_visited_ips s' = ds_visited_ips s
    \<and> ds_visited_fps s' = ds_visited_fps s \<and> ds_open_conns s' = ds_open_conns s
    \<and> ds_closed s' = ds_closed s \<and> ds_dials s' = ds_dials s"
  using assms by (auto simp: disc_register_def Let_def split: prod.splits sum.splits)

text \<open>The end of a task: what changes in each of its outcomes.\<close>

lemma map_record_addr:
  assumes "\<And>h addrs. f (h\<lparr>dh_addrs := addrs\<rparr>) = f h"
  shows "map f (record_addr fp a hosts) = map f hosts"
proof -
  have "f h = f (hosts ! i) \<Longrightarrow> map f (hosts[i := h]) = map f hosts" for h i
    by (metis list_update_id map_update)
  then show ?thesis using assms by (simp add: record_addr_def split: option.split)
qed

text \<open>What identifies a host in the report; the addresses may grow later.\<close>

definition host_key :: "discovered_host \<Rightarrow> string \<times> string \<times> string \<times> nat" where
  "host_key h = (dh_name h, dh_fingerprint h, dh_via h, dh_depth h)"

lemma host_key_record_addr [simp]: "map host_key (record_addr fp a hosts) = map host_key hosts"
  by (rule map_record_addr) (simp add: host_key_def)

lemma accept_host_effect:
  assumes "accept_host env cfg via a conn fp s = (s', item)"
  shows "ds_visited_ips s' = ds_visited_ips s \<and> ds_visited_fps s' = ds_visited_fps s \<and> ds_dials s' = ds_dials s
    \<and> insert conn (set (ds_open_conns s) \<union> set (ds_closed s)) \<subseteq> set (ds_open_conns s') \<union> set (ds_closed s')"
    "item = None \<and> map host_key (ds_discovered s') = map host_key (ds_discovered s)
     \<or> (\<exists>name. item = Some \<lparr>fi_name = name, fi_conn = Some conn, fi_depth = fi_depth via + 1, fi_is_local = False\<rparr>
          \<and> map host_key (ds_discovered s') = map host_key (ds_discovered s) @ [(name, fp, fi_name via, fi_depth via + 1)])"
proof -
  obtain s1 r where reg: "disc_register env cfg fp a via (probe_user env cfg via a) s = (s1, r)" by (rule prod.exhaust)
  note e = disc_register_effect [OF reg]
  show "ds_visited_ips s' = ds_visited_ips s \<and> ds_visited_fps s' = ds_visited_fps s \<and> ds_dials s' = ds_dials s
    \<and> insert conn (set (ds_open_conns s) \<union> set (ds_closed s)) \<subseteq> set (ds_open_conns s') \<union> set (ds_closed s')"
    "item = None \<and> map host_key (ds_discovered s') = map host_key (ds_discovered s)
     \<or> (\<exists>name. item = Some \<lparr>fi_name = name, fi_conn = Some conn, fi_depth = fi_depth via + 1, fi_is_local = False\<rparr>
          \<and> map host_key (ds_discovered s') = map host_key (ds_discovered s) @ [(name, fp, fi_name via, fi_depth via + 1)])"
    using assms reg e
    by (auto simp: accept_host_def add_host_def host_entry_def host_key_def close_conn_def disc_log_def
        split: if_splits prod.splits sum.splits)
qed

lemma finish_probe_effect:
  assumes "finish_probe env cfg via a answer s = (s', item)"
  shows "ds_visited_ips s' = ds_visited_ips s \<and> ds_dials s' = ds_dials s
      \<and> set (ds_visited_fps s) \<subseteq> set (ds_visited_fps s')
      \<and> set (ds_open_conns s) \<union> set (ds_closed s) \<union> (case answer of Some (c, k) \<Rightarrow> {c} | None \<Rightarrow> {})
         \<subseteq> set (ds_open_conns s') \<union> set (ds_closed s')"
    "item = None \<and> map host_key (ds_discovered s') = map host_key (ds_discovered s)
     \<or> (\<exists>name fp. fp \<notin> set (ds_visited_fps s) \<and> fp \<in> set (ds_visited_fps s') \<and> item \<noteq> None
          \<and> map host_key (ds_discovered s') = map host_key (ds_discovered s) @ [(name, fp, fi_name via, fi_depth via + 1)])"
proof -
  have "(ds_visited_ips s' = ds_visited_ips s \<and> ds_dials s' = ds_dials s
      \<and> set (ds_visited_fps s) \<subseteq> set (ds_visited_fps s')
      \<and> set (ds_open_conns s) \<union> set (ds_closed s) \<union> (case answer of Some (c, k) \<Rightarrow> {c} | None \<Rightarrow> {})
         \<subseteq> set (ds_open_conns s') \<union> set (ds_closed s'))
    \<and> (item = None \<and> map host_key (ds_discovered s') = map host_key (ds_discovered s)
     \<or> (\<exists>name fp. fp \<notin> set (ds_visited_fps s) \<and> fp \<in> set (ds_visited_fps s') \<and> item \<noteq> None
          \<and> map host_key (ds_discovered s') = map host_key (ds_discovered s) @ [(name, fp, fi_name via, fi_depth via + 1)]))"
  proof (cases "\<exists>conn fp. answer = Some (conn, Some fp) \<and> fp \<notin> set (ds_visited_fps s)")
    case True
    then obtain conn fp where a: "answer = Some (conn, Some fp)" "fp \<notin> set (ds_visited_fps s)" by blast
    let ?s = "s\<lparr>ds_stats := (ds_stats s)\<lparr>st_connects_ok := Suc (st_connects_ok (ds_stats s))\<rparr>,
        ds_visited_fps := fp # ds_visited_fps s\<rparr>"
    have "accept_host env cfg via a conn fp ?s = (s', item)" using assms a by (simp add: finish_probe_def)
    from accept_host_effect [OF this] a show ?thesis by auto
  next
    case False
    then show ?thesis using assms
      by (auto simp: finish_probe_def close_conn_def Let_def split: option.splits if_splits prod.splits)
  qed
  then show "ds_visited_ips s' = ds_visited_ips s \<and> ds_dials s' = ds_dials s
      \<and> set (ds_visited_fps s) \<subseteq> set (ds_visited_fps s')
      \<and> set (ds_open_conns s) \<union> set (ds_closed s) \<union> (case answer of Some (c, k) \<Rightarrow> {c} | None \<Rightarrow> {})
         \<subseteq> set (ds_open_conns s') \<union> set (ds_closed s')"
    "item = None \<and> map host_key (ds_discovered s') = map host_key (ds_discovered s)
     \<or> (\<exists>name fp. fp \<notin> set (ds_visited_fps s) \<and> fp \<in> set (ds_visited_fps s') \<and> item \<noteq> None
          \<and> map host_key (ds_discovered s') = map host_key (ds_discovered s) @ [(name, fp, fi_name via, fi_depth via + 1)])"
    by blast+
qed

subsection \<open>Names of new hosts\<close>

lemma free_suffix_free:
  "\<exists>j. k \<le> j \<and> j < k + fuel \<and> \<not> name_taken r (base @ ''-'' @ show_nat j)
     \<Longrightarrow> \<not> name_taken r (free_suffix r base k fuel)"
proof (induction fuel arbitrary: k)
  case 0
  then show ?case by (auto dest: leD)
next
  case (Suc fuel)
  then obtain j where j: "k \<le> j" "j < k + Suc fuel" "\<not> name_taken r (base @ ''-'' @ show_nat j)" by blast
  show ?case
  proof (cases "name_taken r (base @ ''-'' @ show_nat k)")
    case True
    then have "Suc k \<le> j" using j by (cases "j = k") auto
    then show ?thesis using Suc.IH [of "Suc k"] j True by (auto simp: Let_def)
  qed (simp add: Let_def)
qed

lemma name_taken_iff: "name_taken r n \<longleftrightarrow> n \<in> fst ` set (rg_servers r @ rg_ephemeral r)"
  by (auto simp: name_taken_def reg_get_def map_of_eq_None_iff image_Un split: option.split)
    (metis fst_conv image_eqI map_of_SomeD)+

text \<open>The search for a free name ends within its fuel: there are more suffixes than entries.\<close>

lemma free_name_free: "\<not> name_taken r (free_name r base)"
proof (cases "name_taken r base")
  case True
  let ?n = "length (reg_list_all r)" and ?f = "\<lambda>j. base @ ''-'' @ show_nat j"
  have "\<exists>j. 1 \<le> j \<and> j < 1 + (?n + 1) \<and> \<not> name_taken r (?f j)"
  proof (rule ccontr)
    assume "\<not> ?thesis"
    then have "?f ` {1..<?n + 2} \<subseteq> fst ` set (rg_servers r @ rg_ephemeral r)" by (auto simp: name_taken_iff)
    then have "card (?f ` {1..<?n + 2}) \<le> card (fst ` set (rg_servers r @ rg_ephemeral r))"
      by (intro card_mono) auto
    also have "\<dots> \<le> length (rg_servers r @ rg_ephemeral r)"
      by (rule order_trans [OF card_image_le card_length]) simp
    also have "\<dots> = ?n" by (simp add: reg_list_all_def dict_values_def)
    finally show False by (simp add: card_image inj_on_def show_nat_inj)
  qed
  then show ?thesis using True free_suffix_free [of 1 "?n + 1" r base] by (simp add: free_name_def)
qed (simp add: free_name_def)

subsection \<open>Carrying an invariant through the scan\<close>

definition probe_start :: "string list \<Rightarrow> probes" where
  "probe_start fresh = \<lparr>pb_todo = fresh, pb_waiting = [], pb_done = []\<rparr>"

lemma expand_parts:
  assumes "expand env cfg via cands s = (s', items)"
  obtains fresh visited s1 s2 b2 b3 where
    "reserve cands (ds_visited_ips s) = (fresh, visited)"
    "s1 = s\<lparr>ds_visited_ips := visited,
            ds_stats := (ds_stats s)\<lparr>st_candidates := st_candidates (ds_stats s) + length fresh\<rparr>\<rparr>"
    "run_probes env cfg via (dv_schedule env (ds_clock s) fresh) (s1, probe_start fresh) = (s2, b2)"
    "run_probes env cfg via (remaining_moves b2) (s2, b2) = (s', b3)"
    "items = concat (map (\<lambda>a. case map_of (pb_done b3) a of Some (Some item) \<Rightarrow> [item] | _ \<Rightarrow> []) fresh)"
proof -
  obtain fresh visited where r: "reserve cands (ds_visited_ips s) = (fresh, visited)" by (rule prod.exhaust)
  define s1 where "s1 = s\<lparr>ds_visited_ips := visited,
      ds_stats := (ds_stats s)\<lparr>st_candidates := st_candidates (ds_stats s) + length fresh\<rparr>\<rparr>"
  obtain s2 b2 where r2: "run_probes env cfg via (dv_schedule env (ds_clock s) fresh) (s1, probe_start fresh) = (s2, b2)"
    by (rule prod.exhaust)
  obtain s3 b3 where r3: "run_probes env cfg via (remaining_moves b2) (s2, b2) = (s3, b3)" by (rule prod.exhaust)
  show thesis
    using assms r r2 r3 that [OF r s1_def r2, of b3] by (simp add: expand_def s1_def probe_start_def)
qed

lemma run_probes_append: "run_probes env cfg via (ms @ ns) sb = run_probes env cfg via ns (run_probes env cfg via ms sb)"
  by (simp add: run_probes_def)

lemma run_probes_Cons: "run_probes env cfg via (mv # ms) sb = run_probes env cfg via ms (probe_step env cfg via mv sb)"
  by (simp add: run_probes_def)

lemma finish_all:
  "pb_waiting b = w \<Longrightarrow> distinct (map fst w) \<Longrightarrow>
     run_probes env cfg via (map (\<lambda>p. Finish (fst p)) w) (s, b) = (s', b') \<Longrightarrow>
     pb_waiting b' = [] \<and> pb_todo b' = pb_todo b"
proof (induction w arbitrary: s b)
  case Nil
  then show ?case by (simp add: run_probes_def)
next
  case (Cons p w)
  obtain a ans where p: "p = (a, ans)" by (rule prod.exhaust)
  obtain s1 item where f: "finish_probe env cfg via a ans s = (s1, item)" by (rule prod.exhaust)
  have "dict_del a (pb_waiting b) = w"
    using Cons.prems p by (auto simp: dict_del_def intro!: filter_True)
  then have "probe_step env cfg via (Finish a) (s, b)
      = (s1, b\<lparr>pb_waiting := w, pb_done := pb_done b @ [(a, item)]\<rparr>)"
    using Cons.prems(1) p f by (simp add: probe_step_def)
  then show ?case
    using Cons.prems p Cons.IH [of "b\<lparr>pb_waiting := w, pb_done := pb_done b @ [(a, item)]\<rparr>" s1]
    by (simp add: run_probes_Cons)
qed

lemma begin_all:
  "pb_todo b = t \<Longrightarrow> pb_waiting b = [] \<Longrightarrow>
     run_probes env cfg via (concat (map (\<lambda>a. [Begin a, Finish a]) t)) (s, b) = (s', b') \<Longrightarrow>
     pb_waiting b' = [] \<and> pb_todo b' = []"
proof (induction t arbitrary: s b)
  case Nil
  then show ?case by (simp add: run_probes_def)
next
  case (Cons a t)
  obtain s1 b1 where one: "run_probes env cfg via [Begin a, Finish a] (s, b) = (s1, b1)" by (rule prod.exhaust)
  obtain s2 r where g: "begin_probe env cfg via a s = (s2, r)" by (rule prod.exhaust)
  have can: "can_begin cfg a b" using Cons.prems by (simp add: can_begin_def)
  have "pb_todo b1 = t \<and> pb_waiting b1 = []"
  proof (cases r)
    case None
    then show ?thesis using one g can Cons.prems by (auto simp: run_probes_Cons run_probes_def probe_step_def)
  next
    case (Some ans)
    then show ?thesis using one g can Cons.prems
      by (cases "finish_probe env cfg via a ans s2")
        (auto simp: run_probes_Cons run_probes_def probe_step_def dict_del_def)
  qed
  moreover have "run_probes env cfg via (concat (map (\<lambda>a. [Begin a, Finish a]) t)) (s1, b1) = (s', b')"
    using Cons.prems(3) one by (simp add: run_probes_Cons) (simp add: run_probes_def)
  ultimately show ?case using Cons.IH by blast
qed

lemma remaining_moves_complete:
  assumes "run_probes env cfg via (remaining_moves b) (s, b) = (s', b')" and "distinct (map fst (pb_waiting b))"
  shows "pb_todo b' = [] \<and> pb_waiting b' = []"
proof -
  obtain s1 b1 where one: "run_probes env cfg via (map (\<lambda>p. Finish (fst p)) (pb_waiting b)) (s, b) = (s1, b1)"
    by (rule prod.exhaust)
  note f = finish_all [OF refl assms(2) one]
  then show ?thesis
    using begin_all [of b1 "pb_todo b" env cfg via s1 s' b'] assms(1) one
    by (simp add: remaining_moves_def run_probes_append)
qed

text \<open>An invariant of the tasks of a host, indexed by what the scan knew before.\<close>

lemma expand_keeps:
  assumes "expand env cfg via cands s = (s', items)"
    and start: "\<And>fresh visited. reserve cands (ds_visited_ips s) = (fresh, visited) \<Longrightarrow>
      I (s\<lparr>ds_visited_ips := visited,
            ds_stats := (ds_stats s)\<lparr>st_candidates := st_candidates (ds_stats s) + length fresh\<rparr>\<rparr>, probe_start fresh)"
    and step: "\<And>mv sb. I sb \<Longrightarrow> I (probe_step env cfg via mv sb)"
  obtains fresh b3 where "I (s', b3)" "pb_todo b3 = [] \<and> pb_waiting b3 = []"
    "items = concat (map (\<lambda>a. case map_of (pb_done b3) a of Some (Some item) \<Rightarrow> [item] | _ \<Rightarrow> []) fresh)"
proof -
  obtain fresh visited s1 s2 b2 b3 where p: "reserve cands (ds_visited_ips s) = (fresh, visited)"
    "s1 = s\<lparr>ds_visited_ips := visited,
            ds_stats := (ds_stats s)\<lparr>st_candidates := st_candidates (ds_stats s) + length fresh\<rparr>\<rparr>"
    "run_probes env cfg via (dv_schedule env (ds_clock s) fresh) (s1, probe_start fresh) = (s2, b2)"
    "run_probes env cfg via (remaining_moves b2) (s2, b2) = (s', b3)"
    "items = concat (map (\<lambda>a. case map_of (pb_done b3) a of Some (Some item) \<Rightarrow> [item] | _ \<Rightarrow> []) fresh)"
    using assms(1) by (rule expand_parts)
  have "I (s1, probe_start fresh)" using start p(1,2) by simp
  then have "I (s2, b2)" using run_probes_keeps [of I, OF _ step] p(3) by metis
  then have "I (s', b3)" using run_probes_keeps [of I, OF _ step] p(4) by metis
  moreover have "pb_todo b3 = [] \<and> pb_waiting b3 = []"
  proof (rule remaining_moves_complete [OF p(4)])
    have "probes_wf fresh (snd (s1, probe_start fresh))"
      using reserve_spec [OF p(1)] by (simp add: probes_wf_def probe_start_def)
    then have "probes_wf fresh (snd (s2, b2))"
      using run_probes_keeps [of "\<lambda>sb. probes_wf fresh (snd sb)", OF _ probe_step_wf] p(3) by metis
    then show "distinct (map fst (pb_waiting b2))" by (simp add: probes_wf_def)
  qed
  ultimately show thesis using that p(5) by blast
qed

text \<open>And through the main loop: \<open>I frontier s\<close> survives stopping and one round with an item.\<close>

lemma disc_loop_keeps:
  assumes "I frontier s"
    and stop: "\<And>frontier s. I frontier s \<Longrightarrow> I frontier (s\<lparr>ds_clock := Suc (ds_clock s), ds_truncated := True\<rparr>)"
    and round: "\<And>item rest s s' items. I (item # rest) s \<Longrightarrow>
      explore env cfg item (s\<lparr>ds_clock := Suc (ds_clock s)\<rparr>) = (s', items) \<Longrightarrow> I (rest @ items) s'"
  obtains frontier' where "I frontier' (disc_loop env cfg frontier s)"
proof -
  have "\<exists>f. I f (disc_loop env cfg frontier s)"
    using assms(1) round
  proof (induction env cfg frontier s rule: disc_loop.induct)
    case (1 env cfg frontier s)
    show ?case
    proof (cases frontier)
      case Nil
      then show ?thesis using "1.prems"(1) by (auto simp: disc_loop.simps)
    next
      case (Cons item rest)
      define late s1 where "late = dv_late env (ds_clock s)" and "s1 = s\<lparr>ds_clock := Suc (ds_clock s)\<rparr>"
      then have clock: "(late, s1) = look_at_clock env s" by (simp add: look_at_clock_def)
      show ?thesis
      proof (cases "late \<or> full_up cfg s1")
        case True
        then have "disc_loop env cfg frontier s = s1\<lparr>ds_truncated := True\<rparr>"
          by (simp add: Cons disc_loop.simps [of env cfg "item # rest" s] clock [symmetric])
        then show ?thesis using stop [OF "1.prems"(1)] by (auto simp: s1_def)
      next
        case False
        obtain s2 items where e: "explore env cfg item s1 = (s2, items)" by (rule prod.exhaust)
        have step: "disc_loop env cfg frontier s = disc_loop env cfg (rest @ items) s2"
          using False by (simp add: Cons disc_loop.simps [of env cfg "item # rest" s] clock [symmetric] e)
        have "I (rest @ items) s2" using "1.prems" Cons e by (auto simp: s1_def)
        then show ?thesis
          unfolding step by (intro "1.IH" [OF Cons clock False e [symmetric]]) (auto intro: "1.prems"(2))
      qed
    qed
  qed
  then show thesis using that by blast
qed

subsection \<open>Bounds of a scan\<close>

text \<open>\<open>todo\<close> are the reserved addresses that have not been dialled yet.\<close>

definition scan_bounds :: "disc_config \<Rightarrow> string list \<Rightarrow> disc_state \<Rightarrow> bool" where
  "scan_bounds cfg todo s \<longleftrightarrow> distinct (dialled s @ todo) \<and> set (dialled s @ todo) \<subseteq> set (ds_visited_ips s)
     \<and> (let hosts = map host_key (ds_discovered s)
        in distinct (map (\<lambda>(n, fp, v, d). fp) hosts) \<and> set (map (\<lambda>(n, fp, v, d). fp) hosts) \<subseteq> set (ds_visited_fps s)
          \<and> list_all (\<lambda>(n, fp, v, d). 1 \<le> d \<and> int d \<le> dc_max_depth cfg) hosts
          \<and> int (length hosts) \<le> max 0 (dc_max_nodes cfg))"

lemma scan_bounds_upd [simp]:
  "scan_bounds cfg todo (s\<lparr>ds_truncated := t\<rparr>) = scan_bounds cfg todo s"
  "scan_bounds cfg todo (s\<lparr>ds_clock := k\<rparr>) = scan_bounds cfg todo s"
  "scan_bounds cfg todo (s\<lparr>ds_stats := st\<rparr>) = scan_bounds cfg todo s"
  "scan_bounds cfg todo (s\<lparr>ds_audit := au\<rparr>) = scan_bounds cfg todo s"
  "scan_bounds cfg todo (s\<lparr>ds_key_space := ks\<rparr>) = scan_bounds cfg todo s"
  "scan_bounds cfg todo (s\<lparr>ds_skipped := sk\<rparr>) = scan_bounds cfg todo s"
  "scan_bounds cfg todo (s\<lparr>ds_open_conns := cs\<rparr>) = scan_bounds cfg todo s"
  "scan_bounds cfg todo (s\<lparr>ds_closed := cs\<rparr>) = scan_bounds cfg todo s"
  by (simp_all add: scan_bounds_def dialled_def)

lemma scan_bounds_begin:
  assumes "begin_probe env cfg via a s = (s', r)" and "scan_bounds cfg todo s" and "a \<in> set todo"
  shows "scan_bounds cfg (remove1 a todo) s'"
  using begin_probe_effect [OF assms(1)] assms(2,3)
  by (auto simp: scan_bounds_def distinct_remove1 set_remove1_eq dest: notin_set_remove1)

lemma scan_bounds_finish:
  assumes "finish_probe env cfg via a answer s = (s', item)" and "scan_bounds cfg todo s"
    and "int (fi_depth via) < dc_max_depth cfg"
  shows "scan_bounds cfg todo s'"
proof -
  note e = finish_probe_effect [OF assms(1)]
  have fps: "set (ds_visited_fps s) \<subseteq> set (ds_visited_fps s')" using e(1) by blast
  have base: "distinct (dialled s' @ todo) \<and> set (dialled s' @ todo) \<subseteq> set (ds_visited_ips s')"
    using assms(2) e(1) by (simp add: scan_bounds_def dialled_def)
  from e(2) show ?thesis
  proof (elim disjE conjE exE)
    assume same: "map host_key (ds_discovered s') = map host_key (ds_discovered s)"
    show ?thesis using base assms(2) fps unfolding scan_bounds_def same Let_def by blast
  next
    fix name fp assume h: "item \<noteq> None" "fp \<notin> set (ds_visited_fps s)" "fp \<in> set (ds_visited_fps s')"
      "map host_key (ds_discovered s') = map host_key (ds_discovered s) @ [(name, fp, fi_name via, fi_depth via + 1)]"
    have "int (length (map host_key (ds_discovered s'))) \<le> dc_max_nodes cfg"
      using finish_probe_count [OF assms(1)] h(1) by simp
    then show ?thesis using base assms(2,3) fps h(2,3) unfolding scan_bounds_def h(4) Let_def by auto
  qed
qed

lemma probe_step_bounds:
  fixes sb :: "disc_state \<times> probes"
  assumes "scan_bounds cfg (pb_todo (snd sb)) (fst sb)" and "int (fi_depth via) < dc_max_depth cfg"
  shows "scan_bounds cfg (pb_todo (snd (probe_step env cfg via mv sb))) (fst (probe_step env cfg via mv sb))"
proof (cases mv)
  case (Begin a)
  then show ?thesis
    using assms(1) scan_bounds_begin [of env cfg via a "fst sb" _ _ "pb_todo (snd sb)"]
    by (auto simp: probe_step_def can_begin_def split: prod.split option.split)
next
  case (Finish a)
  then show ?thesis
    using assms scan_bounds_finish [of env cfg via a _ "fst sb" _ _ "pb_todo (snd sb)"]
    by (auto simp: probe_step_def split: prod.split option.split)
qed

lemma expand_bounds:
  assumes "expand env cfg via cands s = (s', items)" and "scan_bounds cfg [] s"
    and "int (fi_depth via) < dc_max_depth cfg"
  shows "scan_bounds cfg [] s'"
proof -
  let ?I = "\<lambda>sb :: disc_state \<times> probes. scan_bounds cfg (pb_todo (snd sb)) (fst sb)"
  obtain fresh b3 where b: "?I (s', b3)" "pb_todo b3 = [] \<and> pb_waiting b3 = []"
    "items = concat (map (\<lambda>a. case map_of (pb_done b3) a of Some (Some item) \<Rightarrow> [item] | _ \<Rightarrow> []) fresh)"
  proof (rule expand_keeps [OF assms(1), of ?I])
    fix fresh visited assume "reserve cands (ds_visited_ips s) = (fresh, visited)"
    from reserve_spec [OF this] assms(2)
    show "?I (s\<lparr>ds_visited_ips := visited,
            ds_stats := (ds_stats s)\<lparr>st_candidates := st_candidates (ds_stats s) + length fresh\<rparr>\<rparr>, probe_start fresh)"
      by (auto simp: scan_bounds_def probe_start_def dialled_def simp del: set_map)
  next
    fix mv :: probe_move and sb :: "disc_state \<times> probes" assume "?I sb" then show "?I (probe_step env cfg via mv sb)" by (rule probe_step_bounds [OF _ assms(3)])
  qed
  then show ?thesis by simp
qed

lemma scan_bounds_harvest:
  "scan_bounds cfg todo (maybe_harvest_keys env cfg item s) = scan_bounds cfg todo s"
  by (simp add: maybe_harvest_keys_def disc_log_def Let_def split: bool.split option.split prod.split)

lemma explore_bounds:
  assumes "explore env cfg item s = (s', items)" and "scan_bounds cfg [] s"
  shows "scan_bounds cfg [] s'"
proof (cases "dc_max_depth cfg \<le> int (fi_depth item)")
  case True
  then show ?thesis using assms by (auto simp: explore_def)
next
  case False
  then have "expand env cfg item (harvest_candidates env cfg item) (maybe_harvest_keys env cfg item s) = (s', items)"
    using assms(1) by (simp add: explore_def)
  then show ?thesis by (rule expand_bounds) (use assms(2) False in \<open>simp_all add: scan_bounds_harvest\<close>)
qed

lemma disc_run_bounds: "scan_bounds cfg [] (disc_run env cfg seeds (DiscoveryEngine reg a keys))"
proof -
  let ?I = "\<lambda>frontier :: frontier_item list. scan_bounds cfg []"
  obtain f where "?I f (disc_loop env cfg seeds (DiscoveryEngine reg a keys))"
  proof (rule disc_loop_keeps [of ?I])
    show "?I seeds (DiscoveryEngine reg a keys)" by (simp add: scan_bounds_def DiscoveryEngine_def dialled_def)
    fix frontier s assume "?I frontier s"
    then show "?I frontier (s\<lparr>ds_clock := Suc (ds_clock s), ds_truncated := True\<rparr>)" by simp
  next
    fix item rest s s' items
    assume "?I (item # rest) s" and e: "explore env cfg item (s\<lparr>ds_clock := Suc (ds_clock s)\<rparr>) = (s', items)"
    then show "?I (rest @ items) s'" by (intro explore_bounds [OF e]) simp
  qed
  then show ?thesis by (simp add: disc_run_def Let_def)
qed

text \<open>C32: Whatever the hosts answer and in whatever order the tasks of a scan run, it keeps its bounds:
  at most \<open>max_nodes\<close> hosts are discovered, all at depths from 1 to \<open>max_depth\<close>, no two with the same
  host-key fingerprint, and no address is dialled twice.\<close>

theorem discovery_bounded:
  "let s = disc_run env cfg seeds (DiscoveryEngine reg a keys)
   in int (length (ds_discovered s)) \<le> max 0 (dc_max_nodes cfg)
     \<and> list_all (\<lambda>h. 1 \<le> dh_depth h \<and> int (dh_depth h) \<le> dc_max_depth cfg) (ds_discovered s)
     \<and> distinct (map dh_fingerprint (ds_discovered s)) \<and> distinct (dialled s)"
  using disc_run_bounds [of cfg env seeds reg a keys]
  by (simp add: scan_bounds_def host_key_def list.pred_map comp_def Let_def)

end
