(* ===== verification/Discovery_Registry.thy ===== *)
theory Discovery_Registry
  imports Discovery_Runs
begin

section \<open>What a discovery scan leaves in the registry\<close>

text \<open>
  A scan appends one server to the table it writes for every host it reports, in the order of the
  report, and changes nothing else. Each of them jumps through the host that discovered it, so that its
  jump chain leads back to a seed; the note carries the session, by which \<open>teardown_discovery\<close> finds it.
\<close>

subsection \<open>One registration\<close>

lemma disc_server_config_sel [simp]:
  "sc_name (disc_server_config cfg name fp a via u) = name"
  "sc_note (disc_server_config cfg name fp a via u) = Some (disc_note (dc_session cfg) fp)"
  "sc_jump_host (disc_server_config cfg name fp a via u) = (if fi_is_local via then None else Some (fi_name via))"
  by (simp_all add: disc_server_config_def ServerConfig_def)

abbreviation own_table :: "disc_config \<Rightarrow> registry \<Rightarrow> (string, server_config) dict" where
  "own_table cfg \<equiv> target_table (dc_persist cfg)"

abbreviation other_table :: "disc_config \<Rightarrow> registry \<Rightarrow> (string, server_config) dict" where
  "other_table cfg \<equiv> target_table (\<not> dc_persist cfg)"

lemma disc_register_tables:
  assumes "disc_register env cfg fp a via u s = (s', r)"
  shows "case r of
      Inl e \<Rightarrow> own_table cfg (ds_registry s') = own_table cfg (ds_registry s)
        \<and> other_table cfg (ds_registry s') = other_table cfg (ds_registry s)
    | Inr (name, b) \<Rightarrow>
        map_of (own_table cfg (ds_registry s)) name = None \<and> map_of (other_table cfg (ds_registry s)) name = None
        \<and> own_table cfg (ds_registry s') = own_table cfg (ds_registry s) @ [(name, disc_server_config cfg name fp a via u)]
        \<and> other_table cfg (ds_registry s') = other_table cfg (ds_registry s)"
proof -
  let ?name = "free_name (ds_registry s) (dc_name_prefix cfg @ ''-'' @ fp_short fp)"
  let ?c = "disc_server_config cfg ?name fp a via u"
  let ?add = "\<lambda>c r. if dc_persist cfg then reg_add (dv_fate env) c r else reg_add_ephemeral c r"
  obtain r1 w where add: "?add ?c (ds_registry s) = (r1, w)" by (rule prod.exhaust)
  have "case w of
      Inl e \<Rightarrow> own_table cfg r1 = own_table cfg (ds_registry s) \<and> other_table cfg r1 = other_table cfg (ds_registry s)
    | Inr _ \<Rightarrow> map_of (own_table cfg (ds_registry s)) ?name = None \<and> map_of (other_table cfg (ds_registry s)) ?name = None
        \<and> own_table cfg r1 = dict_set ?name ?c (own_table cfg (ds_registry s))
        \<and> other_table cfg r1 = other_table cfg (ds_registry s)"
  proof (cases "dc_persist cfg")
    case True
    then show ?thesis
      using add file_table.add_ok [of "dv_fate env" ?c "ds_registry s" r1]
        file_table.add_fail [of "dv_fate env" ?c "ds_registry s" r1]
      by (auto simp: target_table_def split: sum.split)
  next
    case False
    then show ?thesis
      using add mem_table.add_ok [of ?c "ds_registry s" r1] mem_table.add_fail [of ?c "ds_registry s" r1]
      by (auto simp: target_table_def split: sum.split)
  qed
  then show ?thesis
    using assms add
    by (auto simp: disc_register_def dict_set_fresh Let_def split: sum.splits if_splits)
qed

subsection \<open>One task\<close>

type_synonym host_keys = "(string \<times> string \<times> string \<times> nat) list"

abbreviation reported :: "disc_state \<Rightarrow> host_keys" where
  "reported s \<equiv> map host_key (ds_discovered s)"

text \<open>A frontier item that stands for a reported host.\<close>

definition item_known :: "host_keys \<Rightarrow> frontier_item \<Rightarrow> bool" where
  "item_known hosts i \<longleftrightarrow> \<not> fi_is_local i \<and> (\<exists>fp v. (fi_name i, fp, v, fi_depth i) \<in> set hosts)"

text \<open>\<open>c\<close> is the entry of the reported host: it jumps through a seed or a host reported one level above.\<close>

definition linked :: "string \<Rightarrow> frontier_item list \<Rightarrow> host_keys \<Rightarrow> string \<times> string \<times> string \<times> nat \<Rightarrow> server_config \<Rightarrow> bool" where
  "linked session seeds hosts k c \<longleftrightarrow> (case k of (n, fp, v, d) \<Rightarrow>
     sc_name c = n \<and> sc_note c = Some (disc_note session fp)
     \<and> (\<exists>w. (w \<in> set seeds \<or> item_known hosts w) \<and> v = fi_name w \<and> d = fi_depth w + 1
            \<and> sc_jump_host c = (if fi_is_local w then None else Some v)))"

lemma list_all2_set2:
  assumes "list_all2 P xs ys" and "y \<in> set ys"
  shows "\<exists>x. P x y"
  using assms by (induction rule: list_all2_induct) auto

lemma linkedE:
  assumes "linked session seeds hosts (n, fp, v, d) c"
  obtains w where "sc_name c = n" "sc_note c = Some (disc_note session fp)" "w \<in> set seeds \<or> item_known hosts w"
    "v = fi_name w" "d = fi_depth w + 1" "sc_jump_host c = (if fi_is_local w then None else Some v)"
  using assms unfolding linked_def by blast

lemma linked_names: "list_all2 (linked session seeds hosts) ks cs \<Longrightarrow> map sc_name cs = map fst ks"
  by (induction rule: list_all2_induct) (auto simp: linked_def)

lemma item_known_mono: "item_known hosts i \<Longrightarrow> set hosts \<subseteq> set hosts' \<Longrightarrow> item_known hosts' i"
  unfolding item_known_def by blast

lemma linked_mono: "linked session seeds hosts k c \<Longrightarrow> set hosts \<subseteq> set hosts' \<Longrightarrow> linked session seeds hosts' k c"
  unfolding linked_def by (auto split: prod.splits intro: item_known_mono)

definition reg_tracks :: "disc_config \<Rightarrow> frontier_item list \<Rightarrow> registry \<Rightarrow> disc_state \<Rightarrow> bool" where
  "reg_tracks cfg seeds reg s \<longleftrightarrow> (\<exists>cs.
     own_table cfg (ds_registry s) = own_table cfg reg @ map (\<lambda>c. (sc_name c, c)) cs
     \<and> other_table cfg (ds_registry s) = other_table cfg reg
     \<and> distinct (map sc_name cs)
     \<and> (\<forall>c \<in> set cs. map_of (own_table cfg reg) (sc_name c) = None \<and> map_of (other_table cfg reg) (sc_name c) = None)
     \<and> list_all2 (linked (dc_session cfg) seeds (reported s)) (reported s) cs)"

lemma finish_probe_tables:
  assumes "finish_probe env cfg via a answer s = (s', item)"
  shows "item = None \<and> reported s' = reported s
       \<and> own_table cfg (ds_registry s') = own_table cfg (ds_registry s)
       \<and> other_table cfg (ds_registry s') = other_table cfg (ds_registry s)
     \<or> (\<exists>i fp c. item = Some i \<and> \<not> fi_is_local i \<and> fi_depth i = fi_depth via + 1 \<and> fi_name i = sc_name c
       \<and> reported s' = reported s @ [(sc_name c, fp, fi_name via, fi_depth via + 1)]
       \<and> map_of (own_table cfg (ds_registry s)) (sc_name c) = None
       \<and> map_of (other_table cfg (ds_registry s)) (sc_name c) = None
       \<and> own_table cfg (ds_registry s') = own_table cfg (ds_registry s) @ [(sc_name c, c)]
       \<and> other_table cfg (ds_registry s') = other_table cfg (ds_registry s)
       \<and> sc_note c = Some (disc_note (dc_session cfg) fp)
       \<and> sc_jump_host c = (if fi_is_local via then None else Some (fi_name via)))"
proof (cases "\<exists>conn fp. answer = Some (conn, Some fp) \<and> fp \<notin> set (ds_visited_fps s)")
  case True
  then obtain conn fp where a: "answer = Some (conn, Some fp)" "fp \<notin> set (ds_visited_fps s)" by blast
  let ?s = "s\<lparr>ds_stats := (ds_stats s)\<lparr>st_connects_ok := Suc (st_connects_ok (ds_stats s))\<rparr>,
      ds_visited_fps := fp # ds_visited_fps s\<rparr>"
  let ?u = "probe_user env cfg via a"
  have acc: "accept_host env cfg via a conn fp ?s = (s', item)" using assms a by (simp add: finish_probe_def)
  show ?thesis
  proof (cases "full_up cfg ?s")
    case True
    then show ?thesis using acc by (auto simp: accept_host_def close_conn_def)
  next
    case False
    obtain s1 r where reg: "disc_register env cfg fp a via ?u ?s = (s1, r)" by (rule prod.exhaust)
    note tab = disc_register_tables [OF reg] and eff = disc_register_effect [OF reg]
    show ?thesis
    proof (cases r)
      case (Inl e)
      then show ?thesis using acc False reg tab eff by (auto simp: accept_host_def close_conn_def)
    next
      case (Inr nb)
      obtain name b where nb: "nb = (name, b)" by (rule prod.exhaust)
      let ?c = "disc_server_config cfg name fp a via ?u"
      have s': "s' = add_host env cfg via a conn fp name b s1"
        and item: "item = Some \<lparr>fi_name = name, fi_conn = Some conn, fi_depth = fi_depth via + 1, fi_is_local = False\<rparr>"
        using acc False reg Inr nb by (simp_all add: accept_host_def)
      have "reported s' = reported s @ [(name, fp, fi_name via, fi_depth via + 1)]" "ds_registry s' = ds_registry s1"
        using eff by (simp_all add: s' add_host_def disc_log_def host_entry_def host_key_def)
      then show ?thesis using tab Inr nb item by (intro disjI2 exI [of _ ?c] exI [of _ fp]) simp
    qed
  qed
next
  case False
  then show ?thesis using assms
    by (auto simp: finish_probe_def close_conn_def Let_def split: option.splits if_splits prod.splits)
qed

lemma finish_probe_tracks:
  assumes "finish_probe env cfg via a answer s = (s', item)" and "reg_tracks cfg seeds reg s"
    and "via \<in> set seeds \<or> item_known (reported s) via"
  shows "reg_tracks cfg seeds reg s' \<and> set (reported s) \<subseteq> set (reported s')
    \<and> (case item of None \<Rightarrow> True | Some i \<Rightarrow> item_known (reported s') i)"
  using finish_probe_tables [OF assms(1)]
proof (elim disjE)
  assume "item = None \<and> reported s' = reported s
       \<and> own_table cfg (ds_registry s') = own_table cfg (ds_registry s)
       \<and> other_table cfg (ds_registry s') = other_table cfg (ds_registry s)"
  then show ?thesis using assms(2) unfolding reg_tracks_def by simp
next
  assume "\<exists>i fp c. item = Some i \<and> \<not> fi_is_local i \<and> fi_depth i = fi_depth via + 1 \<and> fi_name i = sc_name c
       \<and> reported s' = reported s @ [(sc_name c, fp, fi_name via, fi_depth via + 1)]
       \<and> map_of (own_table cfg (ds_registry s)) (sc_name c) = None
       \<and> map_of (other_table cfg (ds_registry s)) (sc_name c) = None
       \<and> own_table cfg (ds_registry s') = own_table cfg (ds_registry s) @ [(sc_name c, c)]
       \<and> other_table cfg (ds_registry s') = other_table cfg (ds_registry s)
       \<and> sc_note c = Some (disc_note (dc_session cfg) fp)
       \<and> sc_jump_host c = (if fi_is_local via then None else Some (fi_name via))"
  then obtain i fp c where new: "item = Some i" "\<not> fi_is_local i" "fi_depth i = fi_depth via + 1" "fi_name i = sc_name c"
    "reported s' = reported s @ [(sc_name c, fp, fi_name via, fi_depth via + 1)]"
    "map_of (own_table cfg (ds_registry s)) (sc_name c) = None"
    "map_of (other_table cfg (ds_registry s)) (sc_name c) = None"
    "own_table cfg (ds_registry s') = own_table cfg (ds_registry s) @ [(sc_name c, c)]"
    "other_table cfg (ds_registry s') = other_table cfg (ds_registry s)"
    "sc_note c = Some (disc_note (dc_session cfg) fp)"
    "sc_jump_host c = (if fi_is_local via then None else Some (fi_name via))" by blast
  obtain cs where old: "own_table cfg (ds_registry s) = own_table cfg reg @ map (\<lambda>c. (sc_name c, c)) cs"
    "other_table cfg (ds_registry s) = other_table cfg reg" "distinct (map sc_name cs)"
    "\<forall>c \<in> set cs. map_of (own_table cfg reg) (sc_name c) = None \<and> map_of (other_table cfg reg) (sc_name c) = None"
    "list_all2 (linked (dc_session cfg) seeds (reported s)) (reported s) cs"
    using assms(2) unfolding reg_tracks_def by blast
  have sub: "set (reported s) \<subseteq> set (reported s')" using new(5) by auto
  have "list_all2 (linked (dc_session cfg) seeds (reported s')) (reported s) cs"
    using old(5) by (rule list_all2_mono) (rule linked_mono [OF _ sub])
  moreover have "linked (dc_session cfg) seeds (reported s') (sc_name c, fp, fi_name via, fi_depth via + 1) c"
    using assms(3) new(10,11) item_known_mono [OF _ sub] unfolding linked_def by auto
  ultimately have all: "list_all2 (linked (dc_session cfg) seeds (reported s')) (reported s') (cs @ [c])"
    unfolding new(5) by (simp add: list_all2_appendI)
  have fresh: "map_of (own_table cfg reg) (sc_name c) = None" "sc_name c \<notin> set (map sc_name cs)"
    "map_of (other_table cfg reg) (sc_name c) = None"
    using new(6,7) old(1,2) by (auto simp: map_of_eq_None_iff image_image)
  have "reg_tracks cfg seeds reg s'"
    unfolding reg_tracks_def
    using all fresh old(1-4) new(8,9) by (intro exI [of _ "cs @ [c]"]) auto
  moreover have "item_known (reported s') i" using new by (auto simp: item_known_def)
  ultimately show ?thesis using sub new(1) by simp
qed

subsection \<open>The whole scan\<close>

lemma begin_probe_reported:
  assumes "begin_probe env cfg via a s = (s', r)"
  shows "reg_tracks cfg seeds reg s' = reg_tracks cfg seeds reg s" "ds_discovered s' = ds_discovered s"
  using begin_probe_effect [OF assms] by (simp_all add: reg_tracks_def)

text \<open>While the tasks of \<open>via\<close> run: the registry follows the report, and so do the results.\<close>

definition probes_track ::
    "disc_config \<Rightarrow> frontier_item list \<Rightarrow> registry \<Rightarrow> frontier_item \<Rightarrow> disc_state \<times> probes \<Rightarrow> bool" where
  "probes_track cfg seeds reg via sb \<longleftrightarrow> reg_tracks cfg seeds reg (fst sb)
     \<and> (via \<in> set seeds \<or> item_known (reported (fst sb)) via)
     \<and> (\<forall>i. Some i \<in> snd ` set (pb_done (snd sb)) \<longrightarrow> item_known (reported (fst sb)) i)"

lemma probe_step_tracks:
  assumes "probes_track cfg seeds reg via sb"
  shows "probes_track cfg seeds reg via (probe_step env cfg via mv sb)
    \<and> set (reported (fst sb)) \<subseteq> set (reported (fst (probe_step env cfg via mv sb)))"
proof -
  obtain s b where sb: "sb = (s, b)" by (rule prod.exhaust)
  show ?thesis
  proof (cases mv)
    case (Begin a)
    obtain s' r where p: "begin_probe env cfg via a s = (s', r)" by (rule prod.exhaust)
    then show ?thesis
      using assms begin_probe_reported [OF p] sb Begin
      by (cases r) (auto simp: probe_step_def probes_track_def)
  next
    case (Finish a)
    show ?thesis
    proof (cases "map_of (pb_waiting b) a")
      case None
      then show ?thesis using assms sb Finish by (simp add: probe_step_def)
    next
      case (Some answer)
      obtain s' item where f: "finish_probe env cfg via a answer s = (s', item)" by (rule prod.exhaust)
      have t: "reg_tracks cfg seeds reg s'" "set (reported s) \<subseteq> set (reported s')"
        "case item of None \<Rightarrow> True | Some i \<Rightarrow> item_known (reported s') i"
        using finish_probe_tracks [OF f, of seeds reg] assms unfolding probes_track_def sb fst_conv by blast+
      have "probe_step env cfg via mv sb = (s', b\<lparr>pb_waiting := dict_del a (pb_waiting b), pb_done := pb_done b @ [(a, item)]\<rparr>)"
        using sb Finish Some f by (simp add: probe_step_def)
      then show ?thesis
        using t assms sb item_known_mono [OF _ t(2)] by (auto simp: probes_track_def split: option.splits)
    qed
  qed
qed

lemma reg_tracks_upd [simp]:
  "reg_tracks cfg seeds reg (s\<lparr>ds_truncated := t\<rparr>) = reg_tracks cfg seeds reg s"
  "reg_tracks cfg seeds reg (s\<lparr>ds_clock := k\<rparr>) = reg_tracks cfg seeds reg s"
  "reg_tracks cfg seeds reg (s\<lparr>ds_stats := st\<rparr>) = reg_tracks cfg seeds reg s"
  "reg_tracks cfg seeds reg (s\<lparr>ds_audit := au\<rparr>) = reg_tracks cfg seeds reg s"
  "reg_tracks cfg seeds reg (s\<lparr>ds_key_space := ks\<rparr>) = reg_tracks cfg seeds reg s"
  "reg_tracks cfg seeds reg (s\<lparr>ds_skipped := sk\<rparr>) = reg_tracks cfg seeds reg s"
  "reg_tracks cfg seeds reg (s\<lparr>ds_open_conns := cs\<rparr>) = reg_tracks cfg seeds reg s"
  "reg_tracks cfg seeds reg (s\<lparr>ds_closed := cs\<rparr>) = reg_tracks cfg seeds reg s"
  "reg_tracks cfg seeds reg (s\<lparr>ds_visited_ips := vs\<rparr>) = reg_tracks cfg seeds reg s"
  by (simp_all add: reg_tracks_def)

lemma expand_tracks:
  assumes "expand env cfg via cands s = (s', items)" and "reg_tracks cfg seeds reg s"
    and "via \<in> set seeds \<or> item_known (reported s) via"
  shows "reg_tracks cfg seeds reg s' \<and> set (reported s) \<subseteq> set (reported s')
    \<and> (\<forall>i \<in> set items. item_known (reported s') i)"
proof -
  let ?I = "\<lambda>sb :: disc_state \<times> probes. probes_track cfg seeds reg via sb \<and> set (reported s) \<subseteq> set (reported (fst sb))"
  obtain fresh b3 where b: "?I (s', b3)" "pb_todo b3 = [] \<and> pb_waiting b3 = []"
    "items = concat (map (\<lambda>a. case map_of (pb_done b3) a of Some (Some item) \<Rightarrow> [item] | _ \<Rightarrow> []) fresh)"
  proof (rule expand_keeps [OF assms(1), of ?I])
    fix fresh visited
    show "?I (s\<lparr>ds_visited_ips := visited,
            ds_stats := (ds_stats s)\<lparr>st_candidates := st_candidates (ds_stats s) + length fresh\<rparr>\<rparr>, probe_start fresh)"
      using assms(2,3) by (simp add: probes_track_def probe_start_def)
  next
    fix mv :: probe_move and sb :: "disc_state \<times> probes"
    assume "?I sb"
    then show "?I (probe_step env cfg via mv sb)"
      using probe_step_tracks [of cfg seeds reg via sb env mv] by blast
  qed
  have "Some i \<in> snd ` set (pb_done b3)" if "i \<in> set items" for i
  proof -
    have "\<exists>a. map_of (pb_done b3) a = Some (Some i)" using that unfolding b(3) by (auto split: option.splits)
    then show ?thesis by (force dest: map_of_SomeD)
  qed
  then show ?thesis using b(1) by (auto simp: probes_track_def)
qed

definition frontier_tracks :: "disc_config \<Rightarrow> frontier_item list \<Rightarrow> registry \<Rightarrow> frontier_item list \<Rightarrow> disc_state \<Rightarrow> bool" where
  "frontier_tracks cfg seeds reg frontier s \<longleftrightarrow> reg_tracks cfg seeds reg s
     \<and> (\<forall>i \<in> set frontier. i \<in> set seeds \<or> item_known (reported s) i)"

lemma explore_tracks:
  assumes "explore env cfg item s = (s', items)" and "frontier_tracks cfg seeds reg (item # rest) s"
  shows "frontier_tracks cfg seeds reg (rest @ items) s'"
proof (cases "dc_max_depth cfg \<le> int (fi_depth item)")
  case True
  then show ?thesis using assms by (auto simp: explore_def frontier_tracks_def)
next
  case False
  let ?s = "maybe_harvest_keys env cfg item s"
  have e: "expand env cfg item (harvest_candidates env cfg item) ?s = (s', items)"
    using assms(1) False by (simp add: explore_def)
  have t: "reg_tracks cfg seeds reg ?s" "reported ?s = reported s"
    using assms(2)
    by (simp_all add: frontier_tracks_def maybe_harvest_keys_def disc_log_def Let_def
        split: bool.split option.split prod.split)
  have "item \<in> set seeds \<or> item_known (reported ?s) item" using assms(2) t(2) by (simp add: frontier_tracks_def)
  from expand_tracks [OF e t(1) this] show ?thesis
    using assms(2) t(2) item_known_mono by (auto simp: frontier_tracks_def)
qed

lemma disc_run_tracks: "reg_tracks cfg seeds reg (disc_run env cfg seeds (DiscoveryEngine reg a keys))"
proof -
  obtain f where "frontier_tracks cfg seeds reg f (disc_loop env cfg seeds (DiscoveryEngine reg a keys))"
  proof (rule disc_loop_keeps [of "frontier_tracks cfg seeds reg"])
    show "frontier_tracks cfg seeds reg seeds (DiscoveryEngine reg a keys)"
      by (simp add: frontier_tracks_def reg_tracks_def DiscoveryEngine_def)
  next
    fix frontier s assume "frontier_tracks cfg seeds reg frontier s"
    then show "frontier_tracks cfg seeds reg frontier (s\<lparr>ds_clock := Suc (ds_clock s), ds_truncated := True\<rparr>)"
      by (simp add: frontier_tracks_def)
  next
    fix item rest s s' items
    assume "frontier_tracks cfg seeds reg (item # rest) s"
      and e: "explore env cfg item (s\<lparr>ds_clock := Suc (ds_clock s)\<rparr>) = (s', items)"
    then show "frontier_tracks cfg seeds reg (rest @ items) s'"
      by (intro explore_tracks [OF e]) (simp add: frontier_tracks_def)
  qed
  then show ?thesis by (simp add: disc_run_def Let_def frontier_tracks_def)
qed

subsection \<open>Reachability of the reported hosts\<close>

lemma tracked_lookup:
  assumes "reg_tracks cfg seeds reg s" and "k \<in> set (reported s)"
  shows "\<exists>c. linked (dc_session cfg) seeds (reported s) k c \<and> reg_get (ds_registry s) (fst k) = Inr c"
proof -
  obtain cs where old: "own_table cfg (ds_registry s) = own_table cfg reg @ map (\<lambda>c. (sc_name c, c)) cs"
    "other_table cfg (ds_registry s) = other_table cfg reg" "distinct (map sc_name cs)"
    "\<forall>c \<in> set cs. map_of (own_table cfg reg) (sc_name c) = None \<and> map_of (other_table cfg reg) (sc_name c) = None"
    "list_all2 (linked (dc_session cfg) seeds (reported s)) (reported s) cs"
    using assms(1) unfolding reg_tracks_def by blast
  obtain i where i: "i < length (reported s)" "reported s ! i = k" using assms(2) by (auto simp: in_set_conv_nth)
  then have c: "linked (dc_session cfg) seeds (reported s) k (cs ! i)" "cs ! i \<in> set cs"
    using old(5) by (auto simp: list_all2_conv_all_nth)
  have "map_of (map (\<lambda>c. (sc_name c, c)) cs) (sc_name (cs ! i)) = Some (cs ! i)"
    using old(3) c(2) by (simp add: map_of_eq_Some_iff comp_def)
  then have "map_of (own_table cfg (ds_registry s)) (sc_name (cs ! i)) = Some (cs ! i)"
    "map_of (other_table cfg (ds_registry s)) (sc_name (cs ! i)) = None"
    using old(1,2,4) c(2) by (auto simp: map_add_Some_iff)
  then have "reg_get (ds_registry s) (sc_name (cs ! i)) = Inr (cs ! i)"
    by (cases "dc_persist cfg") (auto simp: reg_get_Inr_iff target_table_def)
  moreover have "sc_name (cs ! i) = fst k" using c(1) by (auto simp: linked_def split: prod.splits)
  ultimately show ?thesis using c(1) by auto
qed

lemma tracked_route:
  assumes "reg_tracks cfg seeds reg s" and "\<forall>w \<in> set seeds. fi_depth w = 0" and "(n, fp, v, Suc d) \<in> set (reported s)"
  shows "\<exists>w m. w \<in> set seeds \<and> chain_at (reg_jump (ds_registry s)) n d = Some m
    \<and> reg_jump (ds_registry s) m = (if fi_is_local w then None else Some (fi_name w))"
  using assms(3)
proof (induction d arbitrary: n fp v)
  case 0
  obtain c where c: "linked (dc_session cfg) seeds (reported s) (n, fp, v, Suc 0) c" "reg_get (ds_registry s) n = Inr c"
    using tracked_lookup [OF assms(1) "0"] by auto
  obtain w where w: "w \<in> set seeds \<or> item_known (reported s) w" "v = fi_name w" "fi_depth w = 0"
    "sc_jump_host c = (if fi_is_local w then None else Some v)" using linkedE [OF c(1)] by auto
  have "d \<noteq> 0" if "(n', fp', v', d) \<in> set (reported s)" for n' fp' v' d
    using tracked_lookup [OF assms(1) that] by (auto simp: linked_def)
  then have "w \<in> set seeds" using w(1,3) by (fastforce simp: item_known_def)
  then show ?case using c(2) w(2,4) by (auto simp: reg_jump_def)
next
  case (Suc d)
  obtain c where c: "linked (dc_session cfg) seeds (reported s) (n, fp, v, Suc (Suc d)) c" "reg_get (ds_registry s) n = Inr c"
    using tracked_lookup [OF assms(1) Suc.prems] by auto
  obtain w where w: "w \<in> set seeds \<or> item_known (reported s) w" "v = fi_name w" "fi_depth w = Suc d"
    "sc_jump_host c = (if fi_is_local w then None else Some v)" using linkedE [OF c(1)] by (metis Suc_eq_plus1 Suc_inject)
  have "w \<notin> set seeds" using w(3) assms(2) by auto
  then obtain fp' v' where k: "\<not> fi_is_local w" "(fi_name w, fp', v', Suc d) \<in> set (reported s)"
    using w(1,3) by (auto simp: item_known_def)
  have "reg_jump (ds_registry s) n = Some (fi_name w)" using c(2) w(2,4) k(1) by (simp add: reg_jump_def)
  then show ?case using Suc.IH [OF k(2)] by simp
qed

text \<open>C35: Every host a scan reports is registered under its name with its session and fingerprint in the
  note, and following \<open>jump_host\<close> from it leads in as many steps as its depth back to a seed of the scan
  (or ends there, for the local seed): the pool can dial it over the hosts by which it was found.\<close>

theorem discovered_hosts_reachable:
  assumes "s = disc_run env cfg seeds (DiscoveryEngine reg a keys)" and "\<forall>w \<in> set seeds. fi_depth w = 0"
    and "h \<in> set (ds_discovered s)"
  shows "\<exists>c w m. reg_get (ds_registry s) (dh_name h) = Inr c
    \<and> sc_note c = Some (disc_note (dc_session cfg) (dh_fingerprint h))
    \<and> w \<in> set seeds \<and> chain_at (reg_jump (ds_registry s)) (dh_name h) (dh_depth h - 1) = Some m
    \<and> reg_jump (ds_registry s) m = (if fi_is_local w then None else Some (fi_name w))"
proof -
  have t: "reg_tracks cfg seeds reg s" using disc_run_tracks assms(1) by simp
  have k: "(dh_name h, dh_fingerprint h, dh_via h, dh_depth h) \<in> set (reported s)"
    using imageI [OF assms(3), of host_key] by (simp add: host_key_def)
  obtain c where c: "reg_get (ds_registry s) (dh_name h) = Inr c"
    "sc_note c = Some (disc_note (dc_session cfg) (dh_fingerprint h))" "dh_depth h \<noteq> 0"
    using tracked_lookup [OF t k] by (auto simp: linked_def)
  then show ?thesis using tracked_route [OF t assms(2), of _ _ _ "dh_depth h - 1"] k by force
qed

subsection \<open>Taking a scan back\<close>

definition of_session :: "string \<Rightarrow> server_config \<Rightarrow> bool" where
  "of_session session c \<longleftrightarrow> (case sc_note c of None \<Rightarrow> False | Some n \<Rightarrow> contains (SESSION_TAG @ session) n)"

lemma contains_note: "contains (SESSION_TAG @ session) (disc_note session fp)"
proof -
  have "disc_note session fp = [] @ (SESSION_TAG @ session) @ '' fp='' @ fp" by (simp add: disc_note_def)
  then show ?thesis by (metis contains_self_mid)
qed

lemma disc_targets_alt: "disc_targets session reg = map sc_name (filter (of_session session) (reg_list_all reg))"
  by (simp add: disc_targets_def of_session_def [abs_def])

text \<open>C36: Tearing a discovery session down gives back both registry tables as they were before the scan,
  entry for entry and in order, and names exactly the reported hosts as removed, for ephemeral and for
  persisted scans, when no server carried the session's tag before; a session that found nothing is
  reported as unknown.\<close>

theorem discovery_teardown_roundtrip:
  assumes "s = disc_run env cfg seeds (DiscoveryEngine reg a keys)"
    and "\<forall>c \<in> set (reg_list_all reg). \<not> of_session (dc_session cfg) c"
    and "dc_persist cfg \<Longrightarrow> writes_ok_from fate (ds_registry s)"
    and "teardown_discovery fate (dc_session cfg) (ds_registry s) au = (r', au', rep)"
  shows "rg_servers r' = rg_servers reg \<and> rg_ephemeral r' = rg_ephemeral reg
    \<and> (if ds_discovered s = [] then is_error rep
       else rep = [(''torn_down'', JStr (dc_session cfg)), (''removed'', JStrs (map dh_name (ds_discovered s)))])"
proof -
  obtain cs where t: "own_table cfg (ds_registry s) = own_table cfg reg @ map (\<lambda>c. (sc_name c, c)) cs"
    "other_table cfg (ds_registry s) = other_table cfg reg" "distinct (map sc_name cs)"
    "\<forall>c \<in> set cs. map_of (own_table cfg reg) (sc_name c) = None \<and> map_of (other_table cfg reg) (sc_name c) = None"
    "list_all2 (linked (dc_session cfg) seeds (reported s)) (reported s) cs"
    using disc_run_tracks [of cfg seeds reg env a keys] assms(1) unfolding reg_tracks_def by blast
  have names: "map sc_name cs = map dh_name (ds_discovered s)"
    using linked_names [OF t(5)] by (simp add: comp_def host_key_def)
  have old: "filter (of_session (dc_session cfg)) (dict_values (own_table cfg reg)) = []"
    "filter (of_session (dc_session cfg)) (dict_values (other_table cfg reg)) = []"
    using assms(2) by (auto simp: filter_empty_conv reg_list_all_def target_table_def split: if_splits)
  have "of_session (dc_session cfg) c" if c: "c \<in> set cs" for c
  proof -
    have "\<exists>k. linked (dc_session cfg) seeds (reported s) k c" by (rule list_all2_set2 [OF t(5) c])
    then obtain k where "linked (dc_session cfg) seeds (reported s) k c" ..
    then have "\<exists>fp. sc_note c = Some (disc_note (dc_session cfg) fp)" by (cases k) (auto elim: linkedE)
    then show ?thesis by (auto simp: of_session_def contains_note)
  qed
  then have new: "filter (of_session (dc_session cfg)) cs = cs" by simp
  have tgt: "disc_targets (dc_session cfg) (ds_registry s) = map sc_name cs"
    using t(1,2) old new
    by (cases "dc_persist cfg") (auto simp: disc_targets_alt reg_list_all_def target_table_def dict_values_def comp_def)
  obtain r1 rm where re: "remove_each fate (map sc_name cs) (ds_registry s) = (r1, rm)" by (rule prod.exhaust)
  have "rm = map sc_name cs \<and> own_table cfg r1 = fold dict_del (map sc_name cs) (own_table cfg (ds_registry s))
    \<and> other_table cfg r1 = other_table cfg (ds_registry s)"
  proof (rule remove_each_target [OF t(3) _ _ _ re])
    show "\<forall>n \<in> set (map sc_name cs). map_of (own_table cfg (ds_registry s)) n \<noteq> None"
      unfolding t(1) map_of_eq_None_iff by (auto simp: image_Un image_image)
    show "\<forall>n \<in> set (map sc_name cs). map_of (other_table cfg (ds_registry s)) n = None" using t(2,4) by auto
    show "writable (dc_persist cfg) fate (ds_registry s)" using assms(3) by (simp add: writable_def)
  qed
  moreover have "fold dict_del (map sc_name cs) (own_table cfg (ds_registry s)) = own_table cfg reg"
    using t(4) by (force simp: fold_dict_del t(1) filter_id_conv map_of_eq_None_iff)
  ultimately have "own_table cfg r1 = own_table cfg reg" "other_table cfg r1 = other_table cfg reg" "rm = map sc_name cs"
    using t(2) by auto
  moreover have "r' = r1" "rep = (if map sc_name cs = [] then err_reply ''session_not_found'' [(''session'', JStr (dc_session cfg)), (''removed'', JStrs [])]
      else [(''torn_down'', JStr (dc_session cfg)), (''removed'', JStrs rm)])"
    using assms(4) tgt re by (auto simp: teardown_discovery_def Let_def)
  ultimately show ?thesis
    using names by (cases "dc_persist cfg") (auto simp: target_table_def err_reply_def is_error_def)
qed

subsection \<open>A concrete scan\<close>

text \<open>The local host file names one host, that host's file names another, which only it can reach.\<close>

definition example_disc_env :: disc_env where
  "example_disc_env =
     \<lparr>dv_fate = \<lambda>_. W_ok, dv_late = \<lambda>_. False,
      dv_connect = \<lambda>n tunnel addr user keys.
        if addr = ''10.0.0.5'' then Some (1, Some ''SHA256:aaaa'')
        else if addr = ''10.0.0.6'' \<and> tunnel = Some 1 then Some (2, Some ''SHA256:bbbb'') else None,
      dv_username = \<lambda>_. ''root'', dv_keys = \<lambda>_. ([], []), dv_addrs = \<lambda>_. Inr [],
      dv_crumb = \<lambda>conn source. if conn = 1 \<and> source = ''etc_hosts'' then Inr ''10.0.0.6 db'' else Inr [],
      dv_sweep = \<lambda>_ _. Inr [],
      dv_local_file = \<lambda>source. if source = ''etc_hosts'' then Some ''10.0.0.5 web'' else None,
      dv_hosts = \<lambda>_. None, dv_schedule = \<lambda>_ _. [], dv_now = 0\<rparr>"

definition example_disc_config :: disc_config where
  "example_disc_config =
     \<lparr>dc_session = ''disc-1'', dc_key_paths = [''k''], dc_harvest_keys = False, dc_subnet_sweep = False,
      dc_sweep_cidr = None, dc_port = 22, dc_max_depth = 3, dc_max_nodes = 10, dc_concurrency = 4,
      dc_name_prefix = ''disc'', dc_persist = False, dc_injected = [], dc_injected_users = []\<rparr>"

definition example_scan :: disc_state where
  "example_scan = disc_run example_disc_env example_disc_config [local_item]
     (DiscoveryEngine example_registry example_audit [''key''])"

lemma example_scan_hosts:
  "map (\<lambda>h. (dh_name h, dh_depth h)) (ds_discovered example_scan) = [(''disc-aaaa'', 1), (''disc-bbbb'', 2)]"
  by code_simp

theorem discovered_hosts_reachable_witness:
  "\<exists>m. chain_at (reg_jump (ds_registry example_scan)) ''disc-bbbb'' 1 = Some m
    \<and> reg_jump (ds_registry example_scan) m = None"
proof -
  have "(''disc-bbbb'', 2) \<in> set (map (\<lambda>h. (dh_name h, dh_depth h)) (ds_discovered example_scan))"
    unfolding example_scan_hosts by simp
  then obtain h where h: "h \<in> set (ds_discovered example_scan)" "dh_name h = ''disc-bbbb''" "dh_depth h = 2" by auto
  show ?thesis
    using discovered_hosts_reachable [OF example_scan_def _ h(1)] h(2,3) by (auto simp: local_item_def)
qed

theorem discovery_teardown_roundtrip_witness:
  "\<exists>r' au' rep. teardown_discovery (\<lambda>_. W_ok) ''disc-1'' (ds_registry example_scan) example_audit = (r', au', rep)
    \<and> rg_servers r' = rg_servers example_registry \<and> rg_ephemeral r' = []
    \<and> rep = [(''torn_down'', JStr ''disc-1''), (''removed'', JStrs [''disc-aaaa'', ''disc-bbbb''])]"
proof -
  obtain r' au' rep where t: "teardown_discovery (\<lambda>_. W_ok) ''disc-1'' (ds_registry example_scan) example_audit = (r', au', rep)"
    by (metis prod_cases3)
  have none: "\<forall>c \<in> set (reg_list_all example_registry). \<not> of_session ''disc-1'' c" by code_simp
  have cfg: "dc_session example_disc_config = ''disc-1''" "\<not> dc_persist example_disc_config" "rg_ephemeral example_registry = []"
    by (simp_all add: example_disc_config_def example_registry_def)
  have names: "map dh_name (ds_discovered example_scan) = [''disc-aaaa'', ''disc-bbbb'']"
    using arg_cong [OF example_scan_hosts, of "map fst"] by (simp add: comp_def)
  show ?thesis
    using discovery_teardown_roundtrip [OF example_scan_def, of "\<lambda>_. W_ok" example_audit r' au' rep] t none cfg names
    by (cases "ds_discovered example_scan") auto
qed

text \<open>The empty session id is in every note of a scan, so that tearing it down removes the hosts of all sessions.\<close>

lemma teardown_empty_session: "disc_targets [] reg = map sc_name (filter is_disc_entry (reg_list_all reg))"
  unfolding disc_targets_def is_disc_entry_def [abs_def] append_Nil2 ..

end
