(* ===== verification/Registry_Runs.thy ===== *)
theory Registry_Runs
  imports Registry_Tools Discovery_Registry
begin

section \<open>What every client of the registry keeps\<close>

text \<open>
  The tools change the registry only through its four operations. A property that each of them keeps is
  therefore kept by every tool: by building and removing jump chains, registering, deregistering and by
  a whole discovery scan. The locale states this once; it is interpreted for the registry's two
  invariants. On the way the audit log is shown to only grow.
\<close>

locale registry_client =
  fixes P :: "registry \<Rightarrow> bool"
  assumes kept: "P r \<Longrightarrow> P (reg_apply fate op r)"
begin

lemma kept_ops:
  assumes "P r"
  shows "P (fst (reg_add fate c r))" and "P (fst (reg_remove fate n r))"
    and "P (fst (reg_add_ephemeral c r))" and "P (fst (reg_remove_ephemeral n r))"
  using kept [OF assms, of fate "Op_add c"] kept [OF assms, of fate "Op_remove n"]
    kept [OF assms, of fate "Op_add_ephemeral c"] kept [OF assms, of fate "Op_remove_ephemeral n"] by simp_all

lemma kept_op:
  "reg_add fate c r = (r', v) \<Longrightarrow> P r \<Longrightarrow> P r'"
  "reg_remove fate n r = (r', v) \<Longrightarrow> P r \<Longrightarrow> P r'"
  "reg_add_ephemeral c r = (r', v) \<Longrightarrow> P r \<Longrightarrow> P r'"
  "reg_remove_ephemeral n r = (r', v) \<Longrightarrow> P r \<Longrightarrow> P r'"
  using kept_ops [of r] by (metis fst_conv)+

lemma kept_remove_suppressed:
  assumes "\<And>n r. P r \<Longrightarrow> P (fst (remove n r))" and "P r"
  shows "P (fst (remove_suppressed remove ns r))"
  using assms(2)
proof (induction ns arbitrary: r)
  case Nil
  then show ?case by simp
next
  case (Cons n ns)
  obtain r1 w where rm: "remove n r = (r1, w)" by (rule prod.exhaust)
  then have "P r1" using assms(1) [OF Cons.prems, of n] by simp
  with rm Cons.IH show ?case by (cases w) simp_all
qed

lemma kept_add_hops:
  assumes "\<And>c r. P r \<Longrightarrow> P (fst (add c r))" and "\<And>n r. P r \<Longrightarrow> P (fst (remove n r))" and "P r"
  shows "P (fst (add_hops add remove cs added r))"
  using assms(3)
proof (induction cs arbitrary: added r)
  case Nil
  then show ?case by simp
next
  case (Cons c cs)
  obtain r1 w where ad: "add c r = (r1, w)" by (rule prod.exhaust)
  then have p: "P r1" using assms(1) [OF Cons.prems, of c] by simp
  obtain r2 v where rs: "remove_suppressed remove (rev added) r1 = (r2, v)" by (rule prod.exhaust)
  then have "P r2" using kept_remove_suppressed [of remove, OF assms(2) p, of "rev added"] by simp
  with ad rs p Cons.IH [OF p] show ?case by (cases w; cases v) simp_all
qed

lemma kept_build_chain:
  assumes "build_chain fate name chain persist note r a = (r', a', v)" and "P r"
  shows "P r' \<and> audit_grows a a'"
proof -
  let ?add = "if persist then reg_add fate else reg_add_ephemeral"
    and ?remove = "if persist then reg_remove fate else reg_remove_ephemeral"
  have "P (fst (add_hops ?add ?remove cs added r))" for cs added
    by (rule kept_add_hops) (use assms(2) kept_ops in auto)
  then have "P r1" if "add_hops ?add ?remove cs added r = (r1, w)" for cs added r1 w
    using that by (metis fst_conv)
  then show ?thesis using assms
    by (auto simp: build_chain_def Let_def split: sum.splits prod.splits option.splits)
qed

lemma kept_remove_either: "P r \<Longrightarrow> P (fst (remove_either fate n r))"
  by (auto simp: remove_either_def split: prod.split sum.split dest: kept_op)

lemma kept_remove_each: "P r \<Longrightarrow> P (fst (remove_each fate ns r))"
proof (induction ns arbitrary: r)
  case (Cons n ns)
  show ?case using Cons.IH [OF kept_remove_either [OF Cons.prems, of fate n]]
    by (auto simp: Let_def split: prod.split)
qed simp

lemma kept_teardown_jump:
  "teardown_jump fate name r a = (r', a', rep) \<Longrightarrow> P r \<Longrightarrow> P r' \<and> audit_grows a a'"
  using kept_remove_each [of r fate "jump_targets name r"]
  by (auto simp: teardown_jump_def Let_def split: if_splits prod.splits)

lemma kept_teardown_discovery:
  "teardown_discovery fate session r a = (r', a', rep) \<Longrightarrow> P r \<Longrightarrow> P r' \<and> audit_grows a a'"
  using kept_remove_each [of r fate "disc_targets session r"]
  by (auto simp: teardown_discovery_def Let_def split: prod.splits)

lemma kept_register:
  "ssh_register_server fate x r a = (r', a', rep) \<Longrightarrow> P r \<Longrightarrow> P r' \<and> audit_grows a a'"
  by (auto simp: ssh_register_server_def split: sum.splits option.splits prod.splits if_splits dest: kept_op)

lemma kept_deregister:
  "ssh_deregister_server fate status name r a = (r', a', rep) \<Longrightarrow> P r \<Longrightarrow> P r' \<and> audit_grows a a'"
  by (auto simp: ssh_deregister_server_def Let_def split: sum.splits prod.splits dest: kept_op)

subsection \<open>A discovery scan\<close>

definition disc_keeps :: "audit_state \<Rightarrow> disc_state \<Rightarrow> bool" where
  "disc_keeps a s \<longleftrightarrow> P (ds_registry s) \<and> audit_grows a (ds_audit s)"

lemma disc_keeps_upd [simp]:
  "disc_keeps a (s\<lparr>ds_visited_ips := x1\<rparr>) = disc_keeps a s" "disc_keeps a (s\<lparr>ds_visited_fps := x2\<rparr>) = disc_keeps a s"
  "disc_keeps a (s\<lparr>ds_discovered := x3\<rparr>) = disc_keeps a s" "disc_keeps a (s\<lparr>ds_graph := x4\<rparr>) = disc_keeps a s"
  "disc_keeps a (s\<lparr>ds_skipped := x5\<rparr>) = disc_keeps a s" "disc_keeps a (s\<lparr>ds_registered := x6\<rparr>) = disc_keeps a s"
  "disc_keeps a (s\<lparr>ds_truncated := x7\<rparr>) = disc_keeps a s" "disc_keeps a (s\<lparr>ds_stats := x8\<rparr>) = disc_keeps a s"
  "disc_keeps a (s\<lparr>ds_open_conns := x9\<rparr>) = disc_keeps a s" "disc_keeps a (s\<lparr>ds_closed := y1\<rparr>) = disc_keeps a s"
  "disc_keeps a (s\<lparr>ds_dials := y2\<rparr>) = disc_keeps a s" "disc_keeps a (s\<lparr>ds_clock := y3\<rparr>) = disc_keeps a s"
  "disc_keeps a (s\<lparr>ds_key_space := y4\<rparr>) = disc_keeps a s"
  by (simp_all add: disc_keeps_def)

lemma disc_keeps_register:
  "disc_register env cfg fp addr via user s = (s', res) \<Longrightarrow> disc_keeps a s \<Longrightarrow> disc_keeps a s'"
  by (auto simp: disc_register_def disc_keeps_def Let_def split: if_splits sum.splits prod.splits dest: kept_op)

lemma disc_keeps_log [simp]: "disc_keeps a s \<Longrightarrow> disc_keeps a (disc_log e s)"
  by (simp add: disc_keeps_def disc_log_def)

lemma disc_keeps_finish:
  assumes "finish_probe env cfg via addr answer s = (s', item)" and "disc_keeps a s"
  shows "disc_keeps a s'"
proof -
  have "disc_keeps a t'" if "accept_host env cfg via addr conn fp t = (t', i)" "disc_keeps a t" for conn fp t t' i
    using that disc_keeps_register
    by (auto simp: accept_host_def add_host_def close_conn_def Let_def split: if_splits prod.splits sum.splits)
  then show ?thesis using assms
    by (auto simp: finish_probe_def close_conn_def Let_def split: option.splits if_splits)
qed

lemma disc_keeps_begin:
  "begin_probe env cfg via addr s = (s', ans) \<Longrightarrow> disc_keeps a s \<Longrightarrow> disc_keeps a s'"
  by (auto simp: begin_probe_def look_at_clock_def Let_def split: if_splits)

lemma disc_keeps_step: "disc_keeps a (fst sb) \<Longrightarrow> disc_keeps a (fst (probe_step env cfg via mv sb))"
  by (auto simp: probe_step_def split: prod.splits probe_move.splits option.splits if_splits
      intro: disc_keeps_begin disc_keeps_finish)

lemma disc_keeps_explore:
  assumes "explore env cfg item s = (s', items)" and "disc_keeps a s"
  shows "disc_keeps a s'"
proof (cases "dc_max_depth cfg \<le> int (fi_depth item)")
  case True
  then show ?thesis using assms by (auto simp: explore_def)
next
  case False
  have h: "disc_keeps a (maybe_harvest_keys env cfg item s)"
    using assms(2) by (simp add: maybe_harvest_keys_def Let_def split: option.split prod.split bool.split)
  have "expand env cfg item (harvest_candidates env cfg item) (maybe_harvest_keys env cfg item s) = (s', items)"
    using assms(1) False by (simp add: explore_def)
  then obtain fresh b where "disc_keeps a (fst (s', b))"
    by (rule expand_keeps [where I = "\<lambda>sb. disc_keeps a (fst sb)"]) (use h disc_keeps_step in auto)
  then show ?thesis by simp
qed

lemma disc_keeps_run:
  assumes "P reg"
  shows "disc_keeps a (disc_run env cfg seeds (DiscoveryEngine reg a keys))"
proof -
  let ?I = "\<lambda>frontier :: frontier_item list. disc_keeps a"
  obtain f where "?I f (disc_loop env cfg seeds (DiscoveryEngine reg a keys))"
  proof (rule disc_loop_keeps [of ?I])
    show "disc_keeps a (DiscoveryEngine reg a keys)" using assms by (simp add: disc_keeps_def DiscoveryEngine_def)
  qed (auto intro: disc_keeps_explore)
  then show ?thesis by (simp add: disc_run_def Let_def)
qed

lemma kept_discover:
  assumes "discover env get ex read_key session x r p a = (r', p', a', res)" and "P r"
  shows "P r' \<and> audit_grows a a'"
  using assms(1) disc_keeps_run [OF assms(2), of a]
  by (auto simp: discover_def disc_keeps_def Let_def split: prod.splits)

end

text \<open>The two invariants of the registry are such properties.\<close>

interpretation wf_client: registry_client registry_wf
proof
  show "registry_wf (reg_apply fate op r)" if "registry_wf r" for fate op r
    using that by (cases op) (simp_all add: registry_wf_ops)
qed

definition synced :: "registry \<Rightarrow> bool" where
  "synced r \<longleftrightarrow> registry_in_sync r \<and> \<not> suffix ''.tmp'' (rg_path r)"

interpretation sync_client: registry_client synced
proof
  show "synced (reg_apply fate op r)" if "synced r" for fate op r
    using that reg_apply_in_sync [of r fate op] by (auto simp: synced_def)
qed

end
