(* ===== verification/Pool_Users.thy ===== *)
theory Pool_Users
  imports Proxy Pty_Tools File_Runs Registry_Runs
begin

section \<open>What every user of the pool keeps\<close>

text \<open>
  The session manager, the tools for commands, files and topologies and the discovery seeds use the pool
  only through \<open>get_connection\<close>. A property \<open>Q\<close> of the pool that \<open>get\<close> keeps is therefore kept by all
  of them; the locale states this once. The audit log grows along the way.
\<close>

named_theorems live_pieces "what a piece of a session operation keeps"

locale pool_user =
  fixes get :: "string \<Rightarrow> 'p \<Rightarrow> 'p \<times> nat result" and Q :: "'p \<Rightarrow> bool"
  assumes get_keeps: "Q p \<Longrightarrow> Q (fst (get s p))"
begin

lemma get_keeps': "get s p = (p', r) \<Longrightarrow> Q p \<Longrightarrow> Q p'"
  using get_keeps [of p s] by simp

subsection \<open>Session operations\<close>

definition live :: "audit_state \<Rightarrow> ('p, 't) session_manager \<Rightarrow> bool" where
  "live a m \<longleftrightarrow> Q (sm_pool m) \<and> audit_grows a (sm_audit m)"

lemma live_sm_get [live_pieces]: "se_get env = get \<Longrightarrow> live a m \<Longrightarrow> live a (fst (sm_get env server m))"
  using get_keeps [of "sm_pool m" server] by (cases "get server (sm_pool m)") (simp add: live_def sm_get_def)

lemma live_upd [live_pieces]:
  "live a m \<Longrightarrow> live a (fst (sm_run env conn cmd m))" "live a m \<Longrightarrow> live a (fst (new_uuid env m))"
  "live a m \<Longrightarrow> live a (fst (get_record i m))" "live a m \<Longrightarrow> live a (fst (get_session_record i m))"
  "live a m \<Longrightarrow> live a (fst (sm_upsert_process env r m))" "live a m \<Longrightarrow> live a (fst (sm_upsert_session env q m))"
  "live a m \<Longrightarrow> live a (sm_log e m)" "live a m \<Longrightarrow> live a (fst (sm_cache_wrapper server w m))"
  "live a m \<Longrightarrow> live a (fst (sm_spawn env conn cmd cols rows m))" "live a m \<Longrightarrow> live a (fst (pty_admit env server m))"
  by (simp_all add: live_def sm_run_def new_uuid_def get_record_def get_session_record_def sm_upsert_process_def
      sm_upsert_session_def sm_log_def sm_cache_wrapper_def sm_spawn_def pty_admit_def Let_def
      split: prod.split option.split)

lemma live_tables [simp]:
  "live a (m\<lparr>sm_pty_procs := x1\<rparr>) = live a m" "live a (m\<lparr>sm_pty_buffers := x2\<rparr>) = live a m"
  "live a (m\<lparr>sm_drain_tasks := x3\<rparr>) = live a m" "live a (m\<lparr>sm_tmux_logs := x4\<rparr>) = live a m"
  "live a (m\<lparr>sm_tmux_sessions := x5\<rparr>) = live a m" "live a (m\<lparr>sm_tmux_conns := x6\<rparr>) = live a m"
  "live a (m\<lparr>sm_written := x7\<rparr>) = live a m" "live a (m\<lparr>sm_resized := x8\<rparr>) = live a m"
  "live a (m\<lparr>sm_closed := x9\<rparr>) = live a m"
  by (simp_all add: live_def)

lemmas live_bind = bindR_keeps [where Q = "live a" for a]

lemma live_detect [live_pieces]: "live a m \<Longrightarrow> live a (fst (detect_flush_wrapper env server conn m))"
  by (auto simp: detect_flush_wrapper_def split: option.split sum.split intro!: live_bind live_pieces)

lemma live_tmux_run [live_pieces]: "live a m \<Longrightarrow> live a (fst (tmux_run env sid cmd m))"
  by (auto simp: tmux_run_def split: option.split intro!: live_bind live_pieces)

lemma live_release: "live a m \<Longrightarrow> live a (release_session sid use_tmux m)"
  by (simp add: live_def release_session_def)

lemma live_take: "pty_take sid n m = (m', out) \<Longrightarrow> live a m \<Longrightarrow> live a m'"
  by (auto simp: pty_take_def split: option.splits prod.splits)

lemma live_drain: "live a m \<Longrightarrow> live a (drain_chunk sid chunk m)"
  by (simp add: drain_chunk_def split: option.split)

lemma live_start_process:
  "se_get env = get \<Longrightarrow> live a m \<Longrightarrow> live a (fst (start_process env server command cwd vars m))"
  by (auto simp: start_process_def Let_def split: option.split intro!: live_bind live_pieces)

lemma live_read_process: "se_get env = get \<Longrightarrow> live a m \<Longrightarrow> live a (fst (read_process env pid n k m))"
  by (auto simp: read_process_def intro!: live_bind live_pieces)

lemma live_kill_process: "se_get env = get \<Longrightarrow> live a m \<Longrightarrow> live a (fst (kill_process env pid signal m))"
  by (auto simp: kill_process_def intro!: live_bind live_pieces)

lemma live_check_process: "se_get env = get \<Longrightarrow> live a m \<Longrightarrow> live a (fst (check_process env pid m))"
  by (auto simp: check_process_def Let_def intro!: live_bind live_pieces)

lemma live_write_process: "live a m \<Longrightarrow> live a (fst (write_process pid data m))"
  by (auto simp: write_process_def intro!: live_bind live_pieces)

lemma live_open:
  "se_get env = get \<Longrightarrow> live a m \<Longrightarrow> live a (fst (pty_open env server command cols rows use_tmux m))"
  by (auto simp: pty_open_def pty_open_plain_def pty_open_tmux_def Let_def intro!: live_bind live_pieces)

lemma live_start_pty:
  "se_get env = get \<Longrightarrow> live a m \<Longrightarrow> live a (fst (start_pty env server command cols rows use_tmux m))"
  by (auto simp: start_pty_def intro!: live_bind live_pieces live_open)

lemma live_pty_read: "live a m \<Longrightarrow> live a (fst (pty_read env sid n m))"
  by (auto simp: pty_read_def Let_def split: option.split prod.split intro!: live_bind live_pieces intro: live_take)

lemma live_pty_write: "live a m \<Longrightarrow> live a (fst (pty_write env sid text m))"
  by (auto simp: pty_write_def split: option.split intro!: live_bind live_pieces)

lemma live_pty_resize: "live a m \<Longrightarrow> live a (fst (pty_resize env sid cols rows m))"
  by (auto simp: pty_resize_def split: option.split intro!: live_bind live_pieces)

lemma live_pty_close: "live a m \<Longrightarrow> live a (fst (pty_close env sid m))"
  by (auto simp: pty_close_def intro!: live_bind live_pieces live_release)

lemma live_pty_attach: "se_get env = get \<Longrightarrow> live a m \<Longrightarrow> live a (fst (pty_attach env sid m))"
  by (auto simp: pty_attach_def split: option.split intro!: live_bind live_pieces)

lemmas live_ops = live_start_process live_read_process live_kill_process live_check_process live_write_process
  live_start_pty live_pty_read live_pty_write live_pty_resize live_pty_close live_pty_attach

lemma live_start_pty': "start_pty env server command cols rows use_tmux m = (m', r) \<Longrightarrow> se_get env = get \<Longrightarrow> live a m \<Longrightarrow> live a m'"
  using live_start_pty [of env a m server command cols rows use_tmux] by simp

lemma live_pty_close': "pty_close env sid m = (m', r) \<Longrightarrow> live a m \<Longrightarrow> live a m'"
  using live_pty_close [of a m env sid] by simp

lemma live_tools:
  assumes "live a m"
  shows "se_get env = get \<Longrightarrow> live a (fst (ssh_exec_stream env server command cwd vars m))"
    and "se_get env = get \<Longrightarrow> live a (fst (ssh_read_process env pid max_bytes offset m))"
    and "live a (fst (ssh_write_process pid data m))"
    and "se_get env = get \<Longrightarrow> live a (fst (ssh_kill_process env pid signal m))"
    and "se_get env = get \<Longrightarrow> live a (fst (ssh_check_process env pid m))"
    and "se_get env = get \<Longrightarrow> live a (fst (ssh_start_pty env server line cols rows use_tmux m))"
    and "live a (fst (ssh_pty_read env pid max_bytes m))"
    and "live a (fst (ssh_pty_write env pid data m))"
    and "live a (fst (ssh_pty_resize env pid cols rows m))"
    and "live a (fst (ssh_pty_close env pid m))"
    and "se_get env = get \<Longrightarrow> live a (fst (ssh_pty_attach env pid m))"
  using assms
  by (auto simp: ssh_exec_stream_def ssh_read_process_def ssh_write_process_def ssh_kill_process_def
      ssh_check_process_def ssh_start_pty_def ssh_pty_read_def ssh_pty_write_def ssh_pty_resize_def
      ssh_pty_close_def ssh_pty_attach_def live_ops split: prod.split sum.split
      intro: live_pieces dest: live_start_pty' live_pty_close')

subsection \<open>Commands\<close>

definition exec_live :: "audit_state \<Rightarrow> 'p exec_state \<Rightarrow> bool" where
  "exec_live a s \<longleftrightarrow> Q (xs_pool s) \<and> audit_grows a (xs_audit s)"

lemma exec_live_pieces [simp]:
  "exec_live a (exec_log server command outcome detail s) \<longleftrightarrow> Q (xs_pool s) \<and> audit_grows a (audit_log
     ((AuditEvent ''ssh_exec'' outcome detail)\<lparr>ae_server := Some server, ae_command := Some command\<rparr>) (xs_audit s))"
  "exec_live a (s\<lparr>xs_runs := runs\<rparr>) = exec_live a s"
  by (simp_all add: exec_live_def exec_log_def)

lemma exec_live_finish: "exec_live a s \<Longrightarrow> exec_live a (fst (exec_finish server command timeout res s))"
  by (auto simp: exec_finish_def exec_live_def exec_log_def Let_def split: sum.split prod.split)

lemma exec_live_exec:
  assumes "xe_get env = get" and "exec_live a s"
  shows "exec_live a (fst (ssh_exec env reg server command cwd vars timeout s))"
proof -
  define s0 where "s0 = (if timeout = None then exec_log server command ''warn_no_timeout''
      [(''cwd'', JOptStr cwd), (''env_keys'', JStrs (map fst (case vars of None \<Rightarrow> [] | Some d \<Rightarrow> d)))] s else s)"
  have s0: "exec_live a s0" using assms(2) by (simp add: s0_def exec_live_def exec_log_def)
  have "exec_live a (s0\<lparr>xs_pool := p\<rparr>)" if "get server (xs_pool s0) = (p, r)" for p r
    using that s0 get_keeps' [OF that] by (simp add: exec_live_def)
  then show ?thesis using s0 assms(1)
    by (auto simp: ssh_exec_def s0_def [symmetric] Let_def split: sum.split prod.split intro!: exec_live_finish)
qed

subsection \<open>Files\<close>

definition files_live :: "audit_state \<Rightarrow> ('p \<times> 'h) file_state \<Rightarrow> bool" where
  "files_live a s \<longleftrightarrow> Q (fst (ft_world s)) \<and> audit_grows a (ft_audit s)"

text \<open>The environment of the file tools: only \<open>fe_get\<close> works on the pool.\<close>

definition files_env :: "('p \<times> 'h) file_env \<Rightarrow> bool" where
  "files_env env \<longleftrightarrow>
     (\<forall>server w. fst (fst (fe_get env server w)) = fst (get server (fst w)))
     \<and> (\<forall>c cmd w. fst (fst (fe_run env c cmd w)) = fst w)
     \<and> (\<forall>x y rc pr w. fst (fst (fe_scp env x y rc pr w)) = fst w)
     \<and> (\<forall>c p w. fst (fst (fe_mkdir env c p w)) = fst w) \<and> (\<forall>c p w. fst (fst (fe_remove env c p w)) = fst w)"

lemma files_log [simp]: "files_live a s \<Longrightarrow> files_live a (file_log tool server outcome detail s)"
  by (simp add: files_live_def file_log_def)

lemma files_act: "(\<And>w. Q (fst w) \<Longrightarrow> Q (fst (fst (f w)))) \<Longrightarrow> files_live a s \<Longrightarrow> files_live a (fst (act f s))"
  using fst_conv by (fastforce simp: files_live_def act_def split: prod.split)

lemma files_acts:
  assumes "files_env env" and "files_live a s"
  shows "files_live a (fst (act (fe_get env server) s))" and "files_live a (fst (act (fe_run env c cmd) s))"
    and "files_live a (fst (act (fe_scp env x y rc pr) s))" and "files_live a (fst (act (fe_mkdir env c p) s))"
    and "files_live a (fst (act (fe_remove env c p) s))"
  by (rule files_act; use assms get_keeps in \<open>simp add: files_env_def del: split_paired_All\<close>)+

lemma files_ask: "files_live a s \<Longrightarrow> files_live a (fst (ask f s))"
  by (simp add: ask_def)

lemmas files_bind = bindR_keeps [where Q = "files_live a" for a]

lemma files_failed: "files_live a s \<Longrightarrow> files_live a (fst (transfer_failed env tool server e s))"
  by (simp add: transfer_failed_def)

lemma files_copy:
  "files_env env \<Longrightarrow> files_live a s \<Longrightarrow> files_live a (fst (copy_files env c1 c2 base dp preserve dst files s))"
proof (induction files arbitrary: s)
  case Nil
  then show ?case by simp
next
  case (Cons f files)
  obtain n attrs where f: "f = (n, attrs)" by (rule prod.exhaust)
  let ?dir = "posix_dirname (posix_join dp n)"
  obtain s1 r where mk: "act (fe_mkdir env c2 ?dir) s = (s1, r)" by (rule prod.exhaust)
  then have s1: "files_live a s1" using files_acts(4) [OF Cons.prems, of c2 ?dir] by simp
  define full where "full = (if base \<noteq> [] then posix_join base n else n)"
  note keep = files_bind files_acts [OF Cons.prems(1)] Cons.IH [OF Cons.prems(1)]
  show ?case
  proof (cases "needs_copy attrs (map_of dst n)")
    case True
    then show ?thesis using mk s1 by (auto simp: f full_def [symmetric] Let_def intro!: keep)
  next
    case False
    then show ?thesis using Cons.prems(2) by (auto simp: f intro!: keep)
  qed
qed

lemma files_delete:
  "files_env env \<Longrightarrow> files_live a s \<Longrightarrow> files_live a (fst (delete_files env c dp src rels s))"
proof (induction rels arbitrary: s)
  case Nil
  then show ?case by simp
next
  case (Cons n rels)
  obtain s1 r where rm: "act (fe_remove env c (posix_join dp n)) s = (s1, r)" by (rule prod.exhaust)
  then have s1: "files_live a s1" using files_acts(5) [OF Cons.prems, of c "posix_join dp n"] by simp
  show ?case using Cons.prems rm s1 by (cases r) (auto intro!: files_bind Cons.IH)
qed

lemma files_transfer: "files_env env \<Longrightarrow> files_live a s \<Longrightarrow> files_live a (fst (transfer_body env p q b c rc pr s))"
  by (auto simp: transfer_body_def intro!: files_bind files_acts)

lemma files_sync_same: "files_env env \<Longrightarrow> files_live a s \<Longrightarrow> files_live a (fst (sync_same_server env p q b d s))"
  by (auto simp: sync_same_server_def intro!: files_bind files_acts)

lemma files_sync_cross:
  "files_env env \<Longrightarrow> files_live a s \<Longrightarrow> files_live a (fst (sync_cross_server env p q b c d pr s))"
  by (auto simp: sync_cross_server_def split: option.split intro!: files_bind files_acts files_ask files_copy files_delete)

text \<open>The \<open>try\<close> statement of a file tool.\<close>

lemma files_try:
  assumes "files_live a (fst p)" and "\<And>s u. files_live a s \<Longrightarrow> files_live a (fst (ok u s))"
  shows "files_live a (fst (case p of (s, Inl e) \<Rightarrow> transfer_failed env tool server e s | (s, Inr u) \<Rightarrow> ok u s))"
  using assms by (auto simp: files_failed split: prod.split sum.split)

lemma files_tools:
  assumes "files_env env" and "files_live a s"
  shows "files_live a (fst (ssh_get env reg server rp lp rc pr s))"
    and "files_live a (fst (ssh_put env reg server lp rp rc pr s))"
    and "files_live a (fst (ssh_transfer env reg server rp dst lp rc pr s))"
    and "files_live a (fst (ssh_sync env reg server rp dst lp rc pr s))"
proof -
  note pieces = files_bind files_acts files_transfer files_sync_same files_sync_cross files_log
  show "files_live a (fst (ssh_get env reg server rp lp rc pr s))"
    by (cases "reg_get reg server") (auto simp: ssh_get_def Let_def assms intro!: files_try pieces)
  show "files_live a (fst (ssh_put env reg server lp rp rc pr s))"
    by (cases "reg_get reg server") (auto simp: ssh_put_def Let_def assms intro!: files_try pieces)
  show "files_live a (fst (ssh_transfer env reg server rp dst lp rc pr s))"
    by (cases "reg_get reg server"; cases "reg_get reg dst")
      (auto simp: ssh_transfer_def Let_def assms intro!: files_try pieces)
  show "files_live a (fst (ssh_sync env reg server rp dst lp rc pr s))"
    by (cases "reg_get reg server"; cases "reg_get reg dst")
      (auto simp: ssh_sync_def Let_def assms intro!: files_try pieces)
qed

subsection \<open>Discovery seeds\<close>

lemma seed_keeps: "Q (fst q) \<Longrightarrow> Q (fst (seed_item get name q))"
  by (auto simp: seed_item_def split: prod.split sum.split dest: get_keeps')

lemma fold_keeps: "(\<And>x q. Q (fst q) \<Longrightarrow> Q (fst (f x q))) \<Longrightarrow> Q (fst q) \<Longrightarrow> Q (fst (fold f xs q))"
  by (induction xs arbitrary: q) auto

lemma frontier_keeps: "Q p \<Longrightarrow> Q (fst (build_seed_frontier get seeds reg p))"
  by (auto simp: build_seed_frontier_def seed_keeps split: option.split sum.split intro!: fold_keeps)

lemma discover_keeps: "discover env get ex read_key session x r p a = (r', p', a', res) \<Longrightarrow> Q p \<Longrightarrow> Q p'"
  using frontier_keeps [of p "da_seeds x" r] by (auto simp: discover_def Let_def split: prod.splits)

end

subsection \<open>The pool\<close>

text \<open>The invariant of the pool, and what its pins are, for every lookup and every dialled network.\<close>

interpretation live_pool: pool_user "get_connection depth env" "\<lambda>p. pool_ok p \<and> pl_pinned p = pins" for depth env pins
proof
  fix p s
  assume "pool_ok p \<and> pl_pinned p = pins"
  then show "pool_ok (fst (get_connection depth env s p)) \<and> pl_pinned (fst (get_connection depth env s p)) = pins"
    using pool_ok_get [of depth env s p] get_connection_grows [of depth env s p]
    by (cases "get_connection depth env s p") (auto simp: pool_grows_def)
qed

end
