(* ===== verification/Server.thy ===== *)
theory Server
  imports Pool_Users
begin

section \<open>The server (\<open>server.py\<close>)\<close>

text \<open>
  The application: the one registry, connection pool, state store and audit log that all tools share,
  the session manager and the proxy manager on top of them, and the ten tools FastMCP calls. The
  session manager and the proxy manager hold references to the shared objects; here each call gets
  their present value and gives the new one back. Tools are called one after another. What the
  outside answers during a call is the record \<open>server_env\<close>, another one for every call.
\<close>

subsection \<open>Discovery as a tool\<close>

text \<open>\<open>result.model_dump(mode="json")\<close>; a time is written by \<open>isoformat\<close>.\<close>

definition dump_host :: "(int \<Rightarrow> string) \<Rightarrow> discovered_host \<Rightarrow> json" where
  "dump_host isoformat h = JObj
     [(''name'', JStr (dh_name h)), (''fingerprint'', JStr (dh_fingerprint h)), (''addrs'', JStrs (dh_addrs h)),
      (''via'', JStr (dh_via h)), (''depth'', JInt (int (dh_depth h))), (''auth_key'', JOptStr (dh_auth_key h)),
      (''pool_reachable'', JBool (dh_pool_reachable h)), (''first_seen'', JStr (isoformat (dh_first_seen h)))]"

definition dump_skipped :: "skipped_key \<Rightarrow> json" where
  "dump_skipped k = JObj [(''host'', JStr (sk_host k)), (''path'', JStr (sk_path k)), (''reason'', JStr (sk_reason k))]"

definition dump_discovery :: "(int \<Rightarrow> string) \<Rightarrow> int \<Rightarrow> discovery_result \<Rightarrow> reply" where
  "dump_discovery isoformat scanned_at r =
     [(''session'', JStr (dr_session r)), (''scanned_at'', JStr (isoformat scanned_at)),
      (''discovered'', JArr (map (dump_host isoformat) (dr_discovered r))),
      (''graph'', JObj (map (\<lambda>(n, ns). (n, JStrs ns)) (dr_graph r))),
      (''skipped_encrypted_keys'', JArr (map dump_skipped (dr_skipped r))),
      (''truncated'', JBool (dr_truncated r)),
      (''stats'', JObj
        [(''candidates'', JInt (int (st_candidates (dr_stats r)))), (''probes'', JInt (int (st_probes (dr_stats r)))),
         (''connects_tried'', JInt (int (st_connects_tried (dr_stats r)))),
         (''connects_ok'', JInt (int (st_connects_ok (dr_stats r)))),
         (''harvested_keys'', JInt (int (st_harvested_keys (dr_stats r))))])]"

subsection \<open>The application context\<close>

text \<open>\<open>'h\<close> is what the file tools see of the hosts: their files.\<close>

record 'h app_context =
  cx_world :: world
  cx_sessions :: "(pool, topology_result) session_manager"
  cx_proxies :: "pool proxy_manager"
  cx_runs :: "(nat \<times> string) list"
  cx_files :: 'h

record 'h server_env =
  xv_tools :: tool_env
  xv_scan :: scan_env
  xv_scan_error :: "py_exn option"
  xv_session :: "(pool, topology_result) session_env"
  xv_exec_run :: "nat \<Rightarrow> nat \<Rightarrow> string \<Rightarrow> (string \<times> string \<times> int option) result"
  xv_proxy :: proxy_env
  xv_files :: "'h file_env"
  xv_disc :: disc_env
  xv_disc_session :: string
  xv_read_key :: "string \<Rightarrow> string option"
  xv_host_key :: "nat \<Rightarrow> string option"
  xv_match :: "string \<Rightarrow> string \<Rightarrow> string \<Rightarrow> int \<Rightarrow> (shown_key list \<times> shown_key list) result"
  xv_isoformat :: "int \<Rightarrow> string"

abbreviation cx_registry :: "'h app_context \<Rightarrow> registry" where
  "cx_registry cx \<equiv> wd_registry (cx_world cx)"

abbreviation cx_pool :: "'h app_context \<Rightarrow> pool" where
  "cx_pool cx \<equiv> wd_pool (cx_world cx)"

abbreviation cx_audit :: "'h app_context \<Rightarrow> audit_state" where
  "cx_audit cx \<equiv> wd_audit (cx_world cx)"

definition live_get :: "'h server_env \<Rightarrow> registry \<Rightarrow> string \<Rightarrow> pool \<Rightarrow> pool \<times> nat result" where
  "live_get env reg = get_connection (tv_depth (xv_tools env)) (live_env (tv_pool (xv_tools env)) reg)"

text \<open>\<open>pool.get_status\<close> with the live registry.\<close>

definition live_status :: "'h server_env \<Rightarrow> 'h app_context \<Rightarrow> string \<Rightarrow> connection_status result" where
  "live_status env cx name = pool_get_status (live_env (tv_pool (xv_tools env)) (cx_registry cx)) name (cx_pool cx)"

subsection \<open>The views of the components\<close>

definition session_view :: "'h app_context \<Rightarrow> (pool, topology_result) session_manager" where
  "session_view cx = (cx_sessions cx)
     \<lparr>sm_pool := cx_pool cx, sm_state := wd_state (cx_world cx), sm_audit := cx_audit cx\<rparr>"

definition put_sessions :: "'h app_context \<Rightarrow> (pool, topology_result) session_manager \<Rightarrow> 'h app_context" where
  "put_sessions cx m = cx\<lparr>cx_sessions := m,
     cx_world := (cx_world cx)\<lparr>wd_pool := sm_pool m, wd_state := sm_state m, wd_audit := sm_audit m\<rparr>\<rparr>"

text \<open>The manager's pool and registry are the live ones; its other answers come from outside.\<close>

definition live_session_env :: "'h server_env \<Rightarrow> registry \<Rightarrow> (pool, topology_result) session_env" where
  "live_session_env env reg = (xv_session env)\<lparr>se_get := live_get env reg, se_registry := Some (reg_get reg)\<rparr>"

definition with_sessions ::
    "((pool, topology_result) session_manager \<Rightarrow> (pool, topology_result) session_manager \<times> 'a)
      \<Rightarrow> 'h app_context \<Rightarrow> 'h app_context \<times> 'a" where
  "with_sessions f cx = map_prod (put_sessions cx) id (f (session_view cx))"

definition proxy_view :: "'h app_context \<Rightarrow> pool proxy_manager" where
  "proxy_view cx = (cx_proxies cx)\<lparr>pm_pool := cx_pool cx\<rparr>"

definition put_proxies :: "'h app_context \<Rightarrow> pool proxy_manager \<Rightarrow> audit_state \<Rightarrow> 'h app_context" where
  "put_proxies cx m a = cx\<lparr>cx_proxies := m, cx_world := (cx_world cx)\<lparr>wd_pool := pm_pool m, wd_audit := a\<rparr>\<rparr>"

definition exec_view :: "'h app_context \<Rightarrow> pool exec_state" where
  "exec_view cx = \<lparr>xs_pool = cx_pool cx, xs_audit = cx_audit cx, xs_runs = cx_runs cx\<rparr>"

definition put_exec :: "'h app_context \<Rightarrow> pool exec_state \<Rightarrow> 'h app_context" where
  "put_exec cx s = cx\<lparr>cx_runs := xs_runs s,
     cx_world := (cx_world cx)\<lparr>wd_pool := xs_pool s, wd_audit := xs_audit s\<rparr>\<rparr>"

definition files_view :: "'h app_context \<Rightarrow> (pool \<times> 'h) file_state" where
  "files_view cx = \<lparr>ft_world = (cx_pool cx, cx_files cx), ft_audit = cx_audit cx\<rparr>"

definition put_files :: "'h app_context \<Rightarrow> (pool \<times> 'h) file_state \<Rightarrow> 'h app_context" where
  "put_files cx s = cx\<lparr>cx_files := snd (ft_world s),
     cx_world := (cx_world cx)\<lparr>wd_pool := fst (ft_world s), wd_audit := ft_audit s\<rparr>\<rparr>"

text \<open>The file tools reach a host through the pool; what happens to files leaves the pool alone.\<close>

definition on_files :: "('h \<Rightarrow> 'h \<times> 'a) \<Rightarrow> pool \<times> 'h \<Rightarrow> (pool \<times> 'h) \<times> 'a" where
  "on_files f w = map_prod (Pair (fst w)) id (f (snd w))"

definition live_file_env :: "'h server_env \<Rightarrow> registry \<Rightarrow> (pool \<times> 'h) file_env" where
  "live_file_env env reg =
     (let e = xv_files env
      in \<lparr>fe_get = \<lambda>server w. map_prod (\<lambda>p. (p, snd w)) id (live_get env reg server (fst w)),
          fe_run = \<lambda>c cmd. on_files (fe_run e c cmd), fe_scp = \<lambda>a b rc pr. on_files (fe_scp e a b rc pr),
          fe_sftp = \<lambda>c w. fe_sftp e c (snd w), fe_readdir = \<lambda>c p w. fe_readdir e c p (snd w),
          fe_isdir = \<lambda>c p w. fe_isdir e c p (snd w), fe_stat = \<lambda>c p w. fe_stat e c p (snd w),
          fe_glob = \<lambda>c p w. fe_glob e c p (snd w), fe_mkdir = \<lambda>c p. on_files (fe_mkdir e c p),
          fe_remove = \<lambda>c p. on_files (fe_remove e c p), fe_depth = fe_depth e,
          fe_expanduser = fe_expanduser e, fe_str = fe_str e\<rparr>)"

definition put_registry :: "'h app_context \<Rightarrow> registry \<Rightarrow> audit_state \<Rightarrow> 'h app_context" where
  "put_registry cx r a = cx\<lparr>cx_world := (cx_world cx)\<lparr>wd_registry := r, wd_audit := a\<rparr>\<rparr>"

subsection \<open>The ten tools\<close>

text \<open>A tool gives a dictionary, or for some a text or an already dumped value.\<close>

datatype response = Reply reply | Text string | Dump json

definition or_empty :: "string option \<Rightarrow> string" where
  "or_empty x = (case x of None \<Rightarrow> [] | Some s \<Rightarrow> s)"

definition invalid_action :: "string \<Rightarrow> reply" where
  "invalid_action action = err_reply ''invalid_action'' [(''action'', JStr action)]"

abbreviation as_reply :: "'c \<times> reply result \<Rightarrow> 'c \<times> response result" where
  "as_reply \<equiv> map_prod id (map_sum id Reply)"

text \<open>\<open>ssh_exec\<close>\<close>

definition tool_exec ::
    "'h server_env \<Rightarrow> string \<Rightarrow> string \<Rightarrow> string option \<Rightarrow> int option \<Rightarrow> 'h app_context \<Rightarrow> 'h app_context \<times> response result" where
  "tool_exec env server command cwd timeout cx =
     as_reply (map_prod (put_exec cx) id
       (ssh_exec \<lparr>xe_get = live_get env (cx_registry cx), xe_run = xv_exec_run env\<rparr> (cx_registry cx)
          server command cwd None timeout (exec_view cx)))"

text \<open>\<open>ssh_process\<close>\<close>

record process_args =
  pa_action :: string
  pa_server :: "string option"
  pa_command :: "string option"
  pa_process_id :: "string option"
  pa_cwd :: "string option"
  pa_data :: "string option"
  pa_signal :: string
  pa_max_bytes :: int
  pa_offset :: int

definition tool_process :: "'h server_env \<Rightarrow> process_args \<Rightarrow> 'h app_context \<Rightarrow> 'h app_context \<times> response result" where
  "tool_process env x cx =
     (let se = live_session_env env (cx_registry cx); pid = or_empty (pa_process_id x); act = pa_action x
      in if act = ''start'' then
           as_reply (with_sessions
             (ssh_exec_stream se (or_empty (pa_server x)) (or_empty (pa_command x)) (pa_cwd x) None) cx)
         else if act = ''read'' then
           as_reply (with_sessions (ssh_read_process se pid (pa_max_bytes x) (pa_offset x)) cx)
         else if act = ''write'' then
           as_reply (with_sessions (ssh_write_process pid (or_empty (pa_data x))) cx)
         else if act = ''kill'' then
           as_reply (with_sessions (ssh_kill_process se pid (pa_signal x)) cx)
         else if act = ''list'' then
           (cx, Inr (Reply (ssh_list_processes (xv_isoformat env) (se_now se) (pa_server x) (session_view cx))))
         else if act = ''check'' then
           as_reply (with_sessions (ssh_check_process se pid) cx)
         else (cx, Inr (Reply (invalid_action act))))"

text \<open>\<open>ssh_pty\<close>\<close>

record pty_args =
  ya_action :: string
  ya_session_id :: "string option"
  ya_server :: "string option"
  ya_command :: "string option"
  ya_cols :: int
  ya_rows :: int
  ya_use_tmux :: bool
  ya_data :: "string option"
  ya_max_bytes :: int

definition tool_pty :: "'h server_env \<Rightarrow> pty_args \<Rightarrow> 'h app_context \<Rightarrow> 'h app_context \<times> response result" where
  "tool_pty env x cx =
     (let se = live_session_env env (cx_registry cx); sid = or_empty (ya_session_id x); act = ya_action x
      in if act = ''start'' then
           as_reply (with_sessions
             (ssh_start_pty se (or_empty (ya_server x)) (ya_command x) (ya_cols x) (ya_rows x) (ya_use_tmux x)) cx)
         else if act = ''read'' then
           as_reply (with_sessions (ssh_pty_read se sid (ya_max_bytes x)) cx)
         else if act = ''write'' then
           as_reply (with_sessions (ssh_pty_write se sid (or_empty (ya_data x))) cx)
         else if act = ''resize'' then
           as_reply (with_sessions (ssh_pty_resize se sid (ya_cols x) (ya_rows x)) cx)
         else if act = ''close'' then
           as_reply (with_sessions (ssh_pty_close se sid) cx)
         else if act = ''attach'' then
           as_reply (with_sessions (ssh_pty_attach se sid) cx)
         else (cx, Inr (Reply (invalid_action act))))"

text \<open>\<open>ssh_files\<close>\<close>

record files_args =
  ga_action :: string
  ga_server :: "string option"
  ga_remote_path :: "string option"
  ga_local_path :: "string option"
  ga_src_server :: "string option"
  ga_src_path :: "string option"
  ga_dst_server :: "string option"
  ga_dst_path :: "string option"
  ga_recurse :: bool
  ga_preserve :: bool
  ga_delete :: bool

definition with_files ::
    "((pool \<times> 'h) file_state \<Rightarrow> (pool \<times> 'h) file_state \<times> reply) \<Rightarrow> 'h app_context \<Rightarrow> 'h app_context \<times> response result" where
  "with_files f cx = map_prod (put_files cx) (\<lambda>rep. Inr (Reply rep)) (f (files_view cx))"

definition tool_files :: "'h server_env \<Rightarrow> files_args \<Rightarrow> 'h app_context \<Rightarrow> 'h app_context \<times> response result" where
  "tool_files env x cx =
     (let reg = cx_registry cx; fe = live_file_env env reg; act = ga_action x;
          remote = or_empty (ga_remote_path x); local = or_empty (ga_local_path x);
          src = or_empty (ga_src_server x); src_path = or_empty (ga_src_path x);
          dst = or_empty (ga_dst_server x); dst_path = or_empty (ga_dst_path x)
      in if act = ''get'' then
           with_files (ssh_get fe reg (or_empty (ga_server x)) remote local (ga_recurse x) (ga_preserve x)) cx
         else if act = ''put'' then
           with_files (ssh_put fe reg (or_empty (ga_server x)) local remote (ga_recurse x) (ga_preserve x)) cx
         else if act = ''transfer'' then
           with_files (ssh_transfer fe reg src src_path dst dst_path (ga_recurse x) (ga_preserve x)) cx
         else if act = ''sync'' then
           with_files (ssh_sync fe reg src src_path dst dst_path (ga_delete x) (ga_preserve x)) cx
         else (cx, Inr (Reply (invalid_action act))))"

text \<open>
  A topology scan asks the pool for a connection to every selected server twice, once to harvest its
  addresses and once to probe from it; \<open>live_scan\<close> lets the live pool answer, one server after another.
\<close>

fun dial_all :: "(string \<Rightarrow> 'p \<Rightarrow> 'p \<times> nat result) \<Rightarrow> string list \<Rightarrow> 'p \<Rightarrow> 'p \<times> (string \<times> nat result) list" where
  "dial_all get [] p = (p, [])"
| "dial_all get (n # ns) p =
     (let (p1, r) = get n p; (p2, rs) = dial_all get ns p1 in (p2, (n, r) # rs))"

definition dial_error :: "(string \<times> nat result) list \<Rightarrow> string \<Rightarrow> py_exn option" where
  "dial_error rs n = (case map_of rs n of Some (Inl e) \<Rightarrow> Some e | _ \<Rightarrow> None)"

definition live_scan ::
    "'h server_env \<Rightarrow> registry \<Rightarrow> string list option \<Rightarrow> string list option \<Rightarrow> pool \<Rightarrow> pool \<times> scan_env" where
  "live_scan env reg incl excl p =
     (let names = map sc_name (select_nodes (reg_list_all reg) incl excl);
          (p1, harvest) = dial_all (live_get env reg) names p;
          (p2, source) = dial_all (live_get env reg) names p1
      in (p2, (xv_scan env)\<lparr>sv_connect := dial_error harvest, sv_source := dial_error source\<rparr>))"

definition tool_scan_topology ::
    "'h server_env \<Rightarrow> string list option \<Rightarrow> string list option \<Rightarrow> 'h app_context \<Rightarrow> 'h app_context \<times> response result" where
  "tool_scan_topology env incl excl cx =
     (let (p, sv) = live_scan env (cx_registry cx) incl excl (cx_pool cx);
          scan = (case xv_scan_error env of Some e \<Rightarrow> Inl e | None \<Rightarrow> Inr sv)
      in map_prod (\<lambda>w. cx\<lparr>cx_world := w\<rparr>) (map_sum id Dump)
           (ssh_scan_topology (xv_tools env) scan incl excl ((cx_world cx)\<lparr>wd_pool := p\<rparr>)))"

text \<open>\<open>ssh_jump\<close>\<close>

record jump_args =
  ja_action :: string
  ja_name :: string
  ja_chain :: "string list option"
  ja_persist :: bool
  ja_note :: "string option"
  ja_target :: "string option"
  ja_max_age :: "int option"
  ja_force_rescan :: bool

definition tool_jump :: "'h server_env \<Rightarrow> jump_args \<Rightarrow> 'h app_context \<Rightarrow> 'h app_context \<times> response result" where
  "tool_jump env x cx =
     (let act = ja_action x; reg = cx_registry cx
      in if act = ''setup'' then
           let rescan = (ja_force_rescan x \<and> (case ja_target x of None \<Rightarrow> False | Some t \<Rightarrow> \<not> isl (reg_get reg t)));
               (p, sv) = (if rescan then live_scan env reg None None (cx_pool cx) else (cx_pool cx, xv_scan env))
           in as_reply (map_prod (\<lambda>w. cx\<lparr>cx_world := w\<rparr>) id
                (setup_jump (xv_tools env) sv (ja_name x) (ja_chain x) (ja_persist x) (ja_note x) (ja_target x)
                   (ja_max_age x) (ja_force_rescan x) ((cx_world cx)\<lparr>wd_pool := p\<rparr>)))
         else if act = ''teardown'' then
           (let (r, a, rep) = teardown_jump (tv_fate (xv_tools env)) (ja_name x) reg (cx_audit cx)
            in (put_registry cx r a, Inr (Reply rep)))
         else (cx, Inr (Reply (invalid_action act))))"

text \<open>\<open>ssh_discover\<close>\<close>

record discover_args =
  va_action :: string
  va_session :: "string option"
  va_args :: disc_args

definition tool_discover :: "'h server_env \<Rightarrow> discover_args \<Rightarrow> 'h app_context \<Rightarrow> 'h app_context \<times> response result" where
  "tool_discover env x cx =
     (let act = va_action x; reg = cx_registry cx
      in if act = ''start'' then
           (let (r, p, a, res) = discover (xv_disc env) (live_get env reg) (pe_expanduser (tv_pool (xv_tools env)))
                  (xv_read_key env) (xv_disc_session env) (va_args x) reg (cx_pool cx) (cx_audit cx)
            in (put_registry (cx\<lparr>cx_world := (cx_world cx)\<lparr>wd_pool := p\<rparr>\<rparr>) r a,
                Inr (Reply (dump_discovery (xv_isoformat env) (dv_now (xv_disc env)) res))))
         else if act = ''teardown'' then
           (let (r, a, rep) = teardown_discovery (tv_fate (xv_tools env)) (or_empty (va_session x)) reg (cx_audit cx)
            in (put_registry cx r a, Inr (Reply rep)))
         else (cx, Inr (Reply (invalid_action act))))"

text \<open>\<open>ssh_known_host\<close>\<close>

definition tool_known_host :: "'h server_env \<Rightarrow> string \<Rightarrow> string \<Rightarrow> 'h app_context \<Rightarrow> 'h app_context \<times> response result" where
  "tool_known_host env action name cx =
     (let reg = cx_registry cx; tv = xv_tools env
      in if action = ''add'' then
           (let (p, a, rep) = ssh_add_known_host (tv_depth tv) (tv_pool tv) (xv_host_key env) name reg (cx_pool cx) (cx_audit cx)
            in (cx\<lparr>cx_world := (cx_world cx)\<lparr>wd_pool := p, wd_audit := a\<rparr>\<rparr>, Inr (Reply rep)))
         else if action = ''show'' then
           (cx, map_sum id Reply (ssh_show_known_host (xv_match env) (pe_expanduser (tv_pool tv)) name reg (cx_pool cx)))
         else (cx, Inr (Reply (invalid_action action))))"

text \<open>\<open>ssh_server\<close>: the arguments of a registration, all but the port optional.\<close>

record server_args =
  wa_action :: string
  wa_name :: "string option"
  wa_host :: "string option"
  wa_user :: "string option"
  wa_auth_type :: "string option"
  wa_port :: int
  wa_key_path :: "string option"
  wa_cert_path :: "string option"
  wa_password_env :: "string option"
  wa_jump_host :: "string option"
  wa_host_key_policy :: "string option"
  wa_default_cwd :: "string option"
  wa_max_sessions :: "int option"
  wa_keepalive_interval :: "int option"
  wa_note :: "string option"

definition register_args_of :: "server_args \<Rightarrow> register_args" where
  "register_args_of x =
     \<lparr>ra_name = or_empty (wa_name x), ra_host = or_empty (wa_host x), ra_user = or_empty (wa_user x),
      ra_auth_type = or_empty (wa_auth_type x), ra_port = wa_port x, ra_key_path = wa_key_path x,
      ra_cert_path = wa_cert_path x, ra_password_env = wa_password_env x, ra_jump_host = wa_jump_host x,
      ra_host_key_policy = wa_host_key_policy x, ra_default_cwd = wa_default_cwd x, ra_default_env = None,
      ra_max_sessions = wa_max_sessions x, ra_keepalive_interval = wa_keepalive_interval x, ra_note = wa_note x\<rparr>"

definition tool_server :: "'h server_env \<Rightarrow> server_args \<Rightarrow> 'h app_context \<Rightarrow> 'h app_context \<times> response result" where
  "tool_server env x cx =
     (let act = wa_action x; reg = cx_registry cx; fate = tv_fate (xv_tools env)
      in if act = ''list'' then (cx, Inr (Text (ssh_list_servers (live_status env cx) reg)))
         else if act = ''register'' then
           (let (r, a, rep) = ssh_register_server fate (register_args_of x) reg (cx_audit cx)
            in (put_registry cx r a, Inr (Reply rep)))
         else if act = ''deregister'' then
           (let (r, a, rep) = ssh_deregister_server fate (live_status env cx) (or_empty (wa_name x)) reg (cx_audit cx)
            in (put_registry cx r a, Inr (Reply rep)))
         else (cx, Inr (Reply (invalid_action act))))"

text \<open>\<open>ssh_proxy\<close>: the action itself is dispatched in \<open>proxy_tools.py\<close>.\<close>

record proxy_args =
  xa_action :: string
  xa_server :: "string option"
  xa_type :: "string option"
  xa_local_port :: "int option"
  xa_local_host :: string
  xa_remote_host :: "string option"
  xa_remote_port :: "int option"
  xa_proxy_id :: "string option"

definition tool_proxy :: "'h server_env \<Rightarrow> proxy_args \<Rightarrow> 'h app_context \<Rightarrow> 'h app_context \<times> response result" where
  "tool_proxy env x cx =
     (let (m, a, r) = ssh_proxy (live_get env (cx_registry cx)) pool_pin pool_unpin (xv_proxy env) (xa_action x)
            (xa_server x) (xa_type x) (xa_local_port x) (xa_local_host x) (xa_remote_host x) (xa_remote_port x)
            (xa_proxy_id x) (proxy_view cx) (cx_audit cx)
      in (put_proxies cx m a, map_sum id Reply r))"

subsection \<open>Requests\<close>

datatype request =
    Call_exec string string "string option" "int option"
  | Call_process process_args
  | Call_pty pty_args
  | Call_files files_args
  | Call_jump jump_args
  | Call_discover discover_args
  | Call_known_host string string
  | Call_server server_args
  | Call_scan_topology "string list option" "string list option"
  | Call_proxy proxy_args

fun handle :: "'h server_env \<Rightarrow> request \<Rightarrow> 'h app_context \<Rightarrow> 'h app_context \<times> response result" where
  "handle env (Call_exec server command cwd timeout) cx = tool_exec env server command cwd timeout cx"
| "handle env (Call_process x) cx = tool_process env x cx"
| "handle env (Call_pty x) cx = tool_pty env x cx"
| "handle env (Call_files x) cx = tool_files env x cx"
| "handle env (Call_jump x) cx = tool_jump env x cx"
| "handle env (Call_discover x) cx = tool_discover env x cx"
| "handle env (Call_known_host action name) cx = tool_known_host env action name cx"
| "handle env (Call_server x) cx = tool_server env x cx"
| "handle env (Call_scan_topology incl excl) cx = tool_scan_topology env incl excl cx"
| "handle env (Call_proxy x) cx = tool_proxy env x cx"

subsection \<open>Start and end\<close>

text \<open>
  \<open>_build_app\<close>: what \<open>load_config\<close> gave for the file at the resolved path, the state file, the audit
  file and the known-hosts file on disk. A configuration or a state file that raises ends the start.
\<close>

definition build_app ::
    "string \<Rightarrow> fs \<Rightarrow> app_config result \<Rightarrow> topology_result codec \<Rightarrow> state_file \<Rightarrow> audit_state \<Rightarrow> string option \<Rightarrow> 'h
      \<Rightarrow> 'h app_context result" where
  "build_app path fs loaded codec state_file audit known_hosts files =
     (case Registry_init path fs loaded of
        Inl e \<Rightarrow> Inl e
      | Inr reg \<Rightarrow>
          (case state_load codec (StateStore state_file) of
             (state, Inl e) \<Rightarrow> Inl e
           | (state, Inr _) \<Rightarrow>
               let pool = ConnectionPool known_hosts
               in Inr \<lparr>cx_world = \<lparr>wd_registry = reg, wd_pool = pool, wd_state = state, wd_audit = audit\<rparr>,
                       cx_sessions = SessionManager pool state audit, cx_proxies = ProxyManager pool,
                       cx_runs = [], cx_files = files\<rparr>))"

text \<open>\<open>main\<close>: a \<open>--config\<close> argument that is not empty becomes \<open>MCP_SSH_CONFIG\<close> of the process.\<close>

definition main_config_path :: "(string \<rightharpoonup> string) \<Rightarrow> string \<Rightarrow> string option \<Rightarrow> string" where
  "main_config_path environ home config_arg =
     resolve_config_path
       (case config_arg of Some (c # cs) \<Rightarrow> environ(''MCP_SSH_CONFIG'' \<mapsto> c # cs) | _ \<Rightarrow> environ)
       home ''MCP_SSH_CONFIG'' None"

text \<open>The \<open>finally\<close> clause of the lifespan: the watcher is cancelled, then proxies, pool and log are closed.\<close>

definition pool_shut :: "'h app_context \<Rightarrow> 'h app_context" where
  "pool_shut cx = cx\<lparr>cx_world := (cx_world cx)
     \<lparr>wd_pool := pool_close_all (cx_pool cx), wd_audit := audit_close (cx_audit cx)\<rparr>\<rparr>"

definition lifespan_end :: "'h app_context \<Rightarrow> 'h app_context" where
  "lifespan_end cx = pool_shut (put_proxies cx (close_proxies pool_unpin (proxy_view cx)) (cx_audit cx))"

text \<open>The handler of SIGTERM closes the pool and the log, not the proxies.\<close>

definition on_sigterm :: "'h app_context \<Rightarrow> 'h app_context" where
  "on_sigterm cx = pool_shut cx"

text \<open>What happens between calls: the watcher reloads, connections die, terminals print.\<close>

definition on_reload :: "app_config result \<Rightarrow> 'h app_context \<Rightarrow> 'h app_context" where
  "on_reload loaded cx = cx\<lparr>cx_world := (cx_world cx)\<lparr>wd_registry := fst (reg_watch_round loaded (cx_registry cx))\<rparr>\<rparr>"

definition on_pool :: "(pool \<Rightarrow> pool) \<Rightarrow> 'h app_context \<Rightarrow> 'h app_context" where
  "on_pool f cx = cx\<lparr>cx_world := (cx_world cx)\<lparr>wd_pool := f (cx_pool cx)\<rparr>\<rparr>"

text \<open>A new proxy gets an id that is not in use (eight random hexadecimal digits).\<close>

definition fresh_id :: "'h server_env \<Rightarrow> 'h app_context \<Rightarrow> bool" where
  "fresh_id env cx \<longleftrightarrow>
     map_of (pm_proxies (cx_proxies cx)) (pv_new_id (xv_proxy env) (length (pm_forwards (cx_proxies cx)))) = None"

inductive app_step :: "'h app_context \<Rightarrow> 'h app_context \<Rightarrow> bool" where
  step_call: "fresh_id env cx \<Longrightarrow> app_step cx (fst (handle env req cx))"
| step_reload: "named_dict (ac_servers cfg) \<Longrightarrow> app_step cx (on_reload (Inr cfg) cx)"
| step_reload_fails: "app_step cx (on_reload (Inl e) cx)"
| step_conn_dies: "app_step cx (on_pool (\<lambda>p. p\<lparr>pl_live := removeAll c (pl_live p)\<rparr>) cx)"
| step_conn_lost: "app_step cx (on_pool (pool_on_close name) cx)"
| step_output: "app_step cx (fst (with_sessions (\<lambda>m. (drain_chunk sid chunk m, ())) cx))"
| step_process_ends: "app_step cx (fst (with_sessions (\<lambda>m. (m\<lparr>sm_closed := proc # sm_closed m\<rparr>, ())) cx))"

inductive_cases app_stepE: "app_step cx cx'"

end
