(* ===== verification/Server_Runs.thy ===== *)
theory Server_Runs
  imports Server
begin

section \<open>Runs of the server\<close>

text \<open>
  The invariants of the components hold together in every run of the server: each tool changes the
  shared objects only through the operations of their components. From the invariants follows what the
  end of the server leaves behind.
\<close>

subsection \<open>The invariant\<close>

text \<open>Every pin of the pool belongs to a proxy, and every open listener.\<close>

definition proxies_ok :: "pool proxy_manager \<Rightarrow> bool" where
  "proxies_ok m \<longleftrightarrow> dict_ok (pm_proxies m) \<and> set (pl_pinned (pm_pool m)) \<subseteq> px_server ` fst ` snd ` set (pm_proxies m)
     \<and> set (pm_listening m) \<subseteq> snd ` snd ` set (pm_proxies m)"

definition app_ok :: "'h app_context \<Rightarrow> bool" where
  "app_ok cx \<longleftrightarrow> registry_wf (cx_registry cx) \<and> pool_ok (cx_pool cx) \<and> sm_ok (session_view cx)
     \<and> proxies_ok (proxy_view cx)"

text \<open>What a step keeps: the invariant, and every line of the audit log.\<close>

definition app_keeps :: "'h app_context \<Rightarrow> 'h app_context \<Rightarrow> bool" where
  "app_keeps cx cx' \<longleftrightarrow> app_ok cx' \<and> audit_grows (cx_audit cx) (cx_audit cx')"

lemma app_keeps_refl [simp]: "app_keeps cx cx \<longleftrightarrow> app_ok cx"
  by (simp add: app_keeps_def)

text \<open>Only these parts of the context count.\<close>

lemma tables_ok_upd [simp]:
  "tables_ok (m\<lparr>sm_pool := p\<rparr>) = tables_ok m" "tables_ok (m\<lparr>sm_state := s\<rparr>) = tables_ok m"
  "tables_ok (m\<lparr>sm_audit := a\<rparr>) = tables_ok m"
  by (simp_all add: tables_ok_def)

lemma sm_ok_view: "sm_ok (session_view cx) \<longleftrightarrow> records_ok (wd_state (cx_world cx)) \<and> tables_ok (cx_sessions cx)
    \<and> (\<forall>cmd \<in> snd ` set (sm_runs (cx_sessions cx)). cmd_safe cmd)"
  by (simp add: sm_ok_def session_view_def)

lemma proxies_ok_view: "proxies_ok (proxy_view cx) \<longleftrightarrow> dict_ok (pm_proxies (cx_proxies cx)) \<and>
     set (pl_pinned (cx_pool cx)) \<subseteq> px_server ` fst ` snd ` set (pm_proxies (cx_proxies cx))
     \<and> set (pm_listening (cx_proxies cx)) \<subseteq> snd ` snd ` set (pm_proxies (cx_proxies cx))"
  by (simp add: proxies_ok_def proxy_view_def)

lemmas app_ok_parts = app_ok_def sm_ok_view proxies_ok_view

text \<open>A step that gives the pool another value and grows the log, as the pool's users do.\<close>

abbreviation pool_kept :: "'h app_context \<Rightarrow> pool \<Rightarrow> bool" where
  "pool_kept cx p \<equiv> pool_ok p \<and> pl_pinned p = pl_pinned (cx_pool cx)"

definition world_keeps :: "'h app_context \<Rightarrow> world \<Rightarrow> bool" where
  "world_keeps cx w \<longleftrightarrow> pool_kept cx (wd_pool w) \<and> registry_wf (wd_registry w) \<and> records_ok (wd_state w)
     \<and> audit_grows (cx_audit cx) (wd_audit w)"

lemma keeps_world: "app_ok cx \<Longrightarrow> world_keeps cx w \<Longrightarrow> app_keeps cx (cx\<lparr>cx_world := w\<rparr>)"
  by (simp add: world_keeps_def app_keeps_def app_ok_parts)

lemma world_keeps_start: "app_ok cx \<Longrightarrow> pool_kept cx p \<Longrightarrow> world_keeps cx ((cx_world cx)\<lparr>wd_pool := p\<rparr>)"
  by (simp add: world_keeps_def app_ok_parts)

subsection \<open>The tools keep it\<close>

lemma live_kept:
  assumes "app_ok cx"
  shows "live_pool.live (pl_pinned (cx_pool cx)) (cx_audit cx) (session_view cx)"
    "live_pool.exec_live (pl_pinned (cx_pool cx)) (cx_audit cx) (exec_view cx)"
    "live_pool.files_live (pl_pinned (cx_pool cx)) (cx_audit cx) (files_view cx)"
  using assms by (simp_all add: live_pool.live_def live_pool.exec_live_def live_pool.files_live_def app_ok_def
      session_view_def exec_view_def files_view_def)

lemma session_view_put [simp]: "session_view (put_sessions cx m) = m"
  by (simp add: session_view_def put_sessions_def)

lemma keeps_sessions:
  assumes "app_ok cx" and "sm_ok (fst (f (session_view cx)))"
    and "live_pool.live (pl_pinned (cx_pool cx)) (cx_audit cx) (fst (f (session_view cx)))"
  shows "app_keeps cx (fst (with_sessions f cx))"
  using assms
  by (simp add: with_sessions_def app_keeps_def app_ok_def proxies_ok_view live_pool.live_def)
    (simp add: put_sessions_def)

lemma se_get_live [simp]: "se_get (live_session_env env reg) = live_get env reg"
  by (simp add: live_session_env_def)

lemma sm_ok_write: "sm_ok m \<Longrightarrow> sm_ok (fst (write_process pid data m))"
  by (auto simp: write_process_def intro!: ok_bind ok_pieces)

lemma sm_ok_start_pty: "sm_ok m \<Longrightarrow> sm_ok (fst (start_pty env server command cols rows use_tmux m))"
  by (auto simp: start_pty_def intro!: ok_bind ok_open ok_admit)

lemma sm_ok_fst:
  "start_pty env server command cols rows use_tmux m = (m', r) \<Longrightarrow> sm_ok m \<Longrightarrow> sm_ok m'"
  "pty_close env sid m = (m', q) \<Longrightarrow> sm_ok m \<Longrightarrow> sm_ok m'"
  using sm_ok_start_pty [of m env server command cols rows use_tmux] ok_pty_close [of m env sid] by simp_all

lemma sm_ok_tools:
  assumes "sm_ok m"
  shows "sm_ok (fst (ssh_exec_stream env server command cwd vars m))"
    and "sm_ok (fst (ssh_read_process env pid max_bytes offset m))"
    and "sm_ok (fst (ssh_write_process pid data m))"
    and "sm_ok (fst (ssh_kill_process env pid signal m))"
    and "sm_ok (fst (ssh_check_process env pid m))"
    and "sm_ok (fst (ssh_start_pty env server line cols rows use_tmux m))"
    and "sm_ok (fst (ssh_pty_read env pid max_bytes m))"
    and "sm_ok (fst (ssh_pty_write env pid data m))"
    and "sm_ok (fst (ssh_pty_resize env pid cols rows m))"
    and "sm_ok (fst (ssh_pty_close env pid m))"
    and "sm_ok (fst (ssh_pty_attach env pid m))"
  using assms
  by (auto simp: ssh_exec_stream_def ssh_read_process_def ssh_write_process_def ssh_kill_process_def
      ssh_check_process_def ssh_start_pty_def ssh_pty_read_def ssh_pty_write_def ssh_pty_resize_def
      ssh_pty_close_def ssh_pty_attach_def ok_ops sm_ok_write split: prod.split sum.split
      intro: ok_pieces dest: sm_ok_fst)

lemma app_ok_sm: "app_ok cx \<Longrightarrow> sm_ok (session_view cx)"
  by (simp add: app_ok_def)

lemmas tool_keeps = sm_ok_tools [OF app_ok_sm] live_pool.live_tools [OF live_kept(1)]

lemma process_keeps: "app_ok cx \<Longrightarrow> app_keeps cx (fst (tool_process env x cx))"
  by (auto simp: tool_process_def Let_def live_get_def intro!: keeps_sessions tool_keeps)

lemma pty_keeps: "app_ok cx \<Longrightarrow> app_keeps cx (fst (tool_pty env x cx))"
  by (auto simp: tool_pty_def Let_def live_get_def intro!: keeps_sessions tool_keeps)

lemma exec_keeps:
  assumes "app_ok cx"
  shows "app_keeps cx (fst (tool_exec env server command cwd timeout cx))"
proof -
  let ?s = "fst (ssh_exec \<lparr>xe_get = live_get env (cx_registry cx), xe_run = xv_exec_run env\<rparr> (cx_registry cx)
     server command cwd None timeout (exec_view cx))"
  have "live_pool.exec_live (pl_pinned (cx_pool cx)) (cx_audit cx) ?s"
    by (rule live_pool.exec_live_exec [OF _ live_kept(2) [OF assms]]) (simp add: live_get_def)
  then show ?thesis using assms
    by (auto simp: tool_exec_def put_exec_def live_pool.exec_live_def app_keeps_def app_ok_parts)
qed

lemma keeps_files:
  assumes "app_ok cx" and "live_pool.files_live (pl_pinned (cx_pool cx)) (cx_audit cx) (fst (f (files_view cx)))"
  shows "app_keeps cx (fst (with_files f cx))"
  using assms by (auto simp: with_files_def put_files_def live_pool.files_live_def app_keeps_def app_ok_parts)

lemma files_env_live: "live_pool.files_env (tv_depth (xv_tools env)) (live_env (tv_pool (xv_tools env)) reg)
    (live_file_env env reg)"
  by (simp add: live_pool.files_env_def live_file_env_def on_files_def live_get_def Let_def)

lemma files_keeps: "app_ok cx \<Longrightarrow> app_keeps cx (fst (tool_files env x cx))"
  by (simp add: tool_files_def Let_def) (intro impI conjI keeps_files
      live_pool.files_tools [OF files_env_live live_kept(3)]; assumption)

lemma registry_keeps:
  assumes "app_ok cx" and "registry_wf r" and "audit_grows (cx_audit cx) a"
  shows "app_keeps cx (put_registry cx r a)"
  using assms by (simp add: put_registry_def app_keeps_def app_ok_parts)

lemma app_ok_wf: "app_ok cx \<Longrightarrow> registry_wf (cx_registry cx)"
  by (simp add: app_ok_def)

lemma server_keeps: "app_ok cx \<Longrightarrow> app_keeps cx (fst (tool_server env x cx))"
  by (auto simp: tool_server_def Let_def split: prod.split
      dest: wf_client.kept_register wf_client.kept_deregister app_ok_wf intro!: registry_keeps)

lemma dial_all_keeps: "(\<And>s p. Q p \<Longrightarrow> Q (fst (get s p))) \<Longrightarrow> Q p \<Longrightarrow> Q (fst (dial_all get ns p))"
proof (induction ns arbitrary: p)
  case (Cons n ns)
  obtain p1 r where g: "get n p = (p1, r)" by (rule prod.exhaust)
  then have "Q p1" using Cons.prems(1) [OF Cons.prems(2), of n] by simp
  then have "Q (fst (dial_all get ns p1))" using Cons.IH [OF Cons.prems(1)] by blast
  then show ?case using g by (simp add: Let_def case_prod_unfold)
qed simp

lemma scan_pool_kept:
  assumes "pool_ok p \<and> pl_pinned p = pins"
  shows "pool_ok (fst (live_scan env reg incl excl p)) \<and> pl_pinned (fst (live_scan env reg incl excl p)) = pins"
proof -
  let ?Q = "\<lambda>p. pool_ok p \<and> pl_pinned p = pins"
  have "?Q (fst (dial_all (live_get env reg) ns p))" if "?Q p" for ns p
    by (rule dial_all_keeps [of ?Q, OF _ that]) (simp add: live_get_def live_pool.get_keeps)
  then show ?thesis using assms by (simp add: live_scan_def Let_def case_prod_unfold)
qed

lemma records_ok_topology:
  assumes "set_topology write cd t s = (s', r)" and "records_ok s"
  shows "records_ok s'"
proof -
  have "ss_processes s' = ss_processes s \<and> ss_sessions s' = ss_sessions s"
    using assms(1) by (auto simp: set_topology_def state_persist_def Let_def split: if_splits)
  then show ?thesis using assms(2)
    by (simp add: records_ok_def processes_keyed_def sessions_keyed_def list_processes_def)
qed

lemma world_scan: "world_keeps cx w \<Longrightarrow> world_keeps cx (fst (ssh_scan_topology env scan incl excl w))"
  by (auto simp: ssh_scan_topology_def world_keeps_def Let_def split: prod.split sum.split
      dest: records_ok_topology)

lemma scan_keeps: "app_ok cx \<Longrightarrow> app_keeps cx (fst (tool_scan_topology env incl excl cx))"
  using scan_pool_kept [of "cx_pool cx" "pl_pinned (cx_pool cx)" env "cx_registry cx" incl excl]
  by (auto simp: tool_scan_topology_def Let_def case_prod_unfold app_ok_def
      intro!: keeps_world world_scan world_keeps_start)

lemma world_topology:
  "auto_topology env sv max_age force w = (w', r) \<Longrightarrow> world_keeps cx w \<Longrightarrow> world_keeps cx w'"
  by (auto simp: auto_topology_def world_keeps_def Let_def dest: records_ok_topology
      split: if_splits prod.splits sum.splits option.splits)

lemma world_chain:
  "build_chain fate name chain persist note (wd_registry w) (wd_audit w) = (r, a, v) \<Longrightarrow> world_keeps cx w \<Longrightarrow>
     world_keeps cx (w\<lparr>wd_registry := r, wd_audit := a\<rparr>)"
  using wf_client.kept_build_chain [of fate name chain persist "note" "wd_registry w" "wd_audit w" r a v]
  by (auto simp: world_keeps_def intro: audit_grows_trans)

lemma world_get:
  assumes "get_connection d env name (wd_pool w) = (p, v)" and "world_keeps cx w"
  shows "world_keeps cx (w\<lparr>wd_pool := p\<rparr>)"
  using assms live_pool.get_keeps [of "wd_pool w" "pl_pinned (cx_pool cx)" d env name] by (simp add: world_keeps_def)

lemma world_teardown:
  "teardown_jump fate name (wd_registry w) (wd_audit w) = (r, a, rep) \<Longrightarrow> world_keeps cx w \<Longrightarrow>
     world_keeps cx (w\<lparr>wd_registry := r, wd_audit := a\<rparr>)"
  using wf_client.kept_teardown_jump [of fate name "wd_registry w" "wd_audit w" r a rep]
  by (auto simp: world_keeps_def intro: audit_grows_trans)

lemma world_log: "world_keeps cx w \<Longrightarrow> world_keeps cx (w\<lparr>wd_audit := audit_log e (wd_audit w)\<rparr>)"
  by (simp add: world_keeps_def)

lemma world_build:
  assumes "world_keeps cx w"
  shows "world_keeps cx (fst (auto_build env name target persist note topology w))"
proof (cases "the (find_path topology target)")
  case None
  then show ?thesis using assms by (simp add: auto_build_def)
next
  case (Some path)
  obtain r a v where b: "build_chain (tv_fate env) name (chain_of_path path) persist note (wd_registry w) (wd_audit w) = (r, a, v)"
    by (rule prod_cases3)
  let ?w = "w\<lparr>wd_registry := r, wd_audit := a\<rparr>"
  have w: "world_keeps cx ?w" by (rule world_chain [OF b assms])
  obtain p u where g: "get_connection (tv_depth env) (live_env (tv_pool env) r) name (wd_pool ?w) = (p, u)" by (rule prod.exhaust)
  note wg = world_get [OF g w]
  obtain r2 a2 rep where t: "teardown_jump (tv_fate env) name (wd_registry (?w\<lparr>wd_pool := p\<rparr>)) (wd_audit (?w\<lparr>wd_pool := p\<rparr>)) = (r2, a2, rep)"
    by (rule prod_cases3)
  show ?thesis using world_teardown [OF t wg] wg w world_log [OF wg] b g t Some
    by (cases v; cases u) (auto simp: auto_build_def Let_def world_keeps_def)
qed

lemma world_jump:
  assumes "world_keeps cx w"
  shows "world_keeps cx (fst (setup_jump env sv name chain persist note target max_age force w))"
proof (cases target)
  case None
  then show ?thesis using assms world_chain [OF _ assms]
    by (auto simp: setup_jump_def Let_def split: option.split list.split prod.split)
next
  case (Some t)
  then show ?thesis using assms
    by (auto simp: setup_jump_def setup_jump_auto_def split: sum.split prod.split
        intro: world_build dest: world_topology)
qed

lemma jump_keeps:
  assumes "app_ok cx"
  shows "app_keeps cx (fst (tool_jump env x cx))"
proof -
  let ?pool = "\<lambda>b. fst (if b then live_scan env (cx_registry cx) None None (cx_pool cx) else (cx_pool cx, xv_scan env))"
  have "pool_kept cx (?pool b)" for b
    using scan_pool_kept [of "cx_pool cx" "pl_pinned (cx_pool cx)" env "cx_registry cx" None None] assms by (simp add: app_ok_def)
  then have "world_keeps cx ((cx_world cx)\<lparr>wd_pool := ?pool b\<rparr>)" for b
    by (rule world_keeps_start [OF assms])
  note built = keeps_world [OF assms world_jump [OF this]]
  obtain r a rep where t: "teardown_jump (tv_fate (xv_tools env)) (ja_name x) (cx_registry cx) (cx_audit cx) = (r, a, rep)"
    by (rule prod_cases3)
  note down = registry_keeps [OF assms, of r a] wf_client.kept_teardown_jump [OF t app_ok_wf [OF assms]]
  show ?thesis using built down assms t by (simp add: tool_jump_def Let_def case_prod_unfold)
qed

lemma tool_discover_keeps:
  assumes "app_ok cx"
  shows "app_keeps cx (fst (tool_discover env x cx))"
proof -
  let ?reg = "cx_registry cx" and ?a = "cx_audit cx"
  obtain r p a res where d: "discover (xv_disc env) (live_get env ?reg) (pe_expanduser (tv_pool (xv_tools env)))
      (xv_read_key env) (xv_disc_session env) (va_args x) ?reg (cx_pool cx) ?a = (r, p, a, res)"
    by (rule prod_cases4)
  have "pool_kept cx p"
    by (rule live_pool.discover_keeps [OF d [unfolded live_get_def]]) (use assms in \<open>simp add: app_ok_def\<close>)
  with wf_client.kept_discover [OF d app_ok_wf [OF assms]] assms
  have start: "app_keeps cx (put_registry (cx\<lparr>cx_world := (cx_world cx)\<lparr>wd_pool := p\<rparr>\<rparr>) r a)"
    by (simp add: put_registry_def app_keeps_def app_ok_parts)
  obtain r1 a1 rep where t: "teardown_discovery (tv_fate (xv_tools env)) (or_empty (va_session x)) ?reg ?a = (r1, a1, rep)"
    by (rule prod_cases3)
  have "app_keeps cx (put_registry cx r1 a1)"
    using registry_keeps [OF assms] wf_client.kept_teardown_discovery [OF t app_ok_wf [OF assms]] by blast
  then show ?thesis using start d t assms by (simp add: tool_discover_def Let_def)
qed

lemma known_host_keeps:
  assumes "app_ok cx"
  shows "app_keeps cx (fst (tool_known_host env action name cx))"
proof -
  let ?tv = "xv_tools env"
  obtain p a rep where k: "ssh_add_known_host (tv_depth ?tv) (tv_pool ?tv) (xv_host_key env) name (cx_registry cx)
      (cx_pool cx) (cx_audit cx) = (p, a, rep)"
    by (rule prod_cases3)
  have "pool_ok (q\<lparr>pl_known_hosts := kh\<rparr>) = pool_ok q" for q :: pool and kh by (simp add: pool_ok_def)
  then have "pool_kept cx p \<and> audit_grows (cx_audit cx) a"
    using k assms live_pool.get_keeps' [of "tv_depth ?tv" "live_env (tv_pool ?tv) (cx_registry cx)" name "cx_pool cx"]
    by (fastforce simp: ssh_add_known_host_def Let_def app_ok_def split: sum.splits prod.splits option.splits if_splits)
  then have "app_keeps cx (cx\<lparr>cx_world := (cx_world cx)\<lparr>wd_pool := p, wd_audit := a\<rparr>\<rparr>)"
    using assms by (simp add: app_keeps_def app_ok_parts)
  then show ?thesis using assms k by (simp add: tool_known_host_def Let_def)
qed

subsection \<open>Proxies\<close>

lemma proxies_start:
  assumes "start_proxy (get_connection d penv) pool_pin pool_unpin env server ptype lp lh rh rp m a = (m', a', v)"
    and "proxies_ok m" and "pool_ok (pm_pool m)"
    and "map_of (pm_proxies m) (pv_new_id env (length (pm_forwards m))) = None"
  shows "proxies_ok m' \<and> pool_ok (pm_pool m') \<and> audit_grows a a'"
proof -
  obtain p1 r where g: "get_connection d penv server (pm_pool m) = (p1, r)" by (rule prod.exhaust)
  have p1: "pool_ok p1" by (rule pool_ok_get [OF g assms(3)])
  have pool: "pool_ok (pm_pool m')"
    using assms(1) g pool_ok_pins [OF p1]
    by (auto simp: start_proxy_def Let_def pool_pin_def pool_unpin_def p1 split: sum.splits option.splits)
  have audit: "audit_grows a a'"
    using assms(1) by (auto simp: start_proxy_def Let_def split: sum.splits option.splits prod.splits)
  show ?thesis
  proof (cases v)
    case (Inl e)
    with pool_pins.start_proxy_failure [OF assms(1) [unfolded Inl]] assms(2) pool audit show ?thesis
      by (auto simp: proxies_ok_def)
  next
    case (Inr rec)
    note st = pool_pins.start_proxy_success [OF assms(1) [unfolded Inr]]
    with assms(4) have "pm_proxies m' = pm_proxies m @ [(px_id rec, rec, length (pm_forwards m))]"
      by (simp add: dict_set_fresh)
    with st assms(2) pool audit show ?thesis by (auto simp: proxies_ok_def)
  qed
qed

lemma proxies_stop:
  assumes "stop_proxy pool_unpin i m a = (m', a', v)" and "proxies_ok m" and "pool_ok (pm_pool m)"
  shows "proxies_ok m' \<and> pool_ok (pm_pool m') \<and> audit_grows a a'"
proof (cases "map_of (pm_proxies m) i")
  case None
  then show ?thesis using assms by (simp add: stop_proxy_def)
next
  case (Some rl)
  obtain rec l where rl: "rl = (rec, l)" by (rule prod.exhaust)
  have m': "m' = m\<lparr>pm_proxies := dict_del i (pm_proxies m), pm_listening := removeAll l (pm_listening m),
      pm_pool := pool_unpin (px_server rec) (pm_pool m)\<rparr>" "audit_grows a a'"
    using assms(1) Some rl by (auto simp: stop_proxy_def)
  have left: "x \<in> f ` snd ` set (dict_del i (pm_proxies m))"
    if x: "x \<in> f ` snd ` set (pm_proxies m)" "x \<noteq> f (rec, l)" for x and f :: "proxy_record \<times> nat \<Rightarrow> 'b"
  proof -
    obtain k v where k: "(k, v) \<in> set (pm_proxies m)" "x = f v" using x(1) by auto
    have "k \<noteq> i"
    proof
      assume "k = i"
      then have "v = rl" using k(1) Some assms(2) by (auto simp: proxies_ok_def dict_ok_def)
      then show False using x(2) k(2) rl by simp
    qed
    then show ?thesis using k by (force simp: dict_del_def)
  qed
  note ok = assms(2) [unfolded proxies_ok_def]
  have "px_server ` fst ` S = (px_server \<circ> fst) ` S" for S :: "(proxy_record \<times> nat) set" by (simp add: image_comp)
  note comp = this
  have pins: "set (pl_pinned (pm_pool m')) = set (pl_pinned (pm_pool m)) - {px_server rec}"
    using m'(1) by (simp add: pool_unpin_def)
  have "set (pl_pinned (pm_pool m')) \<subseteq> px_server ` fst ` snd ` set (dict_del i (pm_proxies m))"
  proof
    fix x
    assume "x \<in> set (pl_pinned (pm_pool m'))"
    then show "x \<in> px_server ` fst ` snd ` set (dict_del i (pm_proxies m))"
      unfolding comp using pins ok unfolding comp by (intro left) auto
  qed
  moreover have "set (pm_listening m') \<subseteq> snd ` snd ` set (dict_del i (pm_proxies m))"
  proof
    fix x
    assume "x \<in> set (pm_listening m')"
    then show "x \<in> snd ` snd ` set (dict_del i (pm_proxies m))" using m'(1) ok by (intro left) auto
  qed
  ultimately show ?thesis using m' ok pool_ok_pins [OF assms(3)] by (simp add: proxies_ok_def pool_unpin_def)
qed

lemma proxies_tool:
  assumes "ssh_proxy (get_connection d penv) pool_pin pool_unpin env action server ptype lp lh rh rp i m a = (m', a', v)"
    and "proxies_ok m" and "pool_ok (pm_pool m)"
    and "map_of (pm_proxies m) (pv_new_id env (length (pm_forwards m))) = None"
  shows "proxies_ok m' \<and> pool_ok (pm_pool m') \<and> audit_grows a a'"
  using assms
  by (auto simp: ssh_proxy_def ssh_proxy_start_def ssh_proxy_stop_def
      split: if_splits option.splits prod.splits sum.splits dest: proxies_start proxies_stop)

lemma proxy_view_put [simp]: "proxy_view (put_proxies cx m a) = m"
  by (simp add: proxy_view_def put_proxies_def)

lemma proxy_keeps:
  assumes "app_ok cx" and "fresh_id env cx"
  shows "app_keeps cx (fst (tool_proxy env x cx))"
proof -
  obtain m a r where t: "ssh_proxy (live_get env (cx_registry cx)) pool_pin pool_unpin (xv_proxy env) (xa_action x)
      (xa_server x) (xa_type x) (xa_local_port x) (xa_local_host x) (xa_remote_host x) (xa_remote_port x)
      (xa_proxy_id x) (proxy_view cx) (cx_audit cx) = (m, a, r)"
    by (rule prod_cases3)
  have "proxies_ok m \<and> pool_ok (pm_pool m) \<and> audit_grows (cx_audit cx) a"
    by (rule proxies_tool [OF t [unfolded live_get_def]])
      (use assms in \<open>simp_all add: app_ok_def proxy_view_def fresh_id_def\<close>)
  then show ?thesis using t assms(1)
    by (simp add: tool_proxy_def app_keeps_def app_ok_def sm_ok_view) (simp add: put_proxies_def)
qed

subsection \<open>Every step keeps it\<close>

lemma handle_keeps:
  assumes "app_ok cx" and "fresh_id env cx"
  shows "app_keeps cx (fst (handle env req cx))"
  using assms
  by (cases req) (simp_all add: exec_keeps process_keeps pty_keeps files_keeps jump_keeps tool_discover_keeps
      known_host_keeps server_keeps scan_keeps proxy_keeps)

lemma step_keeps: "app_step cx cx' \<Longrightarrow> app_ok cx \<Longrightarrow> app_keeps cx cx'"
proof (erule app_stepE)
  fix env req
  assume "app_ok cx" "fresh_id env cx" "cx' = fst (handle env req cx)"
  then show ?thesis using handle_keeps by blast
next
  fix cfg
  assume "app_ok cx" "cx' = on_reload (Inr cfg) cx" "named_dict (ac_servers cfg)"
  then show ?thesis
    using registry_wf_watch [of "cx_registry cx" "Inr cfg"]
    by (simp add: on_reload_def app_keeps_def app_ok_parts)
next
  fix e
  assume "app_ok cx" "cx' = on_reload (Inl e) cx"
  then show ?thesis
    using registry_wf_watch [of "cx_registry cx" "Inl e"]
    by (simp add: on_reload_def app_keeps_def app_ok_parts)
next
  fix c
  assume ok: "app_ok cx" and cx': "cx' = on_pool (\<lambda>p. p\<lparr>pl_live := removeAll c (pl_live p)\<rparr>) cx"
  have "pool_ok ((cx_pool cx)\<lparr>pl_live := removeAll c (pl_live (cx_pool cx))\<rparr>)"
    using pool_step_ok [OF step_dies] ok by (simp add: app_ok_def)
  then show ?thesis using ok cx' by (simp add: on_pool_def app_keeps_def app_ok_parts)
next
  fix name
  assume "app_ok cx" "cx' = on_pool (pool_on_close name) cx"
  then show ?thesis
    using pool_ok_on_close [of "cx_pool cx" name]
    by (simp add: on_pool_def app_keeps_def app_ok_parts) (simp add: pool_on_close_def)
next
  fix sid chunk
  assume "app_ok cx" "cx' = fst (with_sessions (\<lambda>m. (drain_chunk sid chunk m, ())) cx)"
  then show ?thesis
    by (simp add: keeps_sessions ok_drain app_ok_sm live_pool.live_drain live_kept)
next
  fix proc
  assume "app_ok cx" "cx' = fst (with_sessions (\<lambda>m. (m\<lparr>sm_closed := proc # sm_closed m\<rparr>, ())) cx)"
  then show ?thesis
    by (simp add: keeps_sessions ok_closed app_ok_sm live_kept)
qed

lemma steps_keep: "app_step\<^sup>*\<^sup>* cx cx' \<Longrightarrow> app_ok cx \<Longrightarrow> app_keeps cx cx'"
proof (induction rule: rtranclp_induct)
  case base
  then show ?case by simp
next
  case (step y z)
  then have "app_keeps cx y" "app_keeps y z" using step_keeps by (auto simp: app_keeps_def)
  then show ?case by (auto simp: app_keeps_def intro: audit_grows_trans)
qed

lemma app_ok_start:
  assumes "build_app path fs loaded codec sf audit kh files = Inr cx"
    and "\<And>cfg. loaded = Inr cfg \<Longrightarrow> named_dict (ac_servers cfg)" and "records_ok (wd_state (cx_world cx))"
  shows "app_ok cx"
proof -
  have "pool_ok (ConnectionPool kh)" by (simp add: pool_ok_def ConnectionPool_def slot_def)
  then show ?thesis using assms
    by (auto simp: build_app_def app_ok_parts Registry_init_def registry_wf_def SessionManager_def ProxyManager_def
        ConnectionPool_def tables_ok_def same_keys_def Let_def split: sum.splits prod.splits)
qed

subsection \<open>Properties\<close>


lemma lifespan_pool: "cx_pool (lifespan_end cx) = pool_close_all (pm_pool (close_proxies pool_unpin (proxy_view cx)))"
  by (simp add: lifespan_end_def pool_shut_def put_proxies_def)

lemma fold_unpin_slots:
  "slot (pm_pool (fold (\<lambda>(i, rec, l) m. m\<lparr>pm_listening := removeAll l (pm_listening m),
      pm_pool := pool_unpin (px_server rec) (pm_pool m)\<rparr>) ps m)) = slot (pm_pool m)"
  by (induction ps arbitrary: m) (auto simp: pool_unpin_def)

lemma close_proxies_slots: "slot (pm_pool (close_proxies pool_unpin m)) = slot (pm_pool m)"
  by (simp add: close_proxies_def fold_unpin_slots)

lemma fold_unpin_ok:
  "pool_ok (pm_pool m) \<Longrightarrow> pool_ok (pm_pool (fold (\<lambda>(i, rec, l) m. m\<lparr>pm_listening := removeAll l (pm_listening m),
      pm_pool := pool_unpin (px_server rec) (pm_pool m)\<rparr>) ps m))"
  by (induction ps arbitrary: m) (auto simp: pool_unpin_def pool_ok_pins)

text \<open>C3: When the lifespan of the server ends after any run, nothing is left open: there are no proxies, no
  listeners and no pins, every slot of the pool is back to disconnected without a connection, and the
  audit log is closed with all its lines.\<close>

theorem lifespan_end_releases:
  assumes "build_app path fs loaded codec sf audit kh files = Inr start"
    and "\<And>cfg. loaded = Inr cfg \<Longrightarrow> named_dict (ac_servers cfg)" and "records_ok (wd_state (cx_world start))"
    and "app_step\<^sup>*\<^sup>* start cx"
  shows "pm_proxies (cx_proxies (lifespan_end cx)) = [] \<and> pm_listening (cx_proxies (lifespan_end cx)) = []
    \<and> pl_pinned (cx_pool (lifespan_end cx)) = []
    \<and> slot (cx_pool (lifespan_end cx)) n = map_option (\<lambda>_. ConnectionEntry) (slot (cx_pool cx) n)
    \<and> al_handle (cx_audit (lifespan_end cx)) \<noteq> AH_open
    \<and> al_lines (cx_audit (lifespan_end cx)) = al_lines (cx_audit cx)"
proof -
  have ok: "app_ok cx"
    using steps_keep [OF assms(4) app_ok_start [OF assms(1-3)]] by (simp add: app_keeps_def)
  let ?m = "close_proxies pool_unpin (proxy_view cx)"
  have spec: "pm_proxies ?m = []" "set (pm_listening ?m) = {}" "set (pl_pinned (pm_pool ?m)) = {}"
    using pool_pins.close_proxies_spec [of "proxy_view cx"] ok by (auto simp: app_ok_def proxies_ok_def)
  have "pool_ok (pm_pool (proxy_view cx))" using ok by (simp add: app_ok_def proxy_view_def)
  then have "pool_ok (pm_pool ?m)" by (simp add: close_proxies_def fold_unpin_ok)
  note shut = close_all_slots [OF this, of n]
  have "slot (pm_pool ?m) n = slot (cx_pool cx) n" by (simp add: close_proxies_slots proxy_view_def)
  moreover have "pl_pinned (pool_close_all (pm_pool ?m)) = pl_pinned (pm_pool ?m)"
    using fold_pool_close_spec [of "map fst (pl_entries (pm_pool ?m))" "pm_pool ?m"]
    by (simp add: pool_close_all_def)
  ultimately show ?thesis using spec shut
    by (simp add: lifespan_pool) (simp add: lifespan_end_def pool_shut_def put_proxies_def audit_close_def)
qed


text \<open>What a caller can see of a context.\<close>

definition same_app :: "'h app_context \<Rightarrow> 'h app_context \<Rightarrow> bool" where
  "same_app cx cx' \<longleftrightarrow> cx_world cx' = cx_world cx \<and> session_view cx' = session_view cx
     \<and> proxy_view cx' = proxy_view cx \<and> cx_runs cx' = cx_runs cx \<and> cx_files cx' = cx_files cx"

lemma same_app_refl [simp]: "same_app cx cx"
  by (simp add: same_app_def)

lemma same_app_proxies [simp]: "same_app cx (put_proxies cx (proxy_view cx) (cx_audit cx))"
  by (simp add: same_app_def put_proxies_def proxy_view_def session_view_def)

text \<open>The actions of the tools that have some.\<close>

fun request_action :: "request \<Rightarrow> (string \<times> string list) option" where
  "request_action (Call_process x) = Some (pa_action x, [''start'', ''read'', ''write'', ''kill'', ''list'', ''check''])"
| "request_action (Call_pty x) = Some (ya_action x, [''start'', ''read'', ''write'', ''resize'', ''close'', ''attach''])"
| "request_action (Call_files x) = Some (ga_action x, [''get'', ''put'', ''transfer'', ''sync''])"
| "request_action (Call_jump x) = Some (ja_action x, [''setup'', ''teardown''])"
| "request_action (Call_discover x) = Some (va_action x, [''start'', ''teardown''])"
| "request_action (Call_known_host action name) = Some (action, [''add'', ''show''])"
| "request_action (Call_server x) = Some (wa_action x, [''list'', ''register'', ''deregister''])"
| "request_action (Call_proxy x) = Some (xa_action x, [''start'', ''stop'', ''list''])"
| "request_action _ = None"

text \<open>C40: A call with an action its tool does not have changes nothing and replies \<open>invalid_action\<close> with it,
  for each of the eight tools with actions.\<close>

theorem unknown_action_harmless:
  assumes "request_action req = Some (action, known)" and "action \<notin> set known"
  shows "same_app cx (fst (handle env req cx))
    \<and> snd (handle env req cx) = Inr (Reply (err_reply ''invalid_action'' [(''action'', JStr action)]))"
  using assms
  by (cases req)
    (auto simp: tool_process_def tool_pty_def tool_files_def tool_jump_def tool_discover_def
      tool_known_host_def tool_server_def tool_proxy_def ssh_proxy_def invalid_action_def Let_def)

text \<open>What a client of the registry keeps, every call of the server keeps.\<close>

context registry_client
begin

lemma kept_jump:
  assumes "P (wd_registry w)"
  shows "P (wd_registry (fst (setup_jump env sv name chain persist note target max_age force w)))"
proof -
  have topology: "P (wd_registry w')" if "auto_topology env sv max_age force v = (w', r)" "P (wd_registry v)" for v w' r
    using that by (auto simp: auto_topology_def Let_def split: if_splits prod.splits sum.splits option.splits)
  have build: "P (wd_registry (fst (auto_build env name t persist note topology v)))" if "P (wd_registry v)" for t topology v
  proof (cases "the (find_path topology t)")
    case None
    then show ?thesis using that by (simp add: auto_build_def)
  next
    case (Some path)
    obtain r a u where b: "build_chain (tv_fate env) name (chain_of_path path) persist note (wd_registry v) (wd_audit v) = (r, a, u)"
      by (rule prod_cases3)
    then have r: "P r" using kept_build_chain that by blast
    obtain r2 a2 rep where t: "teardown_jump (tv_fate env) name r a = (r2, a2, rep)" by (rule prod_cases3)
    then have "P r2" using kept_teardown_jump r by blast
    then show ?thesis using b t r Some by (auto simp: auto_build_def Let_def split: sum.split prod.split)
  qed
  show ?thesis using assms
    by (auto simp: setup_jump_def setup_jump_auto_def Let_def split: option.split list.split prod.split sum.split
        intro: build topology dest: kept_build_chain)
qed

lemma kept_handle:
  assumes "P (cx_registry cx)"
  shows "P (cx_registry (fst (handle env req cx)))"
proof -
  let ?fate = "tv_fate (xv_tools env)" and ?r = "cx_registry cx" and ?a = "cx_audit cx"
  have scan: "wd_registry (fst (ssh_scan_topology tv scan incl excl w)) = wd_registry w" for tv scan incl excl w
    by (auto simp: ssh_scan_topology_def Let_def split: sum.split prod.split)
  note views = with_sessions_def put_sessions_def put_exec_def with_files_def put_files_def put_proxies_def put_registry_def
  show ?thesis
  proof (cases req)
    case (Call_jump x)
    obtain r a rep where "teardown_jump ?fate (ja_name x) ?r ?a = (r, a, rep)" by (rule prod_cases3)
    then show ?thesis using assms kept_teardown_jump [of ?fate "ja_name x" ?r ?a r a rep]
      by (simp add: Call_jump tool_jump_def views Let_def case_prod_unfold kept_jump)
  next
    case (Call_discover x)
    obtain r p a res where d: "discover (xv_disc env) (live_get env ?r) (pe_expanduser (tv_pool (xv_tools env)))
        (xv_read_key env) (xv_disc_session env) (va_args x) ?r (cx_pool cx) ?a = (r, p, a, res)"
      by (rule prod_cases4)
    obtain r1 a1 rep where t: "teardown_discovery ?fate (or_empty (va_session x)) ?r ?a = (r1, a1, rep)" by (rule prod_cases3)
    show ?thesis using assms d t kept_discover [OF d assms] kept_teardown_discovery [OF t assms]
      by (simp add: Call_discover tool_discover_def views Let_def)
  next
    case (Call_server x)
    obtain r a rep where g: "ssh_register_server ?fate (register_args_of x) ?r ?a = (r, a, rep)" by (rule prod_cases3)
    obtain r1 a1 rep1 where d: "ssh_deregister_server ?fate (live_status env cx) (or_empty (wa_name x)) ?r ?a = (r1, a1, rep1)"
      by (rule prod_cases3)
    show ?thesis using assms g d kept_register [OF g assms] kept_deregister [OF d assms]
      by (simp add: Call_server tool_server_def views Let_def)
  qed (use assms in \<open>simp_all add: tool_exec_def tool_process_def tool_pty_def tool_files_def tool_known_host_def
      tool_scan_topology_def tool_proxy_def views scan Let_def case_prod_unfold\<close>)
qed

end

text \<open>C2: Whatever sequence of tool calls a client makes, with whatever fates of the writes in each of them: the
  configuration file is always the text of the configuration in memory, entries stay filed under their
  own names and no name is both file-backed and ephemeral.\<close>

theorem calls_keep_registry_in_sync:
  assumes "registry_in_sync (cx_registry cx)" and "\<not> suffix ''.tmp'' (rg_path (cx_registry cx))"
  shows "registry_in_sync (cx_registry (fold (\<lambda>(env, req) cx. fst (handle env req cx)) calls cx))"
proof -
  have "synced (cx_registry (fold (\<lambda>(env, req) cx. fst (handle env req cx)) calls cx))"
    if "synced (cx_registry cx)" for cx :: "'a app_context"
    using that by (induction calls arbitrary: cx) (auto intro: sync_client.kept_handle)
  then show ?thesis using assms by (simp add: synced_def)
qed

subsection \<open>An example server\<close>

text \<open>Two registered servers, no state file; then a SOCKS proxy is started through the second.\<close>

definition example_server_env :: "flat_world server_env" where
  "example_server_env =
     \<lparr>xv_tools = example_tool_env example_env, xv_scan = Topology.example_scan, xv_scan_error = None,
      xv_session = \<lparr>se_get = \<lambda>s p. (p, Inl SshConnectionError), se_run = \<lambda>n c cmd. Inr ([], 0), se_spawn = \<lambda>n c cmd. None,
        se_uuid = \<lambda>n. ''id'' @ show_nat n, se_now = 7, se_settings = GlobalSettings, se_servers = [], se_registry = None,
        se_writes = \<lambda>n. True, se_codec = tv_codec (example_tool_env example_env), se_decode = map (\<lambda>b. char_of (unat b))\<rparr>,
      xv_exec_run = \<lambda>n c cmd. Inr ([], [], Some 0), xv_proxy = example_proxy_env, xv_files = flat_env,
      xv_disc = example_disc_env, xv_disc_session = ''s1'', xv_read_key = \<lambda>p. None, xv_host_key = \<lambda>c. None,
      xv_match = \<lambda>t h a p. Inr ([], []), xv_isoformat = show_int\<rparr>"

definition example_build :: "flat_world app_context result" where
  "example_build = build_app ''/c/servers.toml'' (rg_fs synced_registry) (Inr example_config)
     (tv_codec (example_tool_env example_env)) SF_missing (AuditLog_init False True []) None []"

definition example_app :: "flat_world app_context" where
  "example_app = projr example_build"

definition socks_call :: request where
  "socks_call = Call_proxy \<lparr>xa_action = ''start'', xa_server = Some ''b'', xa_type = Some ''socks5'', xa_local_port = Some 1080,
     xa_local_host = ''127.0.0.1'', xa_remote_host = None, xa_remote_port = None, xa_proxy_id = None\<rparr>"

definition example_run :: "flat_world app_context" where
  "example_run = fst (handle example_server_env socks_call example_app)"

lemma example_app_ok:
  "example_build = Inr example_app" "\<And>cfg. Inr example_config = Inr cfg \<Longrightarrow> named_dict (ac_servers cfg)"
  "records_ok (wd_state (cx_world example_app))" "fresh_id example_server_env example_app"
proof -
  show b: "example_build = Inr example_app"
    by (simp add: example_app_def example_build_def build_app_def Registry_init_def state_load_def StateStore_def Let_def)
  show "named_dict (ac_servers cfg)" if "Inr example_config = Inr cfg" for cfg
    using that by (auto simp: example_config_def named_dict_def dict_ok_def)
  show "records_ok (wd_state (cx_world example_app))" "fresh_id example_server_env example_app"
    by (simp_all add: example_app_def example_build_def build_app_def Registry_init_def state_load_def StateStore_def
        ss_empty_def records_ok_def processes_keyed_def sessions_keyed_def list_processes_def dict_values_def
        fresh_id_def ProxyManager_def Let_def)
qed

lemma example_run_steps: "app_step\<^sup>*\<^sup>* example_app example_run"
  unfolding example_run_def by (rule r_into_rtranclp) (rule step_call [OF example_app_ok(4)])

lemma example_run_proxy:
  "''b'' \<in> set (pl_pinned (cx_pool example_run))" "holds_open (cx_pool example_run) ''b'' 0"
  "length (pm_proxies (cx_proxies example_run)) = 1" "length (al_lines (cx_audit example_run)) = 1"
  by code_simp+

lemmas example_reached = example_app_ok(1) [unfolded example_build_def] example_app_ok(2,3) example_run_steps


lemma lifespan_end_releases_witness:
  "pl_pinned (cx_pool (lifespan_end example_run)) = [] \<and> pm_proxies (cx_proxies example_run) \<noteq> []
    \<and> pm_proxies (cx_proxies (lifespan_end example_run)) = []"
  using lifespan_end_releases [OF example_reached] example_run_proxy(3) by auto


lemma unknown_action_harmless_witness:
  "snd (handle example_server_env (Call_known_host ''forget'' ''a'') example_app)
    = Inr (Reply (err_reply ''invalid_action'' [(''action'', JStr ''forget'')]))"
  using unknown_action_harmless [of "Call_known_host ''forget'' ''a''" "''forget''" "[''add'', ''show'']" example_app example_server_env] by simp

lemma calls_keep_registry_in_sync_witness:
  "registry_in_sync (cx_registry (fold (\<lambda>(env, req) cx. fst (handle env req cx))
     [(example_server_env, socks_call), (example_server_env, Call_known_host ''add'' ''a'')]
     (example_app\<lparr>cx_world := (cx_world example_app)\<lparr>wd_registry := synced_registry\<rparr>\<rparr>)))"
  by (rule calls_keep_registry_in_sync) (simp_all add: synced_registry_ok)

end
