(* ===== verification/Harvest.thy ===== *)
theory Harvest
  imports Discovery_Runs Topology
begin

section \<open>What the scan does on a remote host (\<open>discovery.py\<close>)\<close>

text \<open>
  The commands a scan runs over a connection, the harvest of private keys and the dial of a candidate.
  \<open>remote_env\<close> gives the answers the engine of \<open>Discovery\<close> works with from these. What stays a parameter is
  asyncssh and the hosts, the record \<open>remote_world\<close>: how a dial ends, what a command prints and in which
  pieces, and what \<open>import_private_key\<close> makes of a text. \<open>None\<close> as the answer of a dial or a command is a
  timeout, an asyncssh or an OS error, the exceptions every caller here catches.
\<close>

subsection \<open>Private keys\<close>

text \<open>The outcomes of \<open>asyncssh.import_private_key\<close>: a key, or one of the exceptions \<open>KeyImportError\<close> with its
  message, \<open>KeyEncryptionError\<close>, and any other \<open>asyncssh.Error\<close> or \<open>ValueError\<close>.\<close>

datatype key_import = KI_key string | KI_import_error string | KI_encryption_error | KI_other_error

definition is_encrypted_key :: "(string \<Rightarrow> key_import) \<Rightarrow> string \<Rightarrow> bool" where
  "is_encrypted_key import_key data =
     (case import_key data of
        KI_key k \<Rightarrow> False
      | KI_import_error msg \<Rightarrow> contains ''passphrase'' (lower msg)
      | KI_encryption_error \<Rightarrow> True
      | KI_other_error \<Rightarrow> False)"

record candidate_kwargs =
  cc_port :: int
  cc_username :: string
  cc_client_keys :: "string list"
  cc_known_hosts :: "string option"
  cc_agent_path :: "string option"
  cc_tunnel :: "nat option"

record remote_world =
  rw_dial :: "nat \<Rightarrow> string \<Rightarrow> candidate_kwargs \<Rightarrow> nat option"
  rw_host_key :: "nat \<Rightarrow> string option"
  rw_run :: "nat \<Rightarrow> string \<Rightarrow> string list option"
  rw_peername :: "nat \<Rightarrow> string"
  rw_username :: "nat \<Rightarrow> string option"
  rw_getuser :: "string option"
  rw_import :: "string \<Rightarrow> key_import"

text \<open>\<open>asyncio.wait_for(_run_capped(conn, cmd), timeout)\<close>.\<close>

definition remote_output :: "remote_world \<Rightarrow> nat \<Rightarrow> string \<Rightarrow> string option" where
  "remote_output w conn cmd = map_option (run_capped 0) (rw_run w conn cmd)"

definition REMOTE_KEY_GLOB :: string where
  "REMOTE_KEY_GLOB = ''~/.ssh/id_*''"

abbreviation quote :: string where
  "quote \<equiv> [CHR 0x22]"

definition key_list_cmd :: string where
  "key_list_cmd =
     ''for f in '' @ REMOTE_KEY_GLOB @ ''; do '' @ ''case '' @ quote @ ''$f'' @ quote @ '' in *.pub) ;; *) [ -f ''
       @ quote @ ''$f'' @ quote @ '' ] && echo '' @ quote @ ''$f'' @ quote @ '' ;; esac; done''"

definition key_cat_cmd :: "string \<Rightarrow> string" where
  "key_cat_cmd path = ''cat '' @ quote @ path @ quote @ '' 2>/dev/null''"

definition key_paths :: "string \<Rightarrow> string list" where
  "key_paths listing =
     map strip (filter (\<lambda>p. startswith (strip p) ''/'' \<or> startswith (strip p) ''~'' \<or> contains ''id_'' p)
       (splitlines listing))"

text \<open>One turn of the loop over the paths.\<close>

definition harvest_key ::
    "remote_world \<Rightarrow> nat \<Rightarrow> string \<Rightarrow> string list \<times> skipped_key list \<Rightarrow> string list \<times> skipped_key list" where
  "harvest_key w conn path acc =
     (case acc of (usable, skipped) \<Rightarrow>
       (case remote_output w conn (key_cat_cmd path) of
          None \<Rightarrow> acc
        | Some raw \<Rightarrow>
            if strip raw = [] then acc
            else if is_encrypted_key (rw_import w) raw then
              (usable, skipped @ [\<lparr>sk_host = rw_peername w conn, sk_path = path, sk_reason = ''encrypted''\<rparr>])
            else
              (case rw_import w raw of
                 KI_key key \<Rightarrow> (usable @ [key], skipped)
               | _ \<Rightarrow> acc)))"

definition harvest_remote_keys :: "remote_world \<Rightarrow> nat \<Rightarrow> string list \<times> skipped_key list" where
  "harvest_remote_keys w conn =
     (case remote_output w conn key_list_cmd of
        None \<Rightarrow> ([], [])
      | Some listing \<Rightarrow> fold (harvest_key w conn) (key_paths listing) ([], []))"

subsection \<open>The dial of a candidate\<close>

text \<open>Every candidate is dialled with \<open>known_hosts=None\<close>: any host key is taken.\<close>

definition connect_candidate ::
    "(string \<Rightarrow> candidate_kwargs \<Rightarrow> nat option) \<Rightarrow> string \<Rightarrow> int \<Rightarrow> string list \<Rightarrow> string \<Rightarrow> nat option \<Rightarrow> nat option" where
  "connect_candidate dial addr port keys username tunnel =
     (if keys = [] then None
      else dial addr
        \<lparr>cc_port = port, cc_username = username, cc_client_keys = keys, cc_known_hosts = None,
         cc_agent_path = None, cc_tunnel = tunnel\<rparr>)"

definition username_for :: "remote_world \<Rightarrow> nat option \<Rightarrow> string" where
  "username_for w conn =
     (case conn of
        None \<Rightarrow> (case rw_getuser w of Some user \<Rightarrow> user | None \<Rightarrow> ''root'')
      | Some c \<Rightarrow>
          (case rw_username w c of
             Some info \<Rightarrow> if info = [] then ''root'' else info
           | None \<Rightarrow> ''root''))"

subsection \<open>The commands of the scan\<close>

definition BREADCRUMB_CMDS :: "(string \<times> string) list" where
  "BREADCRUMB_CMDS =
     [(''known_hosts'', ''cat ~/.ssh/known_hosts 2>/dev/null''),
      (''ssh_config'', ''cat ~/.ssh/config 2>/dev/null''),
      (''etc_hosts'', ''cat /etc/hosts 2>/dev/null''),
      (''ip_neigh'', ''ip neigh 2>/dev/null || arp -an 2>/dev/null''),
      (''sessions'', ''last -i 2>/dev/null | head -n 200; w -h 2>/dev/null''),
      (''history'', ''cat ~/.bash_history ~/.zsh_history 2>/dev/null'')]"

definition HARVEST_LINUX_CMD :: string where
  "HARVEST_LINUX_CMD = ''ip -o -4 addr''"

definition HARVEST_WINDOWS_CMD :: string where
  "HARVEST_WINDOWS_CMD =
     ''powershell -NoProfile -Command '' @ quote @ ''Get-NetIPAddress -AddressFamily IPv4 | ''
       @ ''ForEach-Object { $_.InterfaceAlias + '' @ [CHR 0x27] @ '' '' @ [CHR 0x27] @ '' + $_.IPAddress }'' @ quote"

text \<open>A caught failure as the error the engine and \<open>harvest_addresses\<close> are given for it.\<close>

definition caught :: "'a option \<Rightarrow> 'a result" where
  "caught x = (case x of None \<Rightarrow> Inl PyTimeoutError | Some v \<Rightarrow> Inr v)"

definition crumb_output :: "remote_world \<Rightarrow> nat \<Rightarrow> string \<Rightarrow> string result" where
  "crumb_output w conn source =
     caught (case map_of BREADCRUMB_CMDS source of None \<Rightarrow> None | Some cmd \<Rightarrow> remote_output w conn cmd)"

definition remote_env :: "remote_world \<Rightarrow> int \<Rightarrow> disc_env \<Rightarrow> disc_env" where
  "remote_env w port base = base
     \<lparr>dv_connect := \<lambda>n tunnel addr user keys.
        map_option (\<lambda>conn. (conn, rw_host_key w conn)) (connect_candidate (rw_dial w n) addr port keys user tunnel),
      dv_username := username_for w,
      dv_keys := harvest_remote_keys w,
      dv_addrs := \<lambda>conn. harvest_addresses (caught (rw_run w conn HARVEST_LINUX_CMD)) (caught (rw_run w conn HARVEST_WINDOWS_CMD)),
      dv_crumb := crumb_output w,
      dv_sweep := \<lambda>conn cmd. caught (remote_output w conn cmd)\<rparr>"

subsection \<open>What a harvest gives\<close>

text \<open>A key comes from a text on the host that is not passphrase-protected, a skipped path from one that is.\<close>

definition open_key :: "remote_world \<Rightarrow> nat \<Rightarrow> string \<Rightarrow> bool" where
  "open_key w conn key \<longleftrightarrow>
     (\<exists>path text. remote_output w conn (key_cat_cmd path) = Some text \<and> rw_import w text = KI_key key
        \<and> \<not> is_encrypted_key (rw_import w) text)"

definition locked_key :: "remote_world \<Rightarrow> nat \<Rightarrow> skipped_key \<Rightarrow> bool" where
  "locked_key w conn k \<longleftrightarrow> sk_host k = rw_peername w conn \<and> sk_reason k = ''encrypted''
     \<and> (\<exists>text. remote_output w conn (key_cat_cmd (sk_path k)) = Some text \<and> is_encrypted_key (rw_import w) text
        \<and> (\<forall>key. rw_import w text \<noteq> KI_key key))"

lemma is_encrypted_key_imports [simp]: "import_key data = KI_key key \<Longrightarrow> \<not> is_encrypted_key import_key data"
  by (simp add: is_encrypted_key_def)

lemma harvest_key_sound:
  assumes "harvest_key w conn path acc = (usable, skipped)"
    and "\<forall>key \<in> set (fst acc). open_key w conn key" and "\<forall>k \<in> set (snd acc). locked_key w conn k"
  shows "(\<forall>key \<in> set usable. open_key w conn key) \<and> (\<forall>k \<in> set skipped. locked_key w conn k)"
proof (cases "remote_output w conn (key_cat_cmd path)")
  case None
  then show ?thesis using assms by (cases acc) (auto simp: harvest_key_def)
next
  case (Some raw)
  obtain us ks where acc: "acc = (us, ks)" by (rule prod.exhaust)
  let ?k = "\<lparr>sk_host = rw_peername w conn, sk_path = path, sk_reason = ''encrypted''\<rparr>"
  have "is_encrypted_key (rw_import w) raw \<Longrightarrow> locked_key w conn ?k" using Some by (auto simp: locked_key_def)
  moreover have "rw_import w raw = KI_key key \<Longrightarrow> open_key w conn key" for key
    unfolding open_key_def using Some is_encrypted_key_imports by blast
  ultimately show ?thesis using assms Some acc
    by (auto simp: harvest_key_def split: if_splits key_import.splits)
qed

lemma harvest_keys_sound:
  assumes "harvest_remote_keys w conn = (usable, skipped)"
  shows "(\<forall>key \<in> set usable. open_key w conn key) \<and> (\<forall>k \<in> set skipped. locked_key w conn k)"
proof -
  have "fold (harvest_key w conn) paths acc = (usable, skipped) \<Longrightarrow> \<forall>key \<in> set (fst acc). open_key w conn key \<Longrightarrow>
      \<forall>k \<in> set (snd acc). locked_key w conn k \<Longrightarrow> ?thesis" for paths acc
  proof (induction paths arbitrary: acc)
    case (Cons path paths)
    obtain us ks where "harvest_key w conn path acc = (us, ks)" by (rule prod.exhaust)
    with harvest_key_sound [OF this] Cons show ?case by simp
  qed simp
  then show ?thesis using assms by (auto simp: harvest_remote_keys_def split: option.splits)
qed

text \<open>And nothing is missed: the key in every file that was listed and could be read is used or reported.\<close>

lemma harvest_key_mono:
  "set (fst acc) \<subseteq> set (fst (harvest_key w conn path acc)) \<and> set (snd acc) \<subseteq> set (snd (harvest_key w conn path acc))"
  by (auto simp: harvest_key_def split: prod.split option.split key_import.split)

lemma harvest_fold_mono:
  "set (fst acc) \<subseteq> set (fst (fold (harvest_key w conn) paths acc))
     \<and> set (snd acc) \<subseteq> set (snd (fold (harvest_key w conn) paths acc))"
proof (induction paths arbitrary: acc)
  case (Cons path paths)
  then show ?case using harvest_key_mono [of acc w conn path] by fastforce
qed simp

lemma harvest_keys_complete:
  assumes "remote_output w conn key_list_cmd = Some listing" and "path \<in> set (key_paths listing)"
    and "remote_output w conn (key_cat_cmd path) = Some text" and "strip text \<noteq> []"
  shows "rw_import w text = KI_key key \<Longrightarrow> key \<in> set (fst (harvest_remote_keys w conn))"
    and "is_encrypted_key (rw_import w) text \<Longrightarrow> path \<in> sk_path ` set (snd (harvest_remote_keys w conn))"
proof -
  obtain ps qs where p: "key_paths listing = ps @ path # qs" using assms(2) split_list by fast
  let ?acc = "fold (harvest_key w conn) ps ([], [])"
  have h: "harvest_remote_keys w conn = fold (harvest_key w conn) qs (harvest_key w conn path ?acc)"
    using assms(1) p by (simp add: harvest_remote_keys_def)
  note mono = harvest_fold_mono [of "harvest_key w conn path ?acc" w conn qs, folded h]
  have "key \<in> set (fst (harvest_key w conn path ?acc))" if "rw_import w text = KI_key key"
    using that assms(3,4) is_encrypted_key_imports [of "rw_import w" "text" key, OF that] by (simp add: harvest_key_def split: prod.split)
  then show "rw_import w text = KI_key key \<Longrightarrow> key \<in> set (fst (harvest_remote_keys w conn))" using mono by blast
  have "path \<in> sk_path ` set (snd (harvest_key w conn path ?acc))" if "is_encrypted_key (rw_import w) text"
    using that assms(3,4) by (simp add: harvest_key_def split: prod.split)
  then show "is_encrypted_key (rw_import w) text \<Longrightarrow> path \<in> sk_path ` set (snd (harvest_remote_keys w conn))"
    using mono by blast
qed

subsection \<open>Which keys a scan uses\<close>

text \<open>The keys the scan may offer: those it was given and, in harvest-keys mode, open ones it has read.\<close>

definition allowed_key :: "remote_world \<Rightarrow> bool \<Rightarrow> string list \<Rightarrow> string \<Rightarrow> bool" where
  "allowed_key w harvest keys key \<longleftrightarrow> key \<in> set keys \<or> harvest \<and> (\<exists>conn. open_key w conn key)"

definition offered_keys :: "disc_state \<Rightarrow> string list" where
  "offered_keys s = concat (map (\<lambda>(tunnel, addr, user, ks). ks) (ds_dials s))"

definition keys_allowed :: "remote_world \<Rightarrow> bool \<Rightarrow> string list \<Rightarrow> disc_state \<Rightarrow> bool" where
  "keys_allowed w harvest keys s \<longleftrightarrow> (\<forall>key \<in> set (ds_key_space s). allowed_key w harvest keys key)
     \<and> (\<forall>key \<in> set (offered_keys s). allowed_key w harvest keys key)
     \<and> (\<forall>k \<in> set (ds_skipped s). harvest \<and> (\<exists>conn. locked_key w conn k))"

lemma keys_allowed_upd [simp]:
  "keys_allowed w h keys (s\<lparr>ds_truncated := t\<rparr>) = keys_allowed w h keys s"
  "keys_allowed w h keys (s\<lparr>ds_clock := n\<rparr>) = keys_allowed w h keys s"
  "keys_allowed w h keys (s\<lparr>ds_stats := st\<rparr>) = keys_allowed w h keys s"
  "keys_allowed w h keys (s\<lparr>ds_audit := au\<rparr>) = keys_allowed w h keys s"
  "keys_allowed w h keys (s\<lparr>ds_registry := r\<rparr>) = keys_allowed w h keys s"
  "keys_allowed w h keys (s\<lparr>ds_registered := rs\<rparr>) = keys_allowed w h keys s"
  "keys_allowed w h keys (s\<lparr>ds_discovered := hs\<rparr>) = keys_allowed w h keys s"
  "keys_allowed w h keys (s\<lparr>ds_graph := g\<rparr>) = keys_allowed w h keys s"
  "keys_allowed w h keys (s\<lparr>ds_open_conns := cs\<rparr>) = keys_allowed w h keys s"
  "keys_allowed w h keys (s\<lparr>ds_closed := cs\<rparr>) = keys_allowed w h keys s"
  "keys_allowed w h keys (s\<lparr>ds_visited_ips := vs\<rparr>) = keys_allowed w h keys s"
  "keys_allowed w h keys (s\<lparr>ds_visited_fps := fs\<rparr>) = keys_allowed w h keys s"
  by (simp_all add: keys_allowed_def offered_keys_def)

lemma keys_allowed_begin:
  "begin_probe env cfg via a s = (s', r) \<Longrightarrow> keys_allowed w h keys s \<Longrightarrow> keys_allowed w h keys s'"
  by (auto simp: begin_probe_def look_at_clock_def Let_def keys_allowed_def offered_keys_def split: if_splits)

lemma keys_allowed_finish:
  "finish_probe env cfg via a ans s = (s', item) \<Longrightarrow> keys_allowed w h keys s \<Longrightarrow> keys_allowed w h keys s'"
  by (auto simp: finish_probe_def accept_host_def disc_register_def add_host_def disc_log_def close_conn_def Let_def
      split: option.splits prod.splits if_splits sum.splits)

lemma keys_allowed_step:
  "keys_allowed w h keys (fst sb) \<Longrightarrow> keys_allowed w h keys (fst (probe_step env cfg via mv sb))"
  by (auto simp: probe_step_def dest: keys_allowed_begin keys_allowed_finish
      split: prod.splits probe_move.splits option.splits)

lemma keys_allowed_harvest:
  assumes "keys_allowed w (dc_harvest_keys cfg) keys s"
  shows "keys_allowed w (dc_harvest_keys cfg) keys (maybe_harvest_keys (remote_env w port base) cfg item s)"
proof (cases "dc_harvest_keys cfg \<and> fi_conn item \<noteq> None")
  case True
  then obtain conn where c: "dc_harvest_keys cfg" "fi_conn item = Some conn" by blast
  obtain usable skipped where k: "harvest_remote_keys w conn = (usable, skipped)" by (rule prod.exhaust)
  from harvest_keys_sound [OF k] show ?thesis using assms c k
    by (auto simp: maybe_harvest_keys_def remote_env_def disc_log_def Let_def keys_allowed_def allowed_key_def offered_keys_def)
next
  case False
  then show ?thesis using assms by (auto simp: maybe_harvest_keys_def split: option.split bool.split)
qed

lemma disc_run_keys:
  "keys_allowed w (dc_harvest_keys cfg) keys
     (disc_run (remote_env w port base) cfg seeds (DiscoveryEngine reg a keys))"
proof -
  let ?K = "keys_allowed w (dc_harvest_keys cfg) keys" and ?env = "remote_env w port base"
  have expand: "?K s'" if e: "expand ?env cfg via cands s = (s', items)" and s: "?K s" for via cands s s' items
    by (rule expand_keeps [OF e, of "\<lambda>sb. ?K (fst sb)"]) (use s keys_allowed_step in simp_all)
  obtain f where "?K (disc_loop ?env cfg seeds (DiscoveryEngine reg a keys))"
  proof (rule disc_loop_keeps [of "\<lambda>_. ?K"])
    show "?K (DiscoveryEngine reg a keys)" by (simp add: keys_allowed_def offered_keys_def DiscoveryEngine_def allowed_key_def)
  next
    fix item rest s s' items
    assume "?K s" and "explore ?env cfg item (s\<lparr>ds_clock := Suc (ds_clock s)\<rparr>) = (s', items)"
    then show "?K s'" by (auto simp: explore_def keys_allowed_harvest split: if_splits dest!: expand)
  qed simp_all
  then show ?thesis by (simp add: disc_run_def Let_def)
qed

text \<open>C33: A scan offers a host no key but those the caller gave and, in harvest-keys mode only, keys it
  imported from a file of a remote host that is not passphrase-protected, whatever the hosts answer and
  however the tasks interleave. Every key reported as skipped was read from a file that is protected.\<close>

theorem harvest_spares_locked_keys:
  assumes "s = disc_run (remote_env w port base) cfg seeds (DiscoveryEngine reg a keys)"
  shows "(\<forall>key \<in> set (offered_keys s). key \<in> set keys \<or> dc_harvest_keys cfg
      \<and> (\<exists>conn path text. remote_output w conn (key_cat_cmd path) = Some text \<and> rw_import w text = KI_key key
          \<and> \<not> is_encrypted_key (rw_import w) text))
    \<and> (\<forall>k \<in> set (ds_skipped s). dc_harvest_keys cfg
      \<and> (\<exists>conn text. remote_output w conn (key_cat_cmd (sk_path k)) = Some text
          \<and> is_encrypted_key (rw_import w) text \<and> (\<forall>key. rw_import w text \<noteq> KI_key key)))"
  using disc_run_keys [of w cfg keys port base seeds reg a] unfolding assms [symmetric]
  by (fastforce simp: keys_allowed_def allowed_key_def open_key_def locked_key_def)

text \<open>A seed with an open and a protected key; the caller names one more host and gives no key.\<close>

definition example_files :: "nat \<Rightarrow> string \<Rightarrow> string option" where
  "example_files conn cmd =
     (if conn \<noteq> 1 then None
      else if cmd = key_list_cmd then Some (''/h/.ssh/id_a'' @ [CHR 0x0A] @ ''/h/.ssh/id_b'')
      else if cmd = key_cat_cmd ''/h/.ssh/id_a'' then Some ''open''
      else if cmd = key_cat_cmd ''/h/.ssh/id_b'' then Some ''locked''
      else None)"

definition example_remote :: remote_world where
  "example_remote =
     \<lparr>rw_dial = \<lambda>n addr kw. if addr = ''10.0.0.6'' \<and> ''ka'' \<in> set (cc_client_keys kw) then Some 2 else None,
      rw_host_key = \<lambda>conn. Some ''SHA256:bbbb'',
      rw_run = \<lambda>conn cmd. map_option (\<lambda>text. [text]) (example_files conn cmd),
      rw_peername = \<lambda>_. ''peer'', rw_username = \<lambda>_. None, rw_getuser = None,
      rw_import = \<lambda>text. if text = ''open'' then KI_key ''ka'' else KI_import_error ''Passphrase must be specified''\<rparr>"

definition example_remote_base :: disc_env where
  "example_remote_base =
     \<lparr>dv_fate = \<lambda>_. W_ok, dv_late = \<lambda>_. False,
      dv_connect = \<lambda>n tunnel addr user keys.
        if addr = ''10.0.0.6'' \<and> ''ka'' \<in> set keys then Some (2, Some ''SHA256:bbbb'') else None,
      dv_username = \<lambda>_. ''root'',
      dv_keys = \<lambda>conn.
        if conn = 1 then ([''ka''], [\<lparr>sk_host = ''peer'', sk_path = ''/h/.ssh/id_b'', sk_reason = ''encrypted''\<rparr>])
        else ([], []),
      dv_addrs = \<lambda>_. Inl PyTimeoutError, dv_crumb = \<lambda>_ _. Inl PyTimeoutError,
      dv_sweep = \<lambda>conn cmd. caught (example_files conn cmd),
      dv_local_file = \<lambda>_. None, dv_hosts = \<lambda>_. None, dv_schedule = \<lambda>_ _. [], dv_now = 0\<rparr>"

definition example_harvest_config :: disc_config where
  "example_harvest_config =
     \<lparr>dc_session = ''disc-1'', dc_key_paths = [], dc_harvest_keys = True, dc_subnet_sweep = False,
      dc_sweep_cidr = None, dc_port = 22, dc_max_depth = 1, dc_max_nodes = 10, dc_concurrency = 4,
      dc_name_prefix = ''disc'', dc_persist = False, dc_injected = [''10.0.0.6''], dc_injected_users = []\<rparr>"

lemma example_output: "remote_output example_remote conn cmd = example_files conn cmd"
  by (simp add: remote_output_def example_remote_def example_files_def run_capped.simps HARVEST_MAX_BYTES_def
      HARVEST_READ_CHUNK_def)

lemma example_key_paths:
  "key_paths (''/h/.ssh/id_a'' @ [CHR 0x0A] @ ''/h/.ssh/id_b'') = [''/h/.ssh/id_a'', ''/h/.ssh/id_b'']"
  by code_simp

lemma example_keys: "harvest_remote_keys example_remote conn = dv_keys example_remote_base conn"
proof -
  have "key_cat_cmd ''/h/.ssh/id_a'' \<noteq> key_list_cmd" "key_cat_cmd ''/h/.ssh/id_b'' \<noteq> key_list_cmd"
    "key_cat_cmd ''/h/.ssh/id_b'' \<noteq> key_cat_cmd ''/h/.ssh/id_a''"
    "strip ''open'' \<noteq> []" "strip ''locked'' \<noteq> []" "contains ''passphrase'' (lower ''Passphrase must be specified'')"
    by code_simp+
  then show ?thesis
    by (simp add: harvest_remote_keys_def example_output example_files_def example_key_paths [simplified]
        example_remote_base_def harvest_key_def is_encrypted_key_def) (simp add: example_remote_def)
qed

text \<open>These answers are the ones the environment works out from the remote side.\<close>

lemma example_remote_env: "remote_env example_remote 22 example_remote_base = example_remote_base"
proof -
  have none: "example_files conn cmd = None"
    if "cmd \<in> snd ` set BREADCRUMB_CMDS \<union> {HARVEST_LINUX_CMD, HARVEST_WINDOWS_CMD}" for conn cmd
  proof -
    have "\<forall>c \<in> snd ` set BREADCRUMB_CMDS \<union> {HARVEST_LINUX_CMD, HARVEST_WINDOWS_CMD}.
        c \<noteq> key_list_cmd \<and> c \<noteq> key_cat_cmd ''/h/.ssh/id_a'' \<and> c \<noteq> key_cat_cmd ''/h/.ssh/id_b''"
      by code_simp
    from bspec [OF this that] show ?thesis by (simp add: example_files_def)
  qed
  have "crumb_output example_remote conn source = Inl PyTimeoutError" for conn source
  proof (cases "map_of BREADCRUMB_CMDS source")
    case None
    then show ?thesis by (simp add: crumb_output_def caught_def)
  next
    case (Some cmd)
    then have "cmd \<in> snd ` set BREADCRUMB_CMDS" by (metis imageI map_of_SomeD snd_conv)
    with Some none [of cmd conn] show ?thesis by (simp add: crumb_output_def caught_def example_output)
  qed
  then have crumb: "crumb_output example_remote = (\<lambda>_ _. Inl PyTimeoutError)" by (intro ext)
  have addrs: "harvest_addresses (caught (rw_run example_remote conn HARVEST_LINUX_CMD))
      (caught (rw_run example_remote conn HARVEST_WINDOWS_CMD)) = Inl PyTimeoutError" for conn
    using none by (simp add: example_remote_def caught_def harvest_addresses_def)
  show ?thesis
    unfolding remote_env_def crumb addrs example_keys example_output
    by (simp add: example_remote_base_def example_remote_def connect_candidate_def username_for_def fun_eq_iff split: option.split)
qed

definition example_harvest_scan :: disc_state where
  "example_harvest_scan = disc_run example_remote_base example_harvest_config
     [\<lparr>fi_name = ''a'', fi_conn = Some 1, fi_depth = 0, fi_is_local = False\<rparr>] (DiscoveryEngine example_registry example_audit [])"

theorem harvest_spares_locked_keys_witness:
  "offered_keys example_harvest_scan = [''ka'']
    \<and> map sk_path (ds_skipped example_harvest_scan) = [''/h/.ssh/id_b'']
    \<and> (\<exists>conn path text. remote_output example_remote conn (key_cat_cmd path) = Some text
        \<and> rw_import example_remote text = KI_key ''ka'')"
proof -
  have o: "offered_keys example_harvest_scan = [''ka'']" "map sk_path (ds_skipped example_harvest_scan) = [''/h/.ssh/id_b'']"
    by code_simp+
  have "example_harvest_scan = disc_run (remote_env example_remote 22 example_remote_base) example_harvest_config
      [\<lparr>fi_name = ''a'', fi_conn = Some 1, fi_depth = 0, fi_is_local = False\<rparr>] (DiscoveryEngine example_registry example_audit [])"
    by (simp add: example_harvest_scan_def example_remote_env)
  from harvest_spares_locked_keys [OF this, THEN conjunct1] o show ?thesis by simp blast
qed

end
