(* ===== verification/Discovery_Secrecy.thy ===== *)
theory Discovery_Secrecy
  imports Harvest
begin

section \<open>Key material stays inside a scan\<close>

text \<open>
  The scan offers private keys to hosts and logs, reports and registers what it finds. None of that shows a key:
  if every key is replaced by another one that the hosts answer in the same way, a scan runs the same and
  leaves the same registry, the same audit log and the same report. Only what is held in memory and offered to
  the hosts differs. The proof follows the two scans side by side.
\<close>

subsection \<open>Replacing the keys of a state\<close>

abbreviation rekey_dial :: "(string \<Rightarrow> string) \<Rightarrow> nat option \<times> string \<times> string \<times> string list \<Rightarrow> nat option \<times> string \<times> string \<times> string list" where
  "rekey_dial f \<equiv> \<lambda>(tunnel, addr, user, ks). (tunnel, addr, user, map f ks)"

definition rekey :: "(string \<Rightarrow> string) \<Rightarrow> disc_state \<Rightarrow> disc_state" where
  "rekey f s = s\<lparr>ds_key_space := map f (ds_key_space s), ds_dials := map (rekey_dial f) (ds_dials s)\<rparr>"

lemma rekey_sel [simp]:
  "ds_registry (rekey f s) = ds_registry s" "ds_audit (rekey f s) = ds_audit s"
  "ds_key_space (rekey f s) = map f (ds_key_space s)" "ds_visited_ips (rekey f s) = ds_visited_ips s"
  "ds_visited_fps (rekey f s) = ds_visited_fps s" "ds_discovered (rekey f s) = ds_discovered s"
  "ds_graph (rekey f s) = ds_graph s" "ds_skipped (rekey f s) = ds_skipped s"
  "ds_registered (rekey f s) = ds_registered s" "ds_truncated (rekey f s) = ds_truncated s"
  "ds_stats (rekey f s) = ds_stats s" "ds_open_conns (rekey f s) = ds_open_conns s"
  "ds_closed (rekey f s) = ds_closed s" "ds_dials (rekey f s) = map (rekey_dial f) (ds_dials s)"
  "ds_clock (rekey f s) = ds_clock s"
  by (simp_all add: rekey_def)

lemma rekey_upd [simp]:
  "(rekey f s)\<lparr>ds_registry := r\<rparr> = rekey f (s\<lparr>ds_registry := r\<rparr>)"
  "(rekey f s)\<lparr>ds_audit := a\<rparr> = rekey f (s\<lparr>ds_audit := a\<rparr>)"
  "(rekey f s)\<lparr>ds_visited_ips := vs\<rparr> = rekey f (s\<lparr>ds_visited_ips := vs\<rparr>)"
  "(rekey f s)\<lparr>ds_visited_fps := fs\<rparr> = rekey f (s\<lparr>ds_visited_fps := fs\<rparr>)"
  "(rekey f s)\<lparr>ds_discovered := hs\<rparr> = rekey f (s\<lparr>ds_discovered := hs\<rparr>)"
  "(rekey f s)\<lparr>ds_graph := g\<rparr> = rekey f (s\<lparr>ds_graph := g\<rparr>)"
  "(rekey f s)\<lparr>ds_skipped := sk\<rparr> = rekey f (s\<lparr>ds_skipped := sk\<rparr>)"
  "(rekey f s)\<lparr>ds_registered := ns\<rparr> = rekey f (s\<lparr>ds_registered := ns\<rparr>)"
  "(rekey f s)\<lparr>ds_truncated := t\<rparr> = rekey f (s\<lparr>ds_truncated := t\<rparr>)"
  "(rekey f s)\<lparr>ds_stats := st\<rparr> = rekey f (s\<lparr>ds_stats := st\<rparr>)"
  "(rekey f s)\<lparr>ds_open_conns := cs\<rparr> = rekey f (s\<lparr>ds_open_conns := cs\<rparr>)"
  "(rekey f s)\<lparr>ds_closed := cs\<rparr> = rekey f (s\<lparr>ds_closed := cs\<rparr>)"
  "(rekey f s)\<lparr>ds_clock := n\<rparr> = rekey f (s\<lparr>ds_clock := n\<rparr>)"
  "(rekey f s)\<lparr>ds_key_space := map f (ds_key_space s) @ map f ks\<rparr> = rekey f (s\<lparr>ds_key_space := ds_key_space s @ ks\<rparr>)"
  by (simp_all add: rekey_def)

text \<open>An environment whose hosts answer the replaced keys as the other's hosts answer the original ones.\<close>

definition rekeyed :: "(string \<Rightarrow> string) \<Rightarrow> disc_env \<Rightarrow> disc_env \<Rightarrow> bool" where
  "rekeyed f env env' \<longleftrightarrow>
     (\<exists>connect keys. env' = env\<lparr>dv_connect := connect, dv_keys := keys\<rparr>
        \<and> (\<forall>n tunnel addr user ks. connect n tunnel addr user (map f ks) = dv_connect env n tunnel addr user ks)
        \<and> (\<forall>conn. keys conn = map_prod (map f) id (dv_keys env conn)))"

lemma rekeyed_sel:
  assumes "rekeyed f env env'"
  shows "dv_fate env' = dv_fate env" "dv_late env' = dv_late env" "dv_username env' = dv_username env"
    "dv_addrs env' = dv_addrs env" "dv_crumb env' = dv_crumb env" "dv_sweep env' = dv_sweep env"
    "dv_local_file env' = dv_local_file env" "dv_hosts env' = dv_hosts env" "dv_schedule env' = dv_schedule env"
    "dv_now env' = dv_now env" "dv_connect env' n tunnel addr user (map f ks) = dv_connect env n tunnel addr user ks"
    "dv_keys env' conn = map_prod (map f) id (dv_keys env conn)"
  using assms by (auto simp: rekeyed_def)

subsection \<open>Every step of the scan\<close>

lemma rekey_log [simp]: "disc_log e (rekey f s) = rekey f (disc_log e s)"
  by (simp add: disc_log_def)

lemma rekey_close [simp]: "close_conn c (rekey f s) = rekey f (close_conn c s)"
  by (simp add: close_conn_def)

lemma rekey_full [simp]: "full_up cfg (rekey f s) = full_up cfg s"
  by (simp add: full_up_def)

lemma rekey_harvest:
  "rekeyed f env env' \<Longrightarrow> maybe_harvest_keys env' cfg item (rekey f s) = rekey f (maybe_harvest_keys env cfg item s)"
  by (cases "fi_conn item") (auto simp: maybe_harvest_keys_def rekeyed_sel Let_def map_prod_def split: prod.split bool.split)

lemma rekey_candidates:
  assumes "rekeyed f env env'"
  shows "harvest_candidates env' cfg item = harvest_candidates env cfg item"
  unfolding harvest_candidates_def harvest_breadcrumbs_def local_breadcrumbs_def sweep_host_def rekeyed_sel [OF assms] ..

lemma rekey_user:
  assumes "rekeyed f env env'"
  shows "probe_user env' cfg via addr = probe_user env cfg via addr"
  unfolding probe_user_def rekeyed_sel [OF assms] ..

lemma rekey_begin:
  assumes "rekeyed f env env'"
  shows "begin_probe env' cfg via addr (rekey f s) = map_prod (rekey f) id (begin_probe env cfg via addr s)"
  using rekeyed_sel(11) [OF assms]
  by (simp add: begin_probe_def look_at_clock_def Let_def rekey_user [OF assms] rekeyed_sel(2) [OF assms])

lemma rekey_register:
  assumes "rekeyed f env env'"
  shows "disc_register env' cfg fp addr via user (rekey f s) = map_prod (rekey f) id (disc_register env cfg fp addr via user s)"
  by (simp add: disc_register_def Let_def rekeyed_sel [OF assms] split: prod.split sum.split)

lemma rekey_accept:
  assumes "rekeyed f env env'"
  shows "accept_host env' cfg via addr conn fp (rekey f s) = map_prod (rekey f) id (accept_host env cfg via addr conn fp s)"
proof -
  have add: "add_host env' cfg via addr conn fp name reachable (rekey f s) = rekey f (add_host env cfg via addr conn fp name reachable s)"
    for name reachable s
    by (simp add: add_host_def host_entry_def auth_key_hint_def rekeyed_sel [OF assms])
  show ?thesis
    by (simp add: accept_host_def rekey_user [OF assms] add rekey_register [OF assms] map_prod_def split: prod.split sum.split)
qed

lemma rekey_finish:
  assumes "rekeyed f env env'"
  shows "finish_probe env' cfg via addr answer (rekey f s) = map_prod (rekey f) id (finish_probe env cfg via addr answer s)"
  by (simp add: finish_probe_def Let_def rekey_accept [OF assms] split: option.split)

lemma rekey_step:
  assumes "rekeyed f env env'"
  shows "probe_step env' cfg via mv (map_prod (rekey f) id sb) = map_prod (rekey f) id (probe_step env cfg via mv sb)"
  by (simp add: probe_step_def rekey_begin [OF assms] rekey_finish [OF assms] map_prod_def
      split: prod.split probe_move.split option.split)

lemma rekey_probes:
  assumes "rekeyed f env env'"
  shows "run_probes env' cfg via moves (map_prod (rekey f) id sb) = map_prod (rekey f) id (run_probes env cfg via moves sb)"
  by (induction moves arbitrary: sb) (simp_all add: run_probes_def rekey_step [OF assms])

lemma rekey_expand:
  assumes "rekeyed f env env'"
  shows "expand env' cfg via cands (rekey f s) = map_prod (rekey f) id (expand env cfg via cands s)"
proof -
  have probes: "run_probes env' cfg via moves (rekey f s, b) = map_prod (rekey f) id (run_probes env cfg via moves (s, b))"
    for moves s b
    using rekey_probes [OF assms, of cfg via moves "(s, b)"] by simp
  show ?thesis
    by (simp add: expand_def Let_def rekeyed_sel [OF assms] probes map_prod_def split: prod.split)
qed

lemma rekey_explore:
  assumes "rekeyed f env env'"
  shows "explore env' cfg item (rekey f s) = map_prod (rekey f) id (explore env cfg item s)"
  by (simp add: explore_def rekey_candidates [OF assms] rekey_harvest [OF assms] rekey_expand [OF assms])

lemma rekey_loop: "rekeyed f env env' \<Longrightarrow> disc_loop env' cfg frontier (rekey f s) = rekey f (disc_loop env cfg frontier s)"
proof (induction env cfg frontier s rule: disc_loop.induct)
  case (1 env cfg frontier s)
  show ?case
  proof (cases frontier)
    case Nil
    then show ?thesis by (simp add: disc_loop.simps)
  next
    case (Cons item rest)
    define late s1 where "late = dv_late env (ds_clock s)" and "s1 = s\<lparr>ds_clock := Suc (ds_clock s)\<rparr>"
    then have clock: "(late, s1) = look_at_clock env s" and clock': "(late, rekey f s1) = look_at_clock env' (rekey f s)"
      using rekeyed_sel(2) [OF "1.prems"] by (simp_all add: look_at_clock_def)
    show ?thesis
    proof (cases "late \<or> full_up cfg s1")
      case True
      then show ?thesis
        by (simp add: Cons disc_loop.simps [of _ cfg "item # rest"] clock [symmetric] clock' [symmetric])
    next
      case False
      obtain s2 items where e: "explore env cfg item s1 = (s2, items)" by (rule prod.exhaust)
      have "disc_loop env' cfg (rest @ items) (rekey f s2) = rekey f (disc_loop env cfg (rest @ items) s2)"
        by (rule "1.IH" [OF Cons clock False e [symmetric] "1.prems"])
      then show ?thesis using False
        by (simp add: Cons disc_loop.simps [of _ cfg "item # rest"] clock [symmetric] clock' [symmetric] e
            rekey_explore [OF "1.prems"])
    qed
  qed
qed

subsection \<open>The whole tool\<close>

lemma rekey_run:
  assumes "rekeyed f env env'"
  shows "disc_run env' cfg seeds (DiscoveryEngine reg a (map f keys)) = rekey f (disc_run env cfg seeds (DiscoveryEngine reg a keys))"
proof -
  have "DiscoveryEngine reg a (map f keys) = rekey f (DiscoveryEngine reg a keys)"
    by (simp add: rekey_def DiscoveryEngine_def)
  then show ?thesis using rekey_loop [OF assms, of cfg seeds "DiscoveryEngine reg a keys"]
    by (simp add: disc_run_def Let_def)
qed

lemma load_keys_rekeyed:
  "load_keys ex (map_option f \<circ> read_key) names = map_prod (map f) id (load_keys ex read_key names)"
proof -
  have "the (map_option f (read_key q)) = f (the (read_key q))" if "read_key q \<noteq> None" for q
    using that by auto
  then show ?thesis by (auto simp: load_keys_def Let_def)
qed

text \<open>C34: A scan leaks no key material. If every private key, the caller's and those found on hosts, is replaced
  by another one, and the hosts accept a replaced key exactly when they accepted the original, then \<open>discover\<close> leaves
  the same registry, the same pool and the same audit log and gives the same report: nothing it writes, logs
  or returns depends on what the keys are.\<close>

theorem discover_leaks_no_key:
  assumes "\<And>n tunnel addr user ks. connect n tunnel addr user (map f ks) = dv_connect env n tunnel addr user ks"
    and "\<And>conn. harvest conn = map_prod (map f) id (dv_keys env conn)"
  shows "discover (env\<lparr>dv_connect := connect, dv_keys := harvest\<rparr>) get ex (map_option f \<circ> read_key) session x reg p a
    = discover env get ex read_key session x reg p a"
proof -
  let ?env = "env\<lparr>dv_connect := connect, dv_keys := harvest\<rparr>"
  have r: "rekeyed f env ?env" using assms by (auto simp: rekeyed_def)
  have cfg: "disc_config_of ?env = disc_config_of env" by (simp add: fun_eq_iff disc_config_of_def)
  have outcome: "disc_completed c (rekey f s) = disc_completed c s" "disc_result c (rekey f s) = disc_result c s" for c s
    by (simp_all add: disc_completed_def disc_result_def)
  show ?thesis
    by (simp add: discover_def Let_def load_keys_rekeyed cfg rekey_run [OF r] outcome map_prod_def split: prod.split)
qed

text \<open>The seed \<open>a\<close> holds a key the scan picks up; in the other run every key is longer by one character.\<close>

definition example_args :: disc_args where
  "example_args =
     \<lparr>da_seeds = Some [''a''], da_keys = None, da_harvest_keys = True, da_injected = Some [''10.0.0.6''],
      da_subnet_sweep = False, da_sweep_cidr = None, da_port = 22, da_max_depth = 1, da_max_nodes = 10,
      da_concurrency = 4, da_name_prefix = ''disc'', da_persist = False\<rparr>"

definition example_discover :: "disc_env \<Rightarrow> (string \<Rightarrow> string option) \<Rightarrow> registry \<times> unit \<times> audit_state \<times> discovery_result" where
  "example_discover env read_key =
     discover env (\<lambda>name p. (p, Inr 1)) (\<lambda>q. q) read_key ''disc-1'' example_args example_registry () example_audit"

definition other_keys_env :: disc_env where
  "other_keys_env = example_remote_base
     \<lparr>dv_connect := \<lambda>n tunnel addr user ks. dv_connect example_remote_base n tunnel addr user (map tl ks),
      dv_keys := \<lambda>conn. map_prod (map (Cons CHR ''x'')) id (dv_keys example_remote_base conn)\<rparr>"

lemma discover_leaks_no_key_witness:
  "example_discover other_keys_env (\<lambda>_. None) = example_discover example_remote_base (\<lambda>_. None)
    \<and> map dh_name (dr_discovered (snd (snd (snd (example_discover other_keys_env (\<lambda>_. None)))))) = [''disc-bbbb'']"
proof -
  have eq: "example_discover other_keys_env (map_option (Cons CHR ''x'') \<circ> (\<lambda>_. None)) = example_discover example_remote_base (\<lambda>_. None)"
    unfolding example_discover_def other_keys_env_def by (rule discover_leaks_no_key) (simp_all add: comp_def)
  have "map dh_name (dr_discovered (snd (snd (snd (example_discover example_remote_base (\<lambda>_. None)))))) = [''disc-bbbb'']"
    by code_simp
  with eq show ?thesis by (simp add: comp_def)
qed

end
