(* ===== verification/Pool_Races.thy ===== *)
theory Pool_Races
  imports Pool
begin

section \<open>Concurrent use of the pool\<close>

text \<open>
  \<open>get_connection\<close> suspends while it dials, and the pool has no lock: other tasks run in between. Here it
  is cut at that point into \<open>begin_get\<close>, up to the call of \<open>create_connection\<close>, and \<open>finish_get\<close>, from its
  answer on. \<open>close\<close> suspends too, while the connection it closes goes down, and is cut there into
  \<open>begin_close\<close> and \<open>finish_close\<close>. The halves one after the other are the whole; with others between them,
  the invariant of the pool still holds, but connections can get lost: of two tasks that dial the same server
  one loses its connection without closing it, and so does a task whose dial ends while the server is being
  closed. The connection of a jump host, which the first half of \<open>get_connection\<close> asks for, is one step.
\<close>

subsection \<open>The two halves\<close>

text \<open>A dial that is under way: its number, the server it was read from and its arguments.\<close>

type_synonym dial = "nat \<times> server_config \<times> connect_kwargs"

definition begin_get ::
    "(string \<Rightarrow> pool \<Rightarrow> pool \<times> nat result) \<Rightarrow> pool_env \<Rightarrow> string \<Rightarrow> pool \<Rightarrow> pool \<times> (nat result + dial)" where
  "begin_get get env name p =
     (case pe_lookup env name of
        Inl e \<Rightarrow> (p, Inl (Inl e))
      | Inr cfg \<Rightarrow>
          let (p1, entry) = pool_entry name p
          in (case open_connection p1 entry of
                Some c \<Rightarrow> (p1, Inl (Inr c))
              | None \<Rightarrow>
                  (case build_connect_kwargs get env cfg (set_status name CS_connecting p1) of
                     (p2, Inl e) \<Rightarrow> map_prod id Inl (connect_failed name e p2)
                   | (p2, Inr kw) \<Rightarrow>
                       (p2\<lparr>pl_dialled := pl_dialled p2 @ [(sc_host cfg, kw)]\<rparr>,
                        Inr (length (pl_dialled p2), cfg, kw)))))"

definition finish_get :: "pool_env \<Rightarrow> string \<Rightarrow> dial \<Rightarrow> pool \<Rightarrow> pool \<times> nat result" where
  "finish_get env name t p =
     (case t of (n, cfg, kw) \<Rightarrow>
       (case pe_dial env n (sc_host cfg) kw of
          D_raise e \<Rightarrow> connect_failed name e p
        | D_ok key \<Rightarrow>
            let p1 = p\<lparr>pl_live := n # pl_live p\<rparr>;
                store = (\<lambda>q. (set_status name CS_connected (set_connection name (Some n) q), Inr n))
            in if effective_policy (pe_settings env) cfg \<in> {HK_tofu, HK_accept_new} then
                 (if pe_append_fails env n then connect_failed name PyOSError p1
                  else store (p1\<lparr>pl_known_hosts := append_host_key (pl_known_hosts p1) (sc_host cfg) key\<rparr>))
               else store p1))"

text \<open>Without anything in between, the two halves of a task are \<open>get_connection\<close>: cutting it at the dial
  changes nothing of what it does, errors included.\<close>

theorem get_connection_halves:
  "get_connection (Suc d) env name p =
     (case begin_get (get_connection d env) env name p of
        (p', Inl r) \<Rightarrow> (p', r)
      | (p', Inr t) \<Rightarrow> finish_get env name t p')"
proof (cases "pe_lookup env name")
  case (Inl e)
  then show ?thesis by (simp add: begin_get_def)
next
  case (Inr cfg)
  obtain p1 en where e: "pool_entry name p = (p1, en)" by (rule prod.exhaust)
  obtain p2 r where b: "build_connect_kwargs (get_connection d env) env cfg (set_status name CS_connecting p1) = (p2, r)"
    by (rule prod.exhaust)
  show ?thesis
  proof (cases "open_connection p1 en")
    case None
    then show ?thesis using Inr e b
      by (cases r; cases "pe_dial env (length (pl_dialled p2)) (sc_host cfg) (projr r)")
        (simp_all add: begin_get_def finish_get_def reconnect_def pool_connect_def create_connection_def Let_def
          map_prod_def split: prod.split)
  next
    case (Some c)
    then show ?thesis using Inr e by (simp add: begin_get_def)
  qed
qed

text \<open>The first half of \<open>close\<close> says whether there is a second.\<close>

definition begin_close :: "string \<Rightarrow> pool \<Rightarrow> pool \<times> bool" where
  "begin_close name p =
     (if name \<in> set (pl_pinned p) then (p, False)
      else
        (case map_of (pl_entries p) name of
           None \<Rightarrow> (p, False)
         | Some entry \<Rightarrow>
             ((case en_connection entry of
                 None \<Rightarrow> p
               | Some c \<Rightarrow> p\<lparr>pl_live := removeAll c (pl_live p)\<rparr>), True)))"

definition finish_close :: "string \<Rightarrow> pool \<Rightarrow> pool" where
  "finish_close name p = set_status name CS_disconnected (set_connection name None p)"

lemma pool_close_halves:
  "pool_close name p = (case begin_close name p of (p', pending) \<Rightarrow> if pending then finish_close name p' else p')"
  by (simp add: pool_close_def begin_close_def finish_close_def Let_def split: option.split)

subsection \<open>The invariant under interleaving\<close>

text \<open>The tasks that wait, each with the server it connects to.\<close>

type_synonym waiting = "string \<times> dial"

inductive race_step :: "nat \<Rightarrow> pool_env \<Rightarrow> pool \<times> waiting list \<Rightarrow> pool \<times> waiting list \<Rightarrow> bool" for limit env where
  race_begin: "begin_get (get_connection limit env) env name p = (p', Inr t) \<Longrightarrow> race_step limit env (p, ts) (p', (name, t) # ts)"
| race_return: "begin_get (get_connection limit env) env name p = (p', Inl r) \<Longrightarrow> race_step limit env (p, ts) (p', ts)"
| race_finish: "(name, t) \<in> set ts \<Longrightarrow> finish_get env name t p = (p', r) \<Longrightarrow> race_step limit env (p, ts) (p', remove1 (name, t) ts)"
| race_close: "race_step limit env (p, ts) (fst (begin_close name p), ts)"
| race_closed: "race_step limit env (p, ts) (finish_close name p, ts)"
| race_other: "pool_step limit env p p' \<Longrightarrow> race_step limit env (p, ts) (p', ts)"

text \<open>A number that was dialled but is neither open nor in a slot.\<close>

definition unused :: "nat \<Rightarrow> pool \<Rightarrow> bool" where
  "unused n p \<longleftrightarrow> n < length (pl_dialled p) \<and> n \<notin> set (pl_live p)
     \<and> (\<forall>m en. slot p m = Some en \<longrightarrow> en_connection en \<noteq> Some n)"

lemma unused_upd [simp]:
  "unused n (p\<lparr>pl_pinned := ps\<rparr>) = unused n p"
  "unused n (p\<lparr>pl_known_hosts := kh\<rparr>) = unused n p"
  by (simp_all add: unused_def slot_def)

lemma unused_set_status [simp]: "unused n p \<Longrightarrow> unused n (set_status name st p)"
  by (auto simp: unused_def slot_set_status)

lemma unused_set_connection [simp]: "unused n p \<Longrightarrow> c \<noteq> Some n \<Longrightarrow> unused n (set_connection name c p)"
  by (auto simp: unused_def slot_set_connection)

lemma unused_dialled [simp]: "unused n p \<Longrightarrow> unused n (p\<lparr>pl_dialled := pl_dialled p @ ds\<rparr>)"
  by (simp add: unused_def slot_def)

lemma unused_live [simp]: "unused n p \<Longrightarrow> c \<noteq> n \<Longrightarrow> unused n (p\<lparr>pl_live := c # pl_live p\<rparr>)"
  by (simp add: unused_def slot_def)

lemma unused_dies [simp]: "unused n p \<Longrightarrow> unused n (p\<lparr>pl_live := removeAll c (pl_live p)\<rparr>)"
  by (simp add: unused_def slot_def)

lemma unused_entry:
  assumes "pool_entry name p = (p', en)" and "unused n p"
  shows "unused n p'"
proof -
  have s: "slot p' m = (if m = name then Some en else slot p m)" "slot p name = Some en \<or> en_connection en = None" for m
    using slot_pool_entry [OF assms(1), of m] by (auto simp: ConnectionEntry_def)
  then show ?thesis using assms(2) pool_entry_other [OF assms(1)] by (auto simp: unused_def)
qed

lemma unused_failed: "connect_failed name e p = (p', r) \<Longrightarrow> unused n p \<Longrightarrow> unused n p'"
  by (auto elim: connect_failed_cases)

lemma unused_kwargs:
  assumes "build_connect_kwargs get env cfg p = (p', r)" and "unused n p"
    and "\<And>j q q' s. get j q = (q', s) \<Longrightarrow> unused n q \<Longrightarrow> unused n q'"
  shows "unused n p'"
  using assms by (auto simp: build_connect_kwargs_def split: sum.splits option.splits prod.splits)

lemma unused_begin:
  assumes "begin_get get env name p = (p', r)" and "unused n p"
    and "\<And>j q q' s. get j q = (q', s) \<Longrightarrow> unused n q \<Longrightarrow> unused n q'"
  shows "unused n p' \<and> (\<forall>t. r = Inr t \<longrightarrow> fst t \<noteq> n)"
proof (cases "pe_lookup env name")
  case (Inl e)
  then show ?thesis using assms by (auto simp: begin_get_def)
next
  case (Inr cfg)
  obtain p1 en where e: "pool_entry name p = (p1, en)" by (rule prod.exhaust)
  obtain p2 k where b: "build_connect_kwargs get env cfg (set_status name CS_connecting p1) = (p2, k)"
    by (rule prod.exhaust)
  have u: "unused n p1" "unused n p2"
    using unused_entry [OF e assms(2)] unused_kwargs [OF b _ assms(3)] by auto
  then have "n < length (pl_dialled p2)" by (simp add: unused_def)
  moreover obtain q x where "connect_failed name (projl k) p2 = (q, x)" by (rule prod.exhaust)
  moreover from unused_failed [OF this u(2)] have "unused n q" .
  ultimately show ?thesis using assms(1) Inr e b u
    by (cases k) (auto simp: begin_get_def split: option.splits)
qed

lemma unused_finish:
  assumes "finish_get env name t p = (p', r)" and "unused n p" and "fst t \<noteq> n"
  shows "unused n p'"
  using assms
  by (cases t) (auto simp: finish_get_def Let_def dest!: unused_failed split: dial_outcome.splits if_splits)

lemma unused_get: "get_connection d env name p = (p', r) \<Longrightarrow> unused n p \<Longrightarrow> unused n p'"
proof (induction d arbitrary: name p p' r)
  case 0
  then show ?case by simp
next
  case (Suc d)
  obtain q x where b: "begin_get (get_connection d env) env name p = (q, x)" by (rule prod.exhaust)
  have u: "unused n q" "\<And>t. x = Inr t \<Longrightarrow> fst t \<noteq> n"
    using unused_begin [OF b Suc.prems(2)] Suc.IH by blast+
  show ?case
  proof (cases x)
    case (Inl y)
    then show ?thesis using Suc.prems(1) b u by (simp add: get_connection_halves del: get_connection.simps)
  next
    case (Inr t)
    then have "finish_get env name t q = (p', r)"
      using Suc.prems(1) b by (simp add: get_connection_halves del: get_connection.simps)
    from unused_finish [OF this u(1)] u(2) Inr show ?thesis by simp
  qed
qed

lemma unused_close: "unused n p \<Longrightarrow> unused n (pool_close name p)"
  by (simp add: pool_close_def Let_def split: option.split)

lemma unused_close_all: "unused n p \<Longrightarrow> unused n (pool_close_all p)"
proof -
  have "unused n p \<Longrightarrow> unused n (fold pool_close ns p)" for ns
    by (induction ns arbitrary: p) (simp_all add: unused_close)
  then show "unused n p \<Longrightarrow> unused n (pool_close_all p)" by (simp add: pool_close_all_def)
qed

lemma unused_step: "pool_step limit env p p' \<Longrightarrow> unused n p \<Longrightarrow> unused n p'"
  by (erule pool_step_elim) (auto simp: pool_pin_def pool_unpin_def pool_on_close_def unused_close unused_close_all dest: unused_get)

lemma unused_close_halves: "unused n p \<Longrightarrow> unused n (fst (begin_close name p)) \<and> unused n (finish_close name p)"
  by (simp add: begin_close_def finish_close_def split: option.split)

lemma close_halves_ok: "pool_ok p \<Longrightarrow> pool_ok (fst (begin_close name p)) \<and> pool_ok (finish_close name p)"
proof -
  assume p: "pool_ok p"
  have "pool_ok (p\<lparr>pl_live := removeAll c (pl_live p)\<rparr>)" for c
    by (rule pool_ok_trace [OF p]) (use pool_ok_parts(2) [OF p] in auto)
  then show ?thesis using p
    by (auto simp: begin_close_def finish_close_def intro: pool_ok_disconnect split: option.split)
qed

text \<open>The first half keeps the invariant, and its dial gets a number nobody uses.\<close>

lemma begin_ok:
  assumes "begin_get (get_connection d env) env name p = (p', r)" and "pool_ok p"
  shows "pool_ok p' \<and> (\<forall>t. r = Inr t \<longrightarrow> unused (fst t) p')"
proof (cases "pe_lookup env name")
  case (Inl e)
  then show ?thesis using assms by (auto simp: begin_get_def)
next
  case (Inr cfg)
  obtain p1 en where e: "pool_entry name p = (p1, en)" by (rule prod.exhaust)
  obtain p2 k where b: "build_connect_kwargs (get_connection d env) env cfg (set_status name CS_connecting p1) = (p2, k)"
    by (rule prod.exhaust)
  have ok1: "pool_ok p1" by (rule pool_ok_entry [OF assms(2) e])
  then have "pool_ok (set_status name CS_connecting p1)" by (rule pool_ok_set_status) simp
  then have ok2: "pool_ok p2"
    using b by (auto simp: build_connect_kwargs_def dest: pool_ok_get split: sum.splits option.splits prod.splits)
  let ?q = "p2\<lparr>pl_dialled := pl_dialled p2 @ [(sc_host cfg, projr k)]\<rparr>"
  have "pool_ok ?q" by (rule pool_ok_trace [OF ok2]) (use pool_ok_parts(2) [OF ok2] in \<open>auto intro: less_SucI\<close>)
  moreover have "unused (length (pl_dialled p2)) ?q"
    using pool_ok_parts(2,3) [OF ok2] by (fastforce simp: unused_def)
  moreover obtain q x where f: "connect_failed name (projl k) p2 = (q, x)" by (rule prod.exhaust)
  moreover from f have "pool_ok q" by (cases rule: connect_failed_cases) (use ok2 pool_ok_set_status in auto)
  ultimately show ?thesis using assms(1) Inr e b ok1
    by (cases k) (auto simp: begin_get_def split: option.splits)
qed

lemma finish_ok:
  assumes "finish_get env name t p = (p', r)" and "pool_ok p" and "unused (fst t) p"
  shows "pool_ok p'"
proof -
  obtain n cfg kw where t: "t = (n, cfg, kw)" by (rule prod_cases3)
  have u: "unused n p" using assms(3) t by simp
  have failed: "pool_ok q" if "connect_failed name e q0 = (q, x)" "pool_ok q0" for e q0 q x
    using that(1) by (cases rule: connect_failed_cases) (use that(2) pool_ok_set_status in auto)
  have live: "pool_ok (p\<lparr>pl_live := n # pl_live p\<rparr>)"
    by (rule pool_ok_trace [OF assms(2)]) (use u pool_ok_parts(2) [OF assms(2)] in \<open>auto simp: unused_def\<close>)
  have store: "pool_ok (set_status name CS_connected (set_connection name (Some n) q))"
    if "slot q = slot p" "pl_dialled q = pl_dialled p" "pool_ok q" for q
    by (rule pool_ok_update [OF that(3), where name = name])
      (use that u pool_ok_parts [OF that(3)] in \<open>auto simp: slot_set_status slot_set_connection unused_def\<close>)
  have "pool_ok (p\<lparr>pl_live := n # pl_live p, pl_known_hosts := kh\<rparr>)" for kh
    by (rule pool_ok_trace [OF live]) (use pool_ok_parts(2) [OF live] in simp_all)
  then show ?thesis using assms(1,2) t live store failed
    by (auto simp: finish_get_def Let_def split: dial_outcome.splits if_splits)
qed

subsection \<open>Every interleaving\<close>

definition race_ok :: "pool \<times> waiting list \<Rightarrow> bool" where
  "race_ok s \<longleftrightarrow> pool_ok (fst s) \<and> distinct (map (fst \<circ> snd) (snd s)) \<and> (\<forall>w \<in> set (snd s). unused (fst (snd w)) (fst s))"

lemma race_step_ok:
  assumes "race_step limit env s s'" and "race_ok s"
  shows "race_ok s'"
  using assms(1)
proof (cases rule: race_step.cases)
  case (race_begin name p p' t ts)
  then have b: "begin_get (get_connection limit env) env name p = (p', Inr t)" and ts: "s = (p, ts)" "s' = (p', (name, t) # ts)"
    by simp_all
  have "unused n p' \<and> fst t \<noteq> n" if "unused n p" for n using unused_begin [OF b that] unused_get by blast
  then show ?thesis using begin_ok [OF b] assms(2) ts by (force simp: race_ok_def)
next
  case (race_return name p p' r ts)
  have "unused n p' " if "unused n p" for n using unused_begin [OF race_return(3) that] unused_get by blast
  then show ?thesis using begin_ok [OF race_return(3)] assms(2) race_return by (simp add: race_ok_def)
next
  case (race_finish name t ts p p' r)
  have d: "distinct (map (fst \<circ> snd) ts)" using assms(2) race_finish(1) by (simp add: race_ok_def)
  have "unused (fst (snd w)) p'" if w: "w \<in> set (remove1 (name, t) ts)" for w
  proof (rule unused_finish [OF race_finish(4)])
    show "unused (fst (snd w)) p" using w assms(2) race_finish(1) notin_set_remove1 by (fastforce simp: race_ok_def)
    have "distinct ts" using d by (simp add: distinct_map)
    then have "w \<noteq> (name, t)" "w \<in> set ts" using w by auto
    then show "fst t \<noteq> fst (snd w)" using d race_finish(3) by (auto simp: distinct_map inj_on_def)
  qed
  moreover have "pool_ok p'" using finish_ok [OF race_finish(4)] assms(2) race_finish(1,3) by (auto simp: race_ok_def)
  moreover have "distinct (map (fst \<circ> snd) (remove1 (name, t) ts))"
    using d by (auto simp: distinct_map distinct_remove1 inj_on_def dest: notin_set_remove1)
  ultimately show ?thesis using race_finish(2) by (simp add: race_ok_def)
next
  case (race_close p ts name)
  then show ?thesis using assms(2) by (simp add: race_ok_def close_halves_ok unused_close_halves)
next
  case (race_closed p ts name)
  then show ?thesis using assms(2) by (simp add: race_ok_def close_halves_ok unused_close_halves)
next
  case (race_other p p' ts)
  then show ?thesis using assms(2) pool_step_ok unused_step by (auto simp: race_ok_def)
qed


subsection \<open>Two tasks, one server\<close>

lemma finish_success:
  assumes "finish_get env name t p = (p', Inr c)" and "slot p name \<noteq> None"
  shows "c = fst t \<and> slot p' = (slot p)(name := Some \<lparr>en_connection = Some c, en_status = CS_connected\<rparr>)
    \<and> pl_live p' = c # pl_live p \<and> pl_pinned p' = pl_pinned p"
proof -
  obtain n cfg kw where t: "t = (n, cfg, kw)" by (rule prod_cases3)
  have "slot (set_status name CS_connected (set_connection name (Some n) q))
      = (slot p)(name := Some \<lparr>en_connection = Some n, en_status = CS_connected\<rparr>)" if "slot q = slot p" for q
    using that assms(2) by (auto simp: slot_set_status slot_set_connection fun_eq_iff)
  then show ?thesis using assms t
    by (auto simp: finish_get_def Let_def connect_failed_def split: dial_outcome.splits if_splits)
qed

lemma begin_slot:
  assumes "begin_get (get_connection d env) env name p = (p', r)"
  shows "pool_grows p p' \<and> (\<forall>t. r = Inr t \<longrightarrow> slot p' name \<noteq> None)"
proof (cases "pe_lookup env name")
  case (Inl e)
  then show ?thesis using assms by (auto simp: begin_get_def)
next
  case (Inr cfg)
  obtain p1 en where e: "pool_entry name p = (p1, en)" by (rule prod.exhaust)
  obtain p2 k where b: "build_connect_kwargs (get_connection d env) env cfg (set_status name CS_connecting p1) = (p2, k)"
    by (rule prod.exhaust)
  have g1: "pool_grows p (set_status name CS_connecting p1)"
    using pool_grows_trans [OF pool_entry_grows [OF e]] by simp
  have g: "pool_grows p p2"
    by (rule pool_grows_trans [OF g1 build_connect_kwargs_grows [OF _ b]]) (rule get_connection_grows)
  have "slot p1 name = Some en" using slot_pool_entry [OF e, of name] by simp
  then have s: "slot p2 name \<noteq> None"
    using build_connect_kwargs_grows [OF _ b] get_connection_grows by (auto simp: pool_grows_def slot_set_status)
  have "pool_grows p2 (p2\<lparr>pl_dialled := pl_dialled p2 @ ds\<rparr>)" for ds by (auto simp: pool_grows_def)
  then have d: "pool_grows p (p2\<lparr>pl_dialled := pl_dialled p2 @ ds\<rparr>)" for ds using pool_grows_trans [OF g] by blast
  obtain q x where f: "connect_failed name (projl k) p2 = (q, x)" by (rule prod.exhaust)
  from pool_grows_trans [OF g connect_failed_grows [OF f]] have "pool_grows p q" .
  then show ?thesis using assms Inr e b d f s pool_entry_grows [OF e]
    by (cases k) (auto simp: begin_get_def split: option.splits)
qed

lemma close_all_live:
  "c \<in> set (pl_live (pool_close_all p)) \<longleftrightarrow> c \<in> set (pl_live p)
     \<and> \<not> (\<exists>n en. n \<notin> set (pl_pinned p) \<and> slot p n = Some en \<and> en_connection en = Some c)"
proof -
  have "m \<in> set (map fst (pl_entries p)) \<longleftrightarrow> slot p m \<noteq> None" for m
    by (simp add: slot_def map_of_eq_None_iff)
  then show ?thesis using fold_pool_close_spec [of "map fst (pl_entries p)" p, folded pool_close_all_def]
    by (simp del: set_map) (metis option.distinct(1))
qed


text \<open>A dial that is under way when \<open>close\<close> begins and ends before it does: the second half of \<open>close\<close> forgets
  the new connection, which stays open.\<close>

theorem close_forgets_new_connection:
  assumes "pool_ok p" and "unused (fst t) p" and "begin_close name p = (p1, True)"
    and "finish_get env name t p1 = (p2, Inr c)"
  shows "slot (finish_close name p2) name = Some ConnectionEntry \<and> c \<in> set (pl_live (pool_close_all (finish_close name p2)))"
proof -
  have u: "unused (fst t) p1" and ok1: "pool_ok p1"
    using close_halves_ok [OF assms(1), of name] unused_close_halves [OF assms(2), of name] assms(3) by simp_all
  note ok = finish_ok [OF assms(4) ok1 u]
  have "slot p1 name \<noteq> None" using assms(3) by (auto simp: begin_close_def slot_def split: if_splits option.splits)
  from finish_success [OF assms(4) this] have h: "holds_open p2 name c" by (simp add: holds_open_def)
  then have new: "m \<noteq> name \<Longrightarrow> slot p2 m = Some en \<Longrightarrow> en_connection en \<noteq> Some c" for m en
    using pool_ok_parts(5) [OF ok, of m en name _ c] by (auto simp: holds_open_def)
  let ?q = "finish_close name p2"
  have s: "slot ?q name = Some ConnectionEntry"
    using h by (simp add: finish_close_def slot_set_status slot_set_connection holds_open_def ConnectionEntry_def)
  have "slot ?q m = Some en \<Longrightarrow> en_connection en \<noteq> Some c" for m en
    using new [of m en] s by (cases "m = name")
      (auto simp: finish_close_def slot_set_status slot_set_connection ConnectionEntry_def)
  then show ?thesis using s h by (auto simp: close_all_live holds_open_def finish_close_def)
qed

text \<open>Two tasks begin to dial the server \<open>b\<close>, then both dials end.\<close>

definition example_race1 :: "pool \<times> (nat result + dial)" where
  "example_race1 = begin_get (get_connection 3 key_env) key_env ''b'' (ConnectionPool None)"

definition example_race2 :: "pool \<times> (nat result + dial)" where
  "example_race2 = begin_get (get_connection 3 key_env) key_env ''b'' (fst example_race1)"

definition example_race3 :: "pool \<times> nat result" where
  "example_race3 = finish_get key_env ''b'' (projr (snd example_race1)) (fst example_race2)"

definition example_race4 :: "pool \<times> nat result" where
  "example_race4 = finish_get key_env ''b'' (projr (snd example_race2)) (fst example_race3)"

lemma example_race_steps:
  "begin_get (get_connection 3 key_env) key_env ''b'' (ConnectionPool None)
     = (fst example_race1, Inr (projr (snd example_race1)))"
  "begin_get (get_connection 3 key_env) key_env ''b'' (fst example_race1)
     = (fst example_race2, Inr (projr (snd example_race2)))"
  "finish_get key_env ''b'' (projr (snd example_race1)) (fst example_race2) = (fst example_race3, Inr 0)"
  "finish_get key_env ''b'' (projr (snd example_race2)) (fst example_race3) = (fst example_race4, Inr 1)"
proof -
  have "snd example_race1 = Inr (projr (snd example_race1))" "snd example_race2 = Inr (projr (snd example_race2))"
    "snd example_race3 = Inr 0" "snd example_race4 = Inr 1" by code_simp+
  then show "begin_get (get_connection 3 key_env) key_env ''b'' (ConnectionPool None)
     = (fst example_race1, Inr (projr (snd example_race1)))"
    "begin_get (get_connection 3 key_env) key_env ''b'' (fst example_race1)
     = (fst example_race2, Inr (projr (snd example_race2)))"
    "finish_get key_env ''b'' (projr (snd example_race1)) (fst example_race2) = (fst example_race3, Inr 0)"
    "finish_get key_env ''b'' (projr (snd example_race2)) (fst example_race3) = (fst example_race4, Inr 1)"
    unfolding example_race1_def [symmetric] example_race2_def [symmetric] example_race3_def [symmetric]
      example_race4_def [symmetric]
    by (simp_all add: prod_eq_iff)
qed



end
