(* ===== verification/Spec2Isabelle.thy ===== *)
theory Spec2Isabelle
  imports Server_Runs Discovery_Secrecy Pool_Races
begin

text \<open>
  \<^bold>\<open>better-ssh-mcp\<close> is a server for the Model Context Protocol that gives an assistant ten tools for working on
  remote hosts over SSH: run commands, keep background processes and terminals, copy files, forward ports,
  build jump chains, map who reaches whom and discover hosts. This development models the Python package
  \<open>src/mcp_ssh\<close> and proves what its parts promise. All paths below are relative to that directory.

  \<^bold>\<open>The parts and how they interact.\<close> \<open>server.py\<close> builds one registry, one connection pool, one state store
  and one audit log and hands them to a session manager, a proxy manager and the tools. The registry reads and
  writes \<open>servers.toml\<close> and keeps a second table of servers in memory only. The pool looks servers up in the
  registry, opens connections through jump hosts, which are servers of the registry themselves, and keeps one
  slot per server; proxies pin slots so that closing spares them. The session manager and all tools reach hosts
  only through the pool's \<open>get_connection\<close>. The scan of the topology fills the state store with a matrix of
  who reaches whom, path finding reads it, and \<open>setup_jump\<close> turns a path into servers of the registry, as
  discovery does with every host it confirms. Everything is recorded in the audit log.

  \<^bold>\<open>Theories and sources.\<close>

    \<^item> \<open>Prelude\<close>, \<open>Py_Strings\<close>: dictionaries that keep their order, the collections \<open>dict_simps\<close> and
      \<open>inv_intros\<close>, chains of links, and the string operations of Python the program uses.
    \<^item> \<open>Models\<close>: \<open>models.py\<close>, \<open>exceptions.py\<close>; every exception is a constructor of \<open>py_exn\<close>, a function
      that may raise gives \<open>py_exn + 'a\<close>, and \<open>bindR\<close> sequences operations on a state that may raise.
    \<^item> \<open>Config\<close>: \<open>config.py\<close>. \<open>Atomic_File\<close>: the write to a temporary file and its replacement.
      \<open>Registry\<close>: \<open>registry.py\<close>, the record \<open>registry\<close> with both tables, the file and its writes.
    \<^item> \<open>Audit_Log\<close>: \<open>audit.py\<close>. \<open>State_Store\<close>: \<open>state.py\<close> over the JSON value of its file.
    \<^item> \<open>Host_Keys\<close>, \<open>Pool\<close>, \<open>Pool_Races\<close>: \<open>pool.py\<close>; the known-hosts text, the pool as calls that run one
      after another, and the pool with tasks that interleave at the dial.
    \<^item> \<open>Proxy\<close>: \<open>proxy.py\<close>, \<open>tools/proxy_tools.py\<close>.
    \<^item> \<open>Pathfind\<close>, \<open>Topology\<close>: \<open>topology.py\<close>. \<open>Jump\<close>, \<open>Registry_Tools\<close>: \<open>tools/registry_tools.py\<close>.
    \<^item> \<open>Candidates\<close>, \<open>Discovery\<close>, \<open>Harvest\<close>: \<open>discovery.py\<close>; the parsers of breadcrumbs, the engine with its
      tasks, and what it runs on a host. \<open>Discovery_Runs\<close>, \<open>Discovery_Registry\<close>, \<open>Discovery_Secrecy\<close>: what a
      scan guarantees.
    \<^item> \<open>Ansi\<close>: \<open>utils.py\<close>. \<open>Shell\<close>: \<open>shlex.quote\<close> and a lexer of a POSIX shell to measure it by.
    \<^item> \<open>Session\<close>, \<open>Pty\<close>: \<open>session.py\<close>; background processes, terminals. \<open>Session_Runs\<close>: all runs of the
      manager as a transition system. \<open>Exec_Tools\<close>, \<open>Pty_Tools\<close>: \<open>tools/exec_tools.py\<close>, \<open>tools/pty_tools.py\<close>.
    \<^item> \<open>File_Tools\<close>, \<open>File_Runs\<close>: \<open>tools/scp_tools.py\<close> and what its tools guarantee.
    \<^item> \<open>Registry_Runs\<close>, \<open>Pool_Users\<close>: what every client of the registry and of the pool keeps.
    \<^item> \<open>Server\<close>, \<open>Server_Runs\<close>: \<open>server.py\<close>; the dispatch of the ten tools, start, reload, end, \<open>SIGTERM\<close>, and
      the invariants of all components together.

  Names are the ones of the source. An operation of a class takes its object last and gives the new one back,
  with a prefix where Python qualifies by the class: \<open>reg_add\<close>, \<open>pool_close\<close>, \<open>state_load\<close>, \<open>disc_run\<close>. A field
  of an object is a field of its record, a dictionary the association list of its entries in order.
\<close>

text \<open>
  \<^bold>\<open>What the lemmas show.\<close>

    \<^item> Configuration: the cycle check is exact; what \<open>load_config\<close> returns has finite jump chains.
    \<^item> Registry: any sequence of tool calls, whatever writes fail, keeps the file and the memory equal and names
      unique; failing chains are rolled back; setting up and tearing down are inverse, for jump chains and for
      discovery sessions.
    \<^item> Pool: connected slots hold dialled connections no other server shares, also when tasks interleave; jump
      hosts become tunnels; the depth of nested calls is bounded by the jump chain. Two tasks that dial the same
      server lose a connection. Trust on first use verifies a host once its key is recorded.
    \<^item> Topology: reachable edges are backed by a dial; \<open>find_path\<close> ends and gives a cheapest walk by hops and
      latency, and the chain built from it follows that walk.
    \<^item> Discovery: bounds on hosts and depth for every schedule of the tasks, no address dialled and no
      fingerprint reported twice, every reported host reachable through its chain, no key used but those given
      or, on request, those found unprotected, and nothing written, logged or returned that depends on a key.
    \<^item> Sessions: commands reach the remote shell as quoted; a kill names one positive process id and an allowed
      signal; the terminal buffer refines a queue of bytes that reads empty; the session cap, and its race.
    \<^item> Files: each transfer is audited once at its end; listings are complete; a sync reports what it did.
    \<^item> State: a restart restores every record; exactly which files make loading raise.
    \<^item> Server: all invariants together in every run; what the end of the server and \<open>SIGTERM\<close> leave behind.

  Properties are numbered in the text blocks before them; further theorems without a number, several of which show
  a defect of the program, are named by the findings of the manifest.

  \<^bold>\<open>Interfaces.\<close> \<open>interfaces.py\<close> declares the protocols the components rely on. Their laws are locales, each
  interpreted on the model: \<open>server_table\<close> (both tables of the registry), \<open>registry_client\<close> (what any client of
  the registry keeps, for two invariants), \<open>pinning_pool\<close> (what the proxy manager needs of the pool),
  \<open>pool_user\<close> (what everybody else does to the pool), \<open>record_store\<close> (processes and sessions), \<open>min_heap\<close>
  (\<open>heapq\<close>) and \<open>byte_queue\<close> (the terminal buffer).

  \<^bold>\<open>Recursion and fuel.\<close> \<open>get_connection\<close> takes the depth Python's recursion limit leaves and raises
  \<open>RecursionError\<close> at zero; \<open>get_connection_bounded\<close> shows that one more than the length of the jump chain is
  enough. The loop of \<open>find_path\<close> is a \<open>while_option\<close>, and \<open>find_path_returns\<close> shows that it always ends. The loop of the discovery ends by the measure of its frontier and the hosts left to find;
  \<open>_run_capped\<close> by the bytes left under its cap; the suffix of a taken name by the number of servers. The listing
  of a remote tree has the recursion limit as its depth and raises when a tree is deeper.

  \<^bold>\<open>Parameters.\<close> What the source calls and does not contain is an argument, gathered in the records
  \<open>pool_env\<close>, \<open>proxy_env\<close>, \<open>session_env\<close>, \<open>scan_env\<close>, \<open>disc_env\<close>, \<open>remote_world\<close>, \<open>file_env\<close>, \<open>tool_env\<close>
  and \<open>server_env\<close>: asyncssh and the hosts, how a write to a file ends, \<open>uuid4\<close>, the clock (a count), the process
  environment, \<open>expanduser\<close>, the TOML and JSON parsers, the validation of Pydantic, \<open>ipaddress.ip_network\<close>. The
  theorems hold for all of them, apart from hypotheses they state.

  \<^bold>\<open>Not modelled.\<close> \<open>interfaces.py\<close> has signatures and no code. \<open>main\<close> beyond its choice of the configuration file
  and its signal handler is argparse, logging and FastMCP, as is the registration of the tools. Log messages are left
  out. Tool calls run one after another, except that the tasks of a discovery, the tasks that ask the pool for
  connections or close them, and the callers that open a terminal interleave. The operations of the registry and
  the construction of a chain contain no \<open>await\<close>, so that no other task sees them half done. Text is Latin-1: characters above 255, for which
  some Python predicates differ, do not occur. Latencies are integers, in hundredths of a millisecond. Timeouts are
  one more way for a call to fail. \<open>_HOSTNAME_RE\<close> is not used by the program, and neither is
  \<open>_make_tofu_known_hosts\<close>, which is modelled but has no theorem.
\<close>

end
